(* ===== verification/Prelude.thy ===== *)
theory Prelude
  imports Main "HOL-Library.AList" "HOL-Library.Multiset"
begin

text \<open>
  What every component of the development shares: the model of Go's maps, of its
  fixed-width integers, of loops that return early, of calls that may panic or block for ever,
  and the generic list lemmas the component proofs lean on.
\<close>

named_theorems gomap_simps \<open>lookup, update and deletion on the model of Go maps\<close>

section \<open>Go maps\<close>

text \<open>
  A Go map is an association list with distinct keys. Lookup, insertion and deletion do not
  depend on the order of the list; a \<open>range\<close> loop visits the entries in the order of the list,
  and since every theorem holds for every list, it holds for every iteration order the Go
  runtime may choose. The nil map and the empty map are both the empty list.
\<close>

type_synonym ('k, 'v) gomap = "('k \<times> 'v) list"

abbreviation gm_get :: "('k, 'v) gomap \<Rightarrow> 'k \<Rightarrow> 'v option" where
  "gm_get m k \<equiv> map_of m k"

abbreviation gm_put :: "'k \<Rightarrow> 'v \<Rightarrow> ('k, 'v) gomap \<Rightarrow> ('k, 'v) gomap" where
  "gm_put k v m \<equiv> AList.update k v m"

abbreviation gm_del :: "'k \<Rightarrow> ('k, 'v) gomap \<Rightarrow> ('k, 'v) gomap" where
  "gm_del k m \<equiv> AList.delete k m"

text \<open>Tags and labels, the maps most of the components exchange.\<close>

type_synonym tags = "(string, string) gomap"

definition gm_has :: "('k, 'v) gomap \<Rightarrow> 'k \<Rightarrow> bool" where
  "gm_has m k \<longleftrightarrow> map_of m k \<noteq> None"

definition gm_ok :: "('k, 'v) gomap \<Rightarrow> bool" where
  "gm_ok m \<longleftrightarrow> distinct (map fst m)"

text \<open>Reading a missing key gives the zero value of the element type.\<close>

definition gm_get0 :: "'v \<Rightarrow> ('k, 'v) gomap \<Rightarrow> 'k \<Rightarrow> 'v" where
  "gm_get0 z m k = (case map_of m k of None \<Rightarrow> z | Some v \<Rightarrow> v)"

lemma gm_get_put [gomap_simps, simp]: "gm_get (gm_put k v m) k' = (if k' = k then Some v else gm_get m k')"
  by (simp add: update_conv')

lemma gm_get_del [gomap_simps, simp]: "gm_get (gm_del k m) k' = (if k' = k then None else gm_get m k')"
  by (simp add: delete_conv')

lemma gm_has_iff: "gm_has m k \<longleftrightarrow> k \<in> fst ` set m"
  by (simp add: gm_has_def map_of_eq_None_iff)

lemma gm_has_put [gomap_simps, simp]: "gm_has (gm_put k v m) k' \<longleftrightarrow> k' = k \<or> gm_has m k'"
  by (simp add: gm_has_def)

lemma gm_has_del [gomap_simps, simp]: "gm_has (gm_del k m) k' \<longleftrightarrow> k' \<noteq> k \<and> gm_has m k'"
  by (simp add: gm_has_def)

lemma gm_has_Nil [simp]: "\<not> gm_has [] k"
  by (simp add: gm_has_def)

lemma gm_hasE: "gm_has m k \<Longrightarrow> (\<And>v. gm_get m k = Some v \<Longrightarrow> P) \<Longrightarrow> P"
  by (auto simp: gm_has_def)

lemma gm_ok_Nil [simp]: "gm_ok []"
  by (simp add: gm_ok_def)

lemma gm_ok_put [intro, simp]: "gm_ok m \<Longrightarrow> gm_ok (gm_put k v m)"
  by (simp add: gm_ok_def distinct_update)

lemma gm_ok_del [intro, simp]: "gm_ok m \<Longrightarrow> gm_ok (gm_del k m)"
  by (simp add: gm_ok_def distinct_delete)

lemma gm_mem_iff: "gm_ok m \<Longrightarrow> (k, v) \<in> set m \<longleftrightarrow> gm_get m k = Some v"
  by (simp add: gm_ok_def)

lemma gm_keys_put: "fst ` set (gm_put k v m) = insert k (fst ` set m)"
  by (simp add: dom_update)

lemma gm_get0_put [gomap_simps, simp]: "gm_get0 z (gm_put k v m) k' = (if k' = k then v else gm_get0 z m k')"
  by (simp add: gm_get0_def)

lemma gm_put_fresh: "\<not> gm_has m k \<Longrightarrow> gm_put k v m = m @ [(k, v)]"
  by (induction m) (auto simp: gm_has_def split: if_splits)

text \<open>A map with an overwritten key keeps its size; a fresh key adds one.\<close>

lemma gm_len_put: "length (gm_put k v m) = (if gm_has m k then length m else Suc (length m))"
  by (induction m) (auto simp: gm_has_def)

lemma gm_del_idem: "\<not> gm_has m k \<Longrightarrow> gm_del k m = m"
  by (induction m) (auto simp: gm_has_def split: if_splits)

lemma gm_len_del: "gm_ok m \<Longrightarrow> length (gm_del k m) = (if gm_has m k then length m - 1 else length m)"
proof (induction m)
  case (Cons p m)
  then have ok: "gm_ok m" and new: "\<not> gm_has m (fst p)"
    by (auto simp: gm_ok_def gm_has_iff)
  show ?case
  proof (cases "fst p = k")
    case True
    with new have "gm_del k m = m" by (auto intro: gm_del_idem)
    with True show ?thesis by (cases p) (auto simp: gm_has_def)
  next
    case False
    with Cons.IH [OF ok] show ?thesis
      by (cases p; cases m) (auto simp: gm_has_def split: if_splits)
  qed
qed simp

section \<open>Fixed-width integers\<close>

text \<open>
  Go's \<open>int\<close> and \<open>int64\<close> are 64-bit two's complement, \<open>uint\<close> and \<open>uint64\<close> 64-bit unsigned;
  the wrap-around is written out wherever the source does arithmetic.
\<close>

definition wrap64 :: "int \<Rightarrow> int" where
  "wrap64 x = (x + 2 ^ 63) mod 2 ^ 64 - 2 ^ 63"

definition wrapu64 :: "nat \<Rightarrow> nat" where
  "wrapu64 n = n mod 2 ^ 64"

lemma wrap64_id: "- (2 ^ 63) \<le> x \<Longrightarrow> x < 2 ^ 63 \<Longrightarrow> wrap64 x = x"
  by (simp add: wrap64_def)

lemma wrap64_range: "- (2 ^ 63) \<le> wrap64 x \<and> wrap64 x < 2 ^ 63"
  by (simp add: wrap64_def algebra_simps)

lemma wrapu64_int [code]: "wrapu64 n = nat (int n mod 2 ^ 64)"
  by (simp add: wrapu64_def nat_mod_distrib)

lemma wrapu64_id: "n < 2 ^ 64 \<Longrightarrow> wrapu64 n = n"
  by (simp add: wrapu64_def)

text \<open>Decimal formatting, as \<open>%v\<close> and \<open>%d\<close> print an integer.\<close>

fun show_nat :: "nat \<Rightarrow> string" where
  "show_nat n = (if n < 10 then [char_of (48 + n)] else show_nat (n div 10) @ [char_of (48 + n mod 10)])"

declare show_nat.simps [simp del]

definition show_int :: "int \<Rightarrow> string" where
  "show_int i = (if i < 0 then CHR ''-'' # show_nat (nat (- i)) else show_nat (nat i))"

text \<open>What is printed can be read back, so distinct numbers print differently.\<close>

definition digits_val :: "string \<Rightarrow> nat" where
  "digits_val cs = fold (\<lambda>c n. 10 * n + (of_char c - 48)) cs 0"

lemma digits_val_show_nat: "digits_val (show_nat n) = n"
proof (induction n rule: show_nat.induct)
  case (1 n)
  have d: "of_char (char_of (48 + k) :: char) - 48 = k" if "k < 10" for k :: nat
    using that by (simp add: of_char_of)
  show ?case
  proof (cases "n < 10")
    case True
    then show ?thesis using d by (subst show_nat.simps) (simp add: digits_val_def)
  next
    case False
    then show ?thesis using 1 d [of "n mod 10"] by (subst show_nat.simps) (simp add: digits_val_def)
  qed
qed

lemma show_nat_inject [simp]: "show_nat m = show_nat n \<longleftrightarrow> m = n"
  by (metis digits_val_show_nat)

lemma show_nat_digits: "c \<in> set (show_nat n) \<Longrightarrow> c \<noteq> CHR ''-''"
proof (induction n rule: show_nat.induct)
  case (1 n)
  have n: "(char_of (48 + k) :: char) \<noteq> CHR ''-''" if "k < 10" for k :: nat
  proof
    assume "char_of (48 + k) = CHR ''-''"
    then have "of_char (char_of (48 + k) :: char) = (45 :: nat)" by simp
    then show False using that by (simp add: of_char_of)
  qed
  show ?case using 1 n [of n] n [of "n mod 10"] by (subst (asm) (2) show_nat.simps) (auto split: if_splits)
qed

lemma show_nat_not_Nil [simp]: "show_nat n \<noteq> []"
  by (subst show_nat.simps) simp

lemma show_int_inject [simp]: "show_int i = show_int j \<longleftrightarrow> i = j"
proof -
  have "show_nat m \<noteq> CHR ''-'' # cs" for m cs using show_nat_digits [of "CHR ''-''" m] by force
  then show ?thesis unfolding show_int_def by (auto split: if_splits; metis)
qed

section \<open>Loops that return early, calls that panic or block\<close>

text \<open>\<open>forM f s xs\<close> runs a loop body over \<open>xs\<close>; \<open>Inl\<close> is a \<open>return\<close> from inside the loop.\<close>

fun forM :: "('s \<Rightarrow> 'a \<Rightarrow> 'e + 's) \<Rightarrow> 's \<Rightarrow> 'a list \<Rightarrow> 'e + 's" where
  "forM f s [] = Inr s"
| "forM f s (x # xs) = (case f s x of Inl e \<Rightarrow> Inl e | Inr s' \<Rightarrow> forM f s' xs)"

lemma forM_append: "forM f s (xs @ ys) = (case forM f s xs of Inl e \<Rightarrow> Inl e | Inr s' \<Rightarrow> forM f s' ys)"
  by (induction xs arbitrary: s) (auto split: sum.splits)

text \<open>
  A loop body that adds keys to a map and may return early: \<open>collects f K P\<close> says that on \<open>x\<close> it
  falls through exactly when \<open>P x\<close>, having added the keys \<open>K x\<close>. Such bodies compose under
  nested loops.
\<close>

definition collects :: "(('k, 'v) gomap \<Rightarrow> 'a \<Rightarrow> 'e + ('k, 'v) gomap) \<Rightarrow> ('a \<Rightarrow> 'k \<Rightarrow> bool) \<Rightarrow> ('a \<Rightarrow> bool) \<Rightarrow> bool" where
  "collects f K P \<longleftrightarrow> (\<forall>s x. (case f s x of Inl _ \<Rightarrow> \<not> P x
     | Inr s' \<Rightarrow> P x \<and> (\<forall>k. gm_has s' k \<longleftrightarrow> gm_has s k \<or> K x k)))"

lemma collectsI:
  assumes "\<And>s x e. f s x = Inl e \<Longrightarrow> \<not> P x" "\<And>s x s'. f s x = Inr s' \<Longrightarrow> P x"
    "\<And>s x s' k. f s x = Inr s' \<Longrightarrow> gm_has s' k \<longleftrightarrow> gm_has s k \<or> K x k"
  shows "collects f K P"
  using assms by (auto simp: collects_def split: sum.splits)

lemma collects_ok: "collects f K P \<Longrightarrow> (\<exists>s'. f s x = Inr s') \<longleftrightarrow> P x"
  unfolding collects_def by (drule spec [of _ s], drule spec [of _ x], cases "f s x") auto

lemma collects_keys: "collects f K P \<Longrightarrow> f s x = Inr s' \<Longrightarrow> gm_has s' k \<longleftrightarrow> gm_has s k \<or> K x k"
  unfolding collects_def by (drule spec [of _ s], drule spec [of _ x]) simp

lemma collects_InrD: "collects f K P \<Longrightarrow> f s x = Inr s' \<Longrightarrow> P x"
  using collects_ok by fastforce

lemma collects_InlD: "collects f K P \<Longrightarrow> f s x = Inl e \<Longrightarrow> \<not> P x"
  using collects_ok [of f K P s x] by auto

lemma collects_forM:
  assumes f: "collects f K P"
  shows "collects (forM f) (\<lambda>xs k. \<exists>x \<in> set xs. K x k) (\<lambda>xs. \<forall>x \<in> set xs. P x)"
proof (rule collectsI)
  show "\<not> (\<forall>x \<in> set xs. P x)" if "forM f s xs = Inl e" for s xs e
    using that by (induction xs arbitrary: s) (auto split: sum.splits dest: collects_InlD [OF f])
  show "\<forall>x \<in> set xs. P x" if "forM f s xs = Inr s'" for s xs s'
    using that by (induction xs arbitrary: s) (auto split: sum.splits dest: collects_InrD [OF f])
  show "gm_has s' k \<longleftrightarrow> gm_has s k \<or> (\<exists>x \<in> set xs. K x k)" if "forM f s xs = Inr s'" for s xs s' k
    using that
  proof (induction xs arbitrary: s)
    case (Cons x xs)
    then obtain t where t: "f s x = Inr t" and r: "forM f t xs = Inr s'" by (auto split: sum.splits)
    show ?case using Cons.IH [OF r] collects_keys [OF f t, of k] by auto
  qed simp
qed

lemma collects_on: "collects f K P \<Longrightarrow> collects (\<lambda>s x. f s (g x)) (\<lambda>x k. K (g x) k) (\<lambda>x. P (g x))"
  by (simp add: collects_def)

lemma collects_cong: "collects f K P \<Longrightarrow> (\<And>x k. K x k = K' x k) \<Longrightarrow> collects f K' P"
  by (subgoal_tac "K = K'") (auto intro!: ext)

lemma collects_two:
  assumes "collects f K P"
  shows "collects (\<lambda>s x. forM f s [g x, h x]) (\<lambda>x k. K (g x) k \<or> K (h x) k) (\<lambda>x. P (g x) \<and> P (h x))"
  using collects_on [OF collects_forM [OF assms], of "\<lambda>x. [g x, h x]"] by (simp del: forM.simps)

text \<open>A loop that only checks: it falls through exactly when every element passes.\<close>

definition check :: "('a \<Rightarrow> 'e option) \<Rightarrow> 'a list \<Rightarrow> 'e option" where
  "check f xs = (case forM (\<lambda>_ x. case f x of None \<Rightarrow> Inr () | Some e \<Rightarrow> Inl e) () xs of
     Inl e \<Rightarrow> Some e | Inr _ \<Rightarrow> None)"

lemma check_Nil [simp]: "check f [] = None"
  by (simp add: check_def)

lemma check_Cons [simp]: "check f (x # xs) = (case f x of None \<Rightarrow> check f xs | Some e \<Rightarrow> Some e)"
  by (simp add: check_def split: option.splits)

lemma check_None_iff: "check f xs = None \<longleftrightarrow> (\<forall>x \<in> set xs. f x = None)"
  by (induction xs) (auto split: option.splits)

lemma check_SomeD: "check f xs = Some e \<Longrightarrow> \<exists>x \<in> set xs. f x = Some e"
  by (induction xs) (auto split: option.splits)

text \<open>The result of a statement that may panic or block its goroutine for ever.\<close>

datatype 'a outcome = Ret 'a | Blocks | Panics

fun andthen :: "'a outcome \<Rightarrow> ('a \<Rightarrow> 'b outcome) \<Rightarrow> 'b outcome" where
  "andthen (Ret x) f = f x"
| "andthen Blocks f = Blocks"
| "andthen Panics f = Panics"

lemma andthen_Ret_iff: "andthen m f = Ret y \<longleftrightarrow> (\<exists>x. m = Ret x \<and> f x = Ret y)"
  by (cases m) auto

lemma andthen_Panics_iff: "andthen m f = Panics \<longleftrightarrow> m = Panics \<or> (\<exists>x. m = Ret x \<and> f x = Panics)"
  by (cases m) auto

text \<open>\<open>safe P m\<close>: \<open>m\<close> does not panic, and what it returns, if it returns, satisfies \<open>P\<close>.\<close>

definition safe :: "('a \<Rightarrow> bool) \<Rightarrow> 'a outcome \<Rightarrow> bool" where
  "safe P m \<longleftrightarrow> (case m of Ret x \<Rightarrow> P x | Blocks \<Rightarrow> True | Panics \<Rightarrow> False)"

lemma safe_simps [simp]: "safe P (Ret x) = P x" "safe P Blocks" "\<not> safe P Panics"
  by (simp_all add: safe_def)

lemma safe_andthen: "safe P m \<Longrightarrow> (\<And>x. P x \<Longrightarrow> safe Q (f x)) \<Longrightarrow> safe Q (andthen m f)"
  by (cases m) auto

lemma safe_mono: "safe P m \<Longrightarrow> (\<And>x. P x \<Longrightarrow> Q x) \<Longrightarrow> safe Q m"
  by (cases m) auto

lemma safe_conj: "safe (\<lambda>x. P x \<and> Q x) m \<longleftrightarrow> safe P m \<and> safe Q m"
  by (cases m) auto

text \<open>\<open>returns P m\<close>: \<open>m\<close> does return, with a value that satisfies \<open>P\<close>.\<close>

definition returns :: "('a \<Rightarrow> bool) \<Rightarrow> 'a outcome \<Rightarrow> bool" where
  "returns P m \<longleftrightarrow> (case m of Ret x \<Rightarrow> P x | _ \<Rightarrow> False)"

definition blocks :: "'a outcome \<Rightarrow> bool" where
  "blocks m \<longleftrightarrow> (case m of Blocks \<Rightarrow> True | _ \<Rightarrow> False)"

lemma returns_iff: "returns P m \<longleftrightarrow> (\<exists>x. m = Ret x \<and> P x)"
  by (cases m) (auto simp: returns_def)

lemma returnsE: "returns P m \<Longrightarrow> (\<And>x. m = Ret x \<Longrightarrow> P x \<Longrightarrow> Q) \<Longrightarrow> Q"
  by (auto simp: returns_iff)

lemma safe_RetD: "safe P m \<Longrightarrow> m = Ret x \<Longrightarrow> P x"
  by simp

section \<open>Lists\<close>

text \<open>The parallel assignment \<open>xs[i], xs[j] = xs[j], xs[i]\<close>.\<close>

definition lswap :: "nat \<Rightarrow> nat \<Rightarrow> 'a list \<Rightarrow> 'a list" where
  "lswap i j xs = xs[i := xs ! j, j := xs ! i]"

lemma length_lswap [simp]: "length (lswap i j xs) = length xs"
  by (simp add: lswap_def)

lemma nth_lswap: "i < length xs \<Longrightarrow> j < length xs \<Longrightarrow> k < length xs \<Longrightarrow>
    lswap i j xs ! k = (if k = j then xs ! i else if k = i then xs ! j else xs ! k)"
  by (auto simp: lswap_def nth_list_update)

lemma mset_lswap [simp]: "i < length xs \<Longrightarrow> j < length xs \<Longrightarrow> mset (lswap i j xs) = mset xs"
  by (simp add: lswap_def mset_swap)

lemma set_lswap [simp]: "i < length xs \<Longrightarrow> j < length xs \<Longrightarrow> set (lswap i j xs) = set xs"
  by (metis mset_lswap set_mset_mset)

lemma distinct_lswap [simp]: "i < length xs \<Longrightarrow> j < length xs \<Longrightarrow> distinct (lswap i j xs) = distinct xs"
  by (simp add: lswap_def distinct_swap)

lemma map_lswap: "i < length xs \<Longrightarrow> j < length xs \<Longrightarrow> map f (lswap i j xs) = lswap i j (map f xs)"
  by (simp add: lswap_def map_update)

section \<open>Orders the runtime chooses\<close>

text \<open>
  Where the Go runtime picks an order (of goroutines, of the entries of a map), the model takes a
  function that arranges a list. \<open>in_order\<close> is any such function, kept to permutations.
\<close>

definition permutes :: "('a list \<Rightarrow> 'a list) \<Rightarrow> bool" where
  "permutes sched \<longleftrightarrow> (\<forall>xs. mset (sched xs) = mset xs)"

definition in_order :: "('a list \<Rightarrow> 'a list) \<Rightarrow> 'a list \<Rightarrow> 'a list" where
  "in_order order xs = (if mset (order xs) = mset xs then order xs else xs)"

lemma permutes_in_order [simp]: "permutes (in_order order)"
  by (simp add: permutes_def in_order_def)

lemma permutes_id [simp]: "permutes (\<lambda>xs. xs)" "permutes rev"
  by (simp_all add: permutes_def)

lemma mset_in_order [simp]: "mset (in_order order xs) = mset xs"
  by (simp add: in_order_def)

lemma set_in_order [simp]: "set (in_order order xs) = set xs"
  by (metis mset_in_order set_mset_mset)

lemma length_in_order [simp]: "length (in_order order xs) = length xs"
  by (metis mset_in_order size_mset)

lemma distinct_in_order [simp]: "distinct (in_order order xs) = distinct xs"
  by (metis mset_in_order mset_eq_imp_distinct_iff)

lemma in_order_permutes: "permutes order \<Longrightarrow> in_order order = order"
  by (simp add: permutes_def in_order_def fun_eq_iff)

end
