(* ===== verification/Fsm_Spec.thy ===== *)
theory Fsm_Spec
  imports Prelude
begin

text \<open>
  The specification side of \<open>pkg/fsm\<close>: the types of \<open>types.go\<close>, the errors of \<open>errors.go\<close>, the
  definition and compilation of a spec and its lookups (\<open>fsm.go\<close>), and flap detection
  (\<open>flap.go\<close>). Log statements are left out.
\<close>

named_theorems fsm_simps \<open>unfolding of the spec lookups\<close>

section \<open>Types\<close>

type_synonym Index = int
type_synonym Signal = int
type_synonym Tick = int
type_synonym Time = int
type_synonym ID = nat

text \<open>
  An \<open>Action\<close> is client code. It sees the instance (its id and its data) and the outside world
  \<open>'w\<close>, which it may change, and returns whether it failed.
\<close>

type_synonym ('d, 'w) Action = "ID \<Rightarrow> 'd option \<Rightarrow> 'w \<Rightarrow> bool \<times> 'w"

record Expiry =
  exp_TTL :: Tick
  exp_Raise :: Signal

record Limit =
  lim_Value :: int
  lim_Raise :: Signal

record ('d, 'w) State =
  st_Index :: Index
  st_Transitions :: "(Signal, Index) gomap"
  st_Actions :: "(Signal, ('d, 'w) Action option) gomap"
  st_Errors :: "(Signal, Index) gomap"
  st_TTL :: Expiry
  st_Visit :: Limit

record Flap =
  fl_States :: "Index \<times> Index"
  fl_Count :: int
  fl_Raise :: Signal

text \<open>The friendly names of a spec; \<open>None\<close> is a nil map.\<close>

record Names =
  nm_states :: "(Index, string) gomap option"
  nm_signals :: "(Signal, string) gomap option"

record ('d, 'w) Spec =
  sp_states :: "(Index, ('d, 'w) State) gomap"
  sp_signals :: "(Signal, Signal) gomap"
  sp_flaps :: "(Index \<times> Index, Flap) gomap"
  sp_names :: Names

definition newSpec :: "('d, 'w) Spec" where
  "newSpec = \<lparr>sp_states = [], sp_signals = [], sp_flaps = [], sp_names = \<lparr>nm_states = None, nm_signals = None\<rparr>\<rparr>"

definition SetStateNames :: "(Index, string) gomap \<Rightarrow> ('d, 'w) Spec \<Rightarrow> ('d, 'w) Spec" where
  "SetStateNames v s = s\<lparr>sp_names := (sp_names s)\<lparr>nm_states := Some v\<rparr>\<rparr>"

definition SetSignalNames :: "(Signal, string) gomap \<Rightarrow> ('d, 'w) Spec \<Rightarrow> ('d, 'w) Spec" where
  "SetSignalNames v s = s\<lparr>sp_names := (sp_names s)\<lparr>nm_signals := Some v\<rparr>\<rparr>"

definition With :: "(Index, string) gomap \<Rightarrow> (Signal, string) gomap \<Rightarrow> ('d, 'w) Spec" where
  "With stateNames signalNames = SetSignalNames signalNames (SetStateNames stateNames newSpec)"

text \<open>The receiver may be a nil \<open>*Spec\<close>, here \<open>None\<close>.\<close>

definition StateName :: "Names option \<Rightarrow> Index \<Rightarrow> string" where
  "StateName s i = (case s of None \<Rightarrow> show_int i | Some nm \<Rightarrow>
     (case nm_states nm of None \<Rightarrow> show_int i | Some m \<Rightarrow>
       (case gm_get m i of Some v \<Rightarrow> v | None \<Rightarrow> show_int i)))"

definition SignalName :: "Names option \<Rightarrow> Signal \<Rightarrow> string" where
  "SignalName s signal = (case s of None \<Rightarrow> show_int signal | Some nm \<Rightarrow>
     (case nm_signals nm of None \<Rightarrow> show_int signal | Some m \<Rightarrow>
       (case gm_get m signal of Some v \<Rightarrow> v | None \<Rightarrow> show_int signal)))"

section \<open>Errors\<close>

text \<open>
  The \<open>spec\<close> pointer inside an error is only used for friendly names; \<open>None\<close> is nil.
  \<open>ErrNoTransitions\<close> wraps a spec, of which only the number of states is read.
\<close>

datatype fsm_error =
    ErrDuplicateState Index
  | ErrUnknownState Index
  | ErrUnknownTransition "Names option" Signal Index
  | ErrUnknownSignal "Names option" Signal Index
  | ErrUnknownFSM ID
  | ErrNilAction Signal
  | ErrNoTransitions nat

text \<open>
  The \<open>Error\<close> methods. \<open>fmt.Sprintf("... %v", e)\<close> on a value whose type implements \<open>error\<close> calls
  the value's own \<open>Error\<close> method; \<open>%d\<close> does not. A call that does not return is \<open>None\<close>.
\<close>

partial_function (option) Error :: "fsm_error \<Rightarrow> string option" where
  "Error e = (case e of
     ErrDuplicateState i \<Rightarrow> Option.bind (Error (ErrDuplicateState i)) (\<lambda>v. Some (''duplicated state index: '' @ v))
   | ErrUnknownState i \<Rightarrow> Option.bind (Error (ErrUnknownState i)) (\<lambda>v. Some (''unknown state: '' @ v))
   | ErrUnknownTransition sp signal state \<Rightarrow>
       Some (''unknown stransition: signal='' @ SignalName sp signal @ '', state='' @ StateName sp state)
   | ErrUnknownSignal sp signal state \<Rightarrow>
       Some (''unknown signal: signal='' @ SignalName sp signal @ '', state='' @ StateName sp state)
   | ErrUnknownFSM i \<Rightarrow> Option.bind (Error (ErrUnknownFSM i)) (\<lambda>v. Some (''unknown instance: '' @ v))
   | ErrNilAction signal \<Rightarrow> Some (''nil action corresponding to signal '' @ show_int signal)
   | ErrNoTransitions n \<Rightarrow> Some (''no transitions defined: count(states)='' @ show_nat n))"

section \<open>Definition and compilation\<close>

text \<open>First pass: every target is a known state; the signals are collected.\<close>

definition compile_row :: "(Index, ('d, 'w) State) gomap \<Rightarrow> (Signal, Signal) gomap \<Rightarrow> (Signal, Index) gomap \<Rightarrow> fsm_error + (Signal, Signal) gomap" where
  "compile_row m = forM (\<lambda>signals (signal, next).
     if \<not> gm_has m next then Inl (ErrUnknownState next) else Inr (gm_put signal signal signals))"

definition compile_targets :: "(Index, ('d, 'w) State) gomap \<Rightarrow> fsm_error + (Signal, Signal) gomap" where
  "compile_targets m =
     forM (\<lambda>signals (_, st). forM (compile_row m) signals [st_Transitions st, st_Errors st]) [] m"

text \<open>Second pass: actions refer to transitions and are not nil.\<close>

definition compile_actions :: "Names \<Rightarrow> (Signal, Signal) gomap \<Rightarrow> (Index, ('d, 'w) State) gomap \<Rightarrow> fsm_error option" where
  "compile_actions s signals m = check (\<lambda>(_, st).
     check (\<lambda>(signal, action).
       if \<not> gm_has (st_Transitions st) signal then Some (ErrUnknownTransition (Some s) signal (st_Index st))
       else if action = None then Some (ErrNilAction signal)
       else if \<not> gm_has signals signal then Some (ErrUnknownSignal None signal (st_Index st))
       else None) (st_Actions st)) m"

text \<open>Third pass: what an expiry or a visit limit raises is a transition of its state.\<close>

definition compile_limit :: "Names \<Rightarrow> (Signal, Signal) gomap \<Rightarrow> Index \<times> ('d, 'w) State \<Rightarrow> fsm_error + (Signal, Signal) gomap" where
  "compile_limit s signals = (\<lambda>(_, st).
     case (if 0 < exp_TTL (st_TTL st) then
             if \<not> gm_has (st_Transitions st) (exp_Raise (st_TTL st))
             then Inl (ErrUnknownSignal (Some s) (exp_Raise (st_TTL st)) (st_Index st))
             else Inr (gm_put (exp_Raise (st_TTL st)) (exp_Raise (st_TTL st)) signals)
           else Inr signals) of
       Inl e \<Rightarrow> Inl e
     | Inr signals \<Rightarrow>
         if 0 < lim_Value (st_Visit st) then
           if \<not> gm_has (st_Transitions st) (lim_Raise (st_Visit st))
           then Inl (ErrUnknownSignal (Some s) (lim_Raise (st_Visit st)) (st_Index st))
           else Inr (gm_put (lim_Raise (st_Visit st)) (lim_Raise (st_Visit st)) signals)
         else Inr signals)"

definition compile_limits :: "Names \<Rightarrow> (Signal, Signal) gomap \<Rightarrow> (Index, ('d, 'w) State) gomap \<Rightarrow> fsm_error + (Signal, Signal) gomap" where
  "compile_limits s = forM (compile_limit s)"

definition compile :: "Names \<Rightarrow> (Index, ('d, 'w) State) gomap \<Rightarrow> fsm_error + (Signal, Signal) gomap" where
  "compile s m = (case compile_targets m of Inl e \<Rightarrow> Inl e | Inr signals \<Rightarrow>
     (case compile_actions s signals m of Some e \<Rightarrow> Inl e | None \<Rightarrow> compile_limits s signals m))"

text \<open>The loop of \<open>Define\<close> that builds the state map.\<close>

definition collect_states :: "('d, 'w) State \<Rightarrow> ('d, 'w) State list \<Rightarrow> fsm_error + (Index, ('d, 'w) State) gomap" where
  "collect_states state rest = forM (\<lambda>states st.
     if gm_has states (st_Index st) then Inl (ErrDuplicateState (st_Index st))
     else Inr (gm_put (st_Index st) st states)) [(st_Index state, state)] rest"

definition Spec_Define :: "('d, 'w) Spec \<Rightarrow> ('d, 'w) State \<Rightarrow> ('d, 'w) State list \<Rightarrow> ('d, 'w) Spec \<times> fsm_error option" where
  "Spec_Define s state rest = (case collect_states state rest of
     Inl e \<Rightarrow> (s, Some e)
   | Inr states \<Rightarrow> (case compile (sp_names s) states of
       Inl e \<Rightarrow> (s, Some e)
     | Inr signals \<Rightarrow> (s\<lparr>sp_states := states, sp_signals := signals\<rparr>, None)))"

definition Define :: "('d, 'w) State \<Rightarrow> ('d, 'w) State list \<Rightarrow> ('d, 'w) Spec \<times> fsm_error option" where
  "Define s rest = Spec_Define newSpec s rest"

section \<open>Lookups\<close>

text \<open>\<open>Inl\<close> of the missing index stands for the \<open>fmt.Errorf("no such state ...")\<close>.\<close>

definition SetAction :: "('d, 'w) Spec \<Rightarrow> Index \<Rightarrow> Signal \<Rightarrow> ('d, 'w) Action option \<Rightarrow> Index + ('d, 'w) Spec" where
  "SetAction s state signal action = (case gm_get (sp_states s) state of
     None \<Rightarrow> Inl state
   | Some st \<Rightarrow> Inr (s\<lparr>sp_states := gm_put state (st\<lparr>st_Actions := gm_put signal action (st_Actions st)\<rparr>) (sp_states s)\<rparr>))"

lemmas compile_defs = Define_def Spec_Define_def collect_states_def compile_def compile_targets_def
  compile_row_def compile_actions_def compile_limits_def compile_limit_def newSpec_def

definition expiry :: "('d, 'w) Spec \<Rightarrow> Index \<Rightarrow> fsm_error + Expiry option" where
  "expiry s current = (case gm_get (sp_states s) current of
     None \<Rightarrow> Inl (ErrUnknownState current)
   | Some state \<Rightarrow> Inr (if 0 < exp_TTL (st_TTL state) then Some (st_TTL state) else None))"

definition visit :: "('d, 'w) Spec \<Rightarrow> Index \<Rightarrow> fsm_error + Limit option" where
  "visit s next = (case gm_get (sp_states s) next of
     None \<Rightarrow> Inl (ErrUnknownState next)
   | Some state \<Rightarrow> Inr (if 0 < lim_Value (st_Visit state) then Some (st_Visit state) else None))"

definition Spec_error :: "('d, 'w) Spec \<Rightarrow> Index \<Rightarrow> Signal \<Rightarrow> fsm_error + Index" where
  "Spec_error s current signal = (case gm_get (sp_states s) current of
     None \<Rightarrow> Inl (ErrUnknownState current)
   | Some state \<Rightarrow>
       if \<not> gm_has (sp_signals s) signal then Inl (ErrUnknownSignal None signal current)
       else (case gm_get (st_Errors state) signal of
         None \<Rightarrow> Inl (ErrUnknownTransition None signal current)
       | Some v \<Rightarrow> Inr v))"

text \<open>An absent entry of \<open>Actions\<close> and a nil one both leave the returned action nil.\<close>

definition transition :: "('d, 'w) Spec \<Rightarrow> Index \<Rightarrow> Signal \<Rightarrow> fsm_error + Index \<times> ('d, 'w) Action option" where
  "transition s current signal = (case gm_get (sp_states s) current of
     None \<Rightarrow> Inl (ErrUnknownState current)
   | Some state \<Rightarrow>
       if st_Transitions state = [] then Inl (ErrNoTransitions (length (sp_states s)))
       else if \<not> gm_has (sp_signals s) signal then Inl (ErrUnknownSignal None signal 0)
       else (case gm_get (st_Transitions state) signal of
         None \<Rightarrow> Inl (ErrUnknownTransition None signal (st_Index state))
       | Some n \<Rightarrow> Inr (n, gm_get0 None (st_Actions state) signal)))"

lemmas [fsm_simps] = expiry_def visit_def Spec_error_def transition_def

section \<open>Flap detection\<close>

definition flap_key :: "Index \<Rightarrow> Index \<Rightarrow> Index \<times> Index" where
  "flap_key a b = (if b < a then (b, a) else (a, b))"

definition flap :: "('d, 'w) Spec \<Rightarrow> Index \<Rightarrow> Index \<Rightarrow> Flap option" where
  "flap s a b = gm_get (sp_flaps s) (flap_key a b)"

definition flap_add :: "(Index, ('d, 'w) State) gomap \<Rightarrow> (Index \<times> Index, Flap) gomap \<Rightarrow> Flap \<Rightarrow> fsm_error + (Index \<times> Index, Flap) gomap" where
  "flap_add states flaps c = (case check (\<lambda>state. if gm_has states state then None else Some (ErrUnknownState state))
        [fst (fl_States c), snd (fl_States c)] of
     Some e \<Rightarrow> Inl e
   | None \<Rightarrow> Inr (gm_put (flap_key (fst (fl_States c)) (snd (fl_States c))) c flaps))"

definition CheckFlapping :: "('d, 'w) Spec \<Rightarrow> Flap list \<Rightarrow> fsm_error + ('d, 'w) Spec" where
  "CheckFlapping s checks = (case forM (flap_add (sp_states s)) [] checks of
     Inl e \<Rightarrow> Inl e | Inr flaps \<Rightarrow> Inr (s\<lparr>sp_flaps := flaps\<rparr>))"

definition CheckFlappingMust :: "('d, 'w) Spec \<Rightarrow> Flap list \<Rightarrow> ('d, 'w) Spec outcome" where
  "CheckFlappingMust s checks = (case CheckFlapping s checks of Inl _ \<Rightarrow> Panics | Inr s' \<Rightarrow> Ret s')"

text \<open>The history of one instance, a list of states.\<close>

definition newFlaps :: "Index list" where
  "newFlaps = []"

definition flaps_equals :: "Index list \<Rightarrow> Index list \<Rightarrow> bool" where
  "flaps_equals i j \<longleftrightarrow> (if length j \<noteq> length i then False else list_all (\<lambda>k. i ! k = j ! k) [0..<length j])"

definition flaps_record :: "Index list \<Rightarrow> Index \<Rightarrow> Index \<Rightarrow> Index list" where
  "flaps_record history a b =
     (if length history = 0 then [a, b]
      else if flaps_equals (drop (length history - 2) history) [b, a] then history @ [b]
      else [])"

fun flaps_count_loop :: "Index list \<Rightarrow> Index list \<Rightarrow> nat \<Rightarrow> int \<Rightarrow> int" where
  "flaps_count_loop history search i n =
     (if 2 < i then flaps_count_loop history search (i - 2)
        (if flaps_equals (take 3 (drop (i - 3) history)) search then n + 1 else n)
      else n)"

declare flaps_count_loop.simps [simp del]

definition flaps_count :: "Index list \<Rightarrow> Index \<Rightarrow> Index \<Rightarrow> int" where
  "flaps_count history a b =
     (if length history < 2 then 0
      else flaps_count_loop history
        (if history ! (length history - 1) = b then [b, a, b] else [a, b, a]) (length history) 0)"

section \<open>What compilation accepts\<close>

text \<open>The declarative reading of the three passes of \<open>compile\<close>, state by state.\<close>

definition targets_ok :: "(Index, ('d, 'w) State) gomap \<Rightarrow> ('d, 'w) State \<Rightarrow> bool" where
  "targets_ok m st \<longleftrightarrow> (\<forall>t \<in> set (st_Transitions st). gm_has m (snd t)) \<and> (\<forall>t \<in> set (st_Errors st). gm_has m (snd t))"

definition actions_ok :: "('d, 'w) State \<Rightarrow> bool" where
  "actions_ok st \<longleftrightarrow> (\<forall>a \<in> set (st_Actions st). gm_has (st_Transitions st) (fst a) \<and> snd a \<noteq> None)"

definition limits_ok :: "('d, 'w) State \<Rightarrow> bool" where
  "limits_ok st \<longleftrightarrow>
     (0 < exp_TTL (st_TTL st) \<longrightarrow> gm_has (st_Transitions st) (exp_Raise (st_TTL st))) \<and>
     (0 < lim_Value (st_Visit st) \<longrightarrow> gm_has (st_Transitions st) (lim_Raise (st_Visit st)))"

definition spec_wf :: "(Index, ('d, 'w) State) gomap \<Rightarrow> bool" where
  "spec_wf m \<longleftrightarrow> (\<forall>p \<in> set m. targets_ok m (snd p) \<and> actions_ok (snd p) \<and> limits_ok (snd p))"

definition spec_signal :: "(Index, ('d, 'w) State) gomap \<Rightarrow> Signal \<Rightarrow> bool" where
  "spec_signal m g \<longleftrightarrow> (\<exists>p \<in> set m. gm_has (st_Transitions (snd p)) g \<or> gm_has (st_Errors (snd p)) g)"

lemma collects_row: "collects (compile_row m) gm_has (\<lambda>t. \<forall>x \<in> set t. gm_has m (snd x))"
proof -
  have "collects (\<lambda>signals (signal, next). if \<not> gm_has m next then Inl (ErrUnknownState next)
      else Inr (gm_put signal signal signals)) (\<lambda>p k. k = fst p) (\<lambda>p. gm_has m (snd p))"
    by (rule collectsI) (auto split: if_splits)
  from collects_forM [OF this] show ?thesis
    unfolding compile_row_def by (rule collects_cong) (auto simp: gm_has_iff image_iff)
qed

lemma collects_targets:
  "collects (\<lambda>signals (_ :: Index, st). forM (compile_row m) signals [st_Transitions st, st_Errors st])
     (\<lambda>p k. gm_has (st_Transitions (snd p)) k \<or> gm_has (st_Errors (snd p)) k) (\<lambda>p. targets_ok m (snd p))"
  using collects_two [OF collects_row, of m "\<lambda>p. st_Transitions (snd p)" "\<lambda>p. st_Errors (snd p)"]
  by (simp add: case_prod_unfold targets_ok_def)

lemma collects_limits:
  "collects (compile_limit s)
   (\<lambda>p k. 0 < exp_TTL (st_TTL (snd p)) \<and> k = exp_Raise (st_TTL (snd p)) \<or>
          0 < lim_Value (st_Visit (snd p)) \<and> k = lim_Raise (st_Visit (snd p)))
   (\<lambda>p. limits_ok (snd p))"
  by (rule collectsI) (auto simp: limits_ok_def compile_limit_def split: if_splits)

lemma compile_actions_None_iff:
  assumes "\<And>k. spec_signal m k \<Longrightarrow> gm_has signals k"
  shows "compile_actions s signals m = None \<longleftrightarrow> (\<forall>p \<in> set m. actions_ok (snd p))"
proof -
  have "gm_has signals (fst a)" if "p \<in> set m" "gm_has (st_Transitions (snd p)) (fst a)" for p a
    using that assms by (auto simp: spec_signal_def)
  then show ?thesis
    unfolding compile_actions_def check_None_iff case_prod_unfold actions_ok_def
    by (intro ball_cong refl) (auto split: if_splits)
qed

lemma compile_targets_ok: "(\<exists>signals. compile_targets m = Inr signals) \<longleftrightarrow> (\<forall>p \<in> set m. targets_ok m (snd p))"
  unfolding compile_targets_def by (rule collects_ok [OF collects_forM [OF collects_targets]])

lemma compile_targets_signals: "compile_targets m = Inr signals \<Longrightarrow> gm_has signals k \<longleftrightarrow> spec_signal m k"
  unfolding compile_targets_def spec_signal_def
  by (drule collects_keys [OF collects_forM [OF collects_targets], where k = k]) simp

lemma compile_limits_ok: "(\<exists>signals'. compile_limits s signals m = Inr signals') \<longleftrightarrow> (\<forall>p \<in> set m. limits_ok (snd p))"
  unfolding compile_limits_def by (rule collects_ok [OF collects_forM [OF collects_limits]])

lemma compile_ok_iff: "(\<exists>signals. compile s m = Inr signals) \<longleftrightarrow> spec_wf m"
proof (cases "compile_targets m")
  case (Inl e)
  then have "\<not> spec_wf m" using compile_targets_ok [of m] by (auto simp: spec_wf_def)
  with Inl show ?thesis by (simp add: compile_def)
next
  case (Inr signals)
  then have act: "compile_actions s signals m = None \<longleftrightarrow> (\<forall>p \<in> set m. actions_ok (snd p))"
    by (intro compile_actions_None_iff) (simp add: compile_targets_signals)
  have tar: "\<forall>p \<in> set m. targets_ok m (snd p)" using Inr compile_targets_ok [of m] by blast
  have "compile s m = (if \<forall>p \<in> set m. actions_ok (snd p) then compile_limits s signals m
      else Inl (the (compile_actions s signals m)))"
    using Inr act by (auto simp: compile_def split: option.splits)
  then show ?thesis using tar compile_limits_ok [of s signals m] by (auto simp: spec_wf_def)
qed

lemma compile_signals:
  assumes "compile s m = Inr signals"
  shows "gm_has signals k \<longleftrightarrow> spec_signal m k"
proof -
  from assms obtain sig where t: "compile_targets m = Inr sig" and l: "compile_limits s sig m = Inr signals"
    by (auto simp: compile_def split: sum.splits option.splits)
  have "\<forall>p \<in> set m. limits_ok (snd p)" using l compile_limits_ok by blast
  moreover have "gm_has signals k \<longleftrightarrow> gm_has sig k \<or> (\<exists>p \<in> set m.
      0 < exp_TTL (st_TTL (snd p)) \<and> k = exp_Raise (st_TTL (snd p)) \<or>
      0 < lim_Value (st_Visit (snd p)) \<and> k = lim_Raise (st_Visit (snd p)))"
    using l unfolding compile_limits_def by (rule collects_keys [OF collects_forM [OF collects_limits]])
  ultimately show ?thesis using compile_targets_signals [OF t, of k]
    unfolding spec_signal_def limits_ok_def by blast
qed

section \<open>A compiled spec\<close>

definition spec_ok :: "('d, 'w) Spec \<Rightarrow> bool" where
  "spec_ok s \<longleftrightarrow> gm_ok (sp_states s) \<and> spec_wf (sp_states s) \<and> (\<forall>k. gm_has (sp_signals s) k \<longleftrightarrow> spec_signal (sp_states s) k)"

definition by_index :: "('d, 'w) State list \<Rightarrow> (Index, ('d, 'w) State) gomap" where
  "by_index sts = map (\<lambda>st. (st_Index st, st)) sts"

lemma gm_has_by_index: "gm_has (by_index sts) i \<longleftrightarrow> i \<in> st_Index ` set sts"
  by (auto simp: gm_has_iff by_index_def image_image)

lemma collect_states_loop:
  "distinct (map st_Index sts) \<Longrightarrow>
   case forM (\<lambda>states st. if gm_has states (st_Index st) then Inl (ErrDuplicateState (st_Index st))
     else Inr (gm_put (st_Index st) st states)) (by_index sts) rest of
     Inl e \<Rightarrow> \<not> distinct (map st_Index (sts @ rest)) 
   | Inr m \<Rightarrow> distinct (map st_Index (sts @ rest)) \<and> m = by_index (sts @ rest)"
proof (induction rest arbitrary: sts)
  case (Cons st rest)
  show ?case
  proof (cases "st_Index st \<in> st_Index ` set sts")
    case True
    then show ?thesis by (auto simp: gm_has_by_index)
  next
    case False
    then have "gm_put (st_Index st) st (by_index sts) = by_index (sts @ [st])"
      by (subst gm_put_fresh) (simp_all add: gm_has_by_index, simp add: by_index_def)
    moreover have "distinct (map st_Index (sts @ [st]))" using False Cons.prems by auto
    ultimately show ?thesis using Cons.IH [of "sts @ [st]"] False
      by (simp add: gm_has_by_index split: sum.splits)
  qed
qed simp

lemma collect_states_ok:
  "collect_states state rest = Inr m \<longleftrightarrow>
     distinct (map st_Index (state # rest)) \<and> m = by_index (state # rest)"
proof -
  have "[(st_Index state, state)] = by_index [state]" by (simp add: by_index_def)
  with collect_states_loop [of "[state]" rest] show ?thesis
    unfolding collect_states_def by (auto split: sum.splits)
qed

lemma gm_ok_by_index: "gm_ok (by_index sts) \<longleftrightarrow> distinct (map st_Index sts)"
  by (simp add: gm_ok_def by_index_def comp_def)

text \<open>
  (C4) \<open>Define\<close> accepts a list of states exactly when their indices differ and, in every state, the
  targets of transitions and error transitions exist, the actions belong to transitions and are not
  nil, and the signals raised by time and visit limits have a transition.
\<close>

theorem Define_ok_iff:
  "snd (Spec_Define s state rest) = None \<longleftrightarrow>
     distinct (map st_Index (state # rest)) \<and> spec_wf (by_index (state # rest))"
proof (cases "collect_states state rest")
  case (Inl e)
  then show ?thesis using collect_states_ok [of state rest] by (auto simp: Spec_Define_def)
next
  case (Inr m)
  then have m: "distinct (map st_Index (state # rest))" "m = by_index (state # rest)"
    by (simp_all add: collect_states_ok)
  have "snd (Spec_Define s state rest) = None \<longleftrightarrow> (\<exists>signals. compile (sp_names s) m = Inr signals)"
    using Inr by (auto simp: Spec_Define_def split: sum.splits)
  with m show ?thesis by (simp add: compile_ok_iff)
qed

lemma Define_spec_ok:
  assumes "Spec_Define s state rest = (s', None)"
  shows "spec_ok s' \<and> sp_states s' = by_index (state # rest)"
proof -
  from assms obtain m signals where m: "collect_states state rest = Inr m"
    and c: "compile (sp_names s) m = Inr signals" and s': "s' = s\<lparr>sp_states := m, sp_signals := signals\<rparr>"
    by (auto simp: Spec_Define_def split: sum.splits)
  have "spec_wf m" using c compile_ok_iff by blast
  moreover have "gm_has signals k \<longleftrightarrow> spec_signal m k" for k using c by (rule compile_signals)
  moreover have "gm_ok m" "m = by_index (state # rest)" using m by (auto simp: collect_states_ok gm_ok_by_index)
  ultimately show ?thesis by (simp add: s' spec_ok_def)
qed

lemma spec_ok_state:
  assumes "spec_ok s" "gm_get (sp_states s) i = Some st"
  shows "targets_ok (sp_states s) st" "actions_ok st" "limits_ok st"
    "gm_has (st_Transitions st) k \<Longrightarrow> gm_has (sp_signals s) k"
proof -
  have "(i, st) \<in> set (sp_states s)" using assms(2) by (rule map_of_SomeD)
  with assms(1) show "targets_ok (sp_states s) st" "actions_ok st" "limits_ok st"
    "gm_has (st_Transitions st) k \<Longrightarrow> gm_has (sp_signals s) k"
    by (force simp: spec_ok_def spec_wf_def spec_signal_def)+
qed

text \<open>
  Every answer of \<open>transition\<close> on a compiled spec: the target and the action of the transition
  if there is one, and otherwise the error that says what is missing.
\<close>

theorem transition_spec:
  assumes "spec_ok s"
  shows "transition s current signal = (case gm_get (sp_states s) current of
     None \<Rightarrow> Inl (ErrUnknownState current)
   | Some st \<Rightarrow> (case gm_get (st_Transitions st) signal of
       Some nxt \<Rightarrow> Inr (nxt, gm_get0 None (st_Actions st) signal)
     | None \<Rightarrow> Inl (if st_Transitions st = [] then ErrNoTransitions (length (sp_states s))
         else if spec_signal (sp_states s) signal then ErrUnknownTransition None signal (st_Index st)
         else ErrUnknownSignal None signal 0)))"
proof (cases "gm_get (sp_states s) current")
  case (Some st)
  have "gm_has (sp_signals s) signal \<longleftrightarrow> spec_signal (sp_states s) signal" using assms by (simp add: spec_ok_def)
  moreover have "gm_get (st_Transitions st) signal = Some nxt \<Longrightarrow> gm_has (sp_signals s) signal" for nxt
    using spec_ok_state(4) [OF assms Some, of signal] by (simp add: gm_has_def)
  moreover have "gm_get (st_Transitions st) signal = Some nxt \<Longrightarrow> st_Transitions st \<noteq> []" for nxt by auto
  ultimately show ?thesis using Some by (auto simp: transition_def split: option.splits)
qed (simp add: transition_def)

theorem transition_spec_witness:
  "\<exists>s. Define \<lparr>st_Index = 3, st_Transitions = [(7, 3)], st_Actions = [], st_Errors = [], st_TTL = \<lparr>exp_TTL = 0, exp_Raise = 0\<rparr>, st_Visit = \<lparr>lim_Value = 0, lim_Raise = 0\<rparr>\<rparr> [] = (s :: (unit, unit) Spec, None)
     \<and> transition s 3 7 = Inr (3, None) \<and> transition s 3 8 = Inl (ErrUnknownSignal None 8 0)"
proof -
  let ?st = "\<lparr>st_Index = 3, st_Transitions = [(7, 3)], st_Actions = [], st_Errors = [], st_TTL = \<lparr>exp_TTL = 0, exp_Raise = 0\<rparr>, st_Visit = \<lparr>lim_Value = 0, lim_Raise = 0\<rparr>\<rparr> :: (unit, unit) State"
  let ?s = "newSpec\<lparr>sp_states := [(3, ?st)], sp_signals := [(7, 7)]\<rparr> :: (unit, unit) Spec"
  have d: "Define ?st [] = (?s, None)" by (simp add: compile_defs gm_has_def)
  have ok: "spec_ok ?s" using Define_spec_ok [OF d [unfolded Define_def]] by blast
  show ?thesis using d transition_spec [OF ok, of 3 7] transition_spec [OF ok, of 3 8]
    by (intro exI [of _ ?s]) (simp add: gm_get0_def spec_signal_def gm_has_def)
qed

lemma targets_known: "targets_ok m st \<Longrightarrow> gm_get (st_Transitions st) signal = Some nxt \<Longrightarrow> gm_has m nxt"
  "targets_ok m st \<Longrightarrow> gm_get (st_Errors st) signal = Some nxt \<Longrightarrow> gm_has m nxt"
  by (force simp: targets_ok_def dest: map_of_SomeD)+

lemma transition_target_known:
  assumes "spec_ok s" "transition s current signal = Inr (nxt, action)"
  shows "gm_has (sp_states s) nxt"
proof -
  obtain st where st: "gm_get (sp_states s) current = Some st" and t: "gm_get (st_Transitions st) signal = Some nxt"
    using assms(2) by (auto simp: transition_def split: option.splits if_splits)
  show ?thesis using spec_ok_state(1) [OF assms(1) st] t by (rule targets_known)
qed

lemma Spec_error_target_known:
  assumes "spec_ok s" "Spec_error s current signal = Inr nxt"
  shows "gm_has (sp_states s) nxt"
proof -
  obtain st where st: "gm_get (sp_states s) current = Some st" and t: "gm_get (st_Errors st) signal = Some nxt"
    using assms(2) by (auto simp: Spec_error_def split: option.splits if_splits)
  show ?thesis using spec_ok_state(1) [OF assms(1) st] t by (rule targets_known)
qed

section \<open>Error messages\<close>

lemma bind_prefix_None:
  assumes "x = Option.bind x (\<lambda>v. Some (p @ v))" "p \<noteq> []"
  shows "x = None"
  using assms by (cases x) auto

lemma Error_unknown_does_not_return:
  "Error (ErrUnknownFSM i) = None" "Error (ErrUnknownState st) = None" "Error (ErrDuplicateState st) = None"
proof -
  show "Error (ErrUnknownFSM i) = None"
    by (rule bind_prefix_None [of _ "''unknown instance: ''"]) (subst (1) Error.simps, simp_all only: fsm_error.case list.distinct simp_thms)
  show "Error (ErrUnknownState st) = None"
    by (rule bind_prefix_None [of _ "''unknown state: ''"]) (subst (1) Error.simps, simp_all only: fsm_error.case list.distinct simp_thms)
  show "Error (ErrDuplicateState st) = None"
    by (rule bind_prefix_None [of _ "''duplicated state index: ''"]) (subst (1) Error.simps, simp_all only: fsm_error.case list.distinct simp_thms)
qed

lemma Error_message:
  "Error (ErrUnknownTransition sp signal st) =
     Some (''unknown stransition: signal='' @ SignalName sp signal @ '', state='' @ StateName sp st)"
  "Error (ErrUnknownSignal sp signal st) =
     Some (''unknown signal: signal='' @ SignalName sp signal @ '', state='' @ StateName sp st)"
  "Error (ErrNilAction signal) = Some (''nil action corresponding to signal '' @ show_int signal)"
  "Error (ErrNoTransitions n) = Some (''no transitions defined: count(states)='' @ show_nat n)"
  by (subst Error.simps, simp)+

text \<open>
  (C10) Exactly three of the error types have an \<open>Error\<close> method that does not return: it formats the
  value with \<open>%v\<close>, which calls the method again.
\<close>

theorem Error_returns_iff:
  "(\<exists>msg. Error e = Some msg) \<longleftrightarrow> \<not> (\<exists>i. e = ErrUnknownFSM i) \<and> \<not> (\<exists>i. e = ErrUnknownState i) \<and> \<not> (\<exists>i. e = ErrDuplicateState i)"
  by (cases e) (simp_all add: Error_unknown_does_not_return Error_message)

section \<open>Flaps\<close>

fun alternate :: "'a \<Rightarrow> 'a \<Rightarrow> nat \<Rightarrow> 'a list" where
  "alternate a b 0 = []"
| "alternate a b (Suc n) = a # alternate b a n"

fun oscillate :: "'a \<Rightarrow> 'a \<Rightarrow> nat \<Rightarrow> ('a \<times> 'a) list" where
  "oscillate a b 0 = []"
| "oscillate a b (Suc n) = (a, b) # oscillate b a n"

lemma length_alternate [simp]: "length (alternate a b n) = n"
  by (induction n arbitrary: a b) auto

lemma nth_alternate: "i < n \<Longrightarrow> alternate a b n ! i = (if even i then a else b)"
  by (induction n arbitrary: a b i) (auto simp: nth_Cons split: nat.splits)

lemma oscillate_snoc: "oscillate a b (Suc n) = oscillate a b n @ [if even n then (a, b) else (b, a)]"
  by (induction n arbitrary: a b) auto

lemma flaps_equals_eq: "flaps_equals i j \<longleftrightarrow> i = j"
  by (auto simp: flaps_equals_def list_all_iff intro: nth_equalityI)

definition flaps_run :: "(Index \<times> Index) list \<Rightarrow> Index list" where
  "flaps_run ts = fold (\<lambda>(a, b) h. flaps_record h a b) ts newFlaps"

lemma drop_alternate: "drop n (alternate a b (k + n)) = (if even n then alternate a b k else alternate b a k)"
  by (induction n arbitrary: a b) auto

lemma alternate_snoc: "alternate a b (Suc n) = alternate a b n @ [if even n then a else b]"
  by (induction n arbitrary: a b) auto

lemma flaps_run_snoc: "flaps_run (ts @ [(x, y)]) = flaps_record (flaps_run ts) x y"
  by (simp add: flaps_run_def)

lemma flaps_record_alternate:
  "flaps_record (alternate a b (Suc (Suc n))) (if even n then b else a) (if even n then a else b) =
     alternate a b (Suc (Suc (Suc n)))"
proof -
  have "drop n (alternate a b (Suc (Suc n))) = (if even n then [a, b] else [b, a])"
    using drop_alternate [of n a b 2] by (simp add: numeral_2_eq_2)
  then show ?thesis
    using alternate_snoc [of a b "Suc (Suc n)"]
    by (auto simp: flaps_record_def flaps_equals_eq simp del: alternate.simps)
qed

lemma flaps_run_oscillate: "flaps_run (oscillate a b (Suc n)) = alternate a b (Suc (Suc n))"
proof (induction n)
  case 0
  then show ?case by (simp add: flaps_run_def flaps_record_def newFlaps_def)
next
  case (Suc n)
  have "oscillate a b (Suc (Suc n)) = oscillate a b (Suc n) @ [(if even n then b else a, if even n then a else b)]"
    by (subst oscillate_snoc) simp
  then show ?case using Suc flaps_record_alternate [of a b n] by (simp only: flaps_run_snoc)
qed

lemma window_alternate:
  assumes "i + 3 \<le> n"
  shows "take 3 (drop i (alternate a b n)) = (if even i then [a, b, a] else [b, a, b])"
proof -
  from assms obtain k where n: "n = (k + 3) + i" by (metis add.assoc add.commute le_iff_add)
  show ?thesis unfolding n drop_alternate by (simp add: numeral_3_eq_3)
qed

lemma count_loop_alternate:
  assumes "search = (if even n then [b, a, b] else [a, b, a])" "i \<le> n" "even (n - i)"
  shows "flaps_count_loop (alternate a b n) search i c = c + int ((i - 1) div 2)"
  using assms(2,3)
proof (induction i arbitrary: c rule: less_induct)
  case (less i)
  show ?case
  proof (cases "2 < i")
    case True
    have w: "take 3 (drop (i - 3) (alternate a b n)) = search"
      using True less.prems assms(1) by (subst window_alternate) auto
    have "even (n - (i - 2))" "i - 2 < i" "i - 2 \<le> n" using less.prems True by auto
    from less.IH [OF this(2,3,1)] w True show ?thesis
      by (auto simp: flaps_count_loop.simps [of _ _ i] flaps_equals_eq)
  next
    case False
    then show ?thesis by (auto simp: flaps_count_loop.simps [of _ _ i])
  qed
qed

text \<open>
  An instance that goes back and forth between two states \<open>n\<close> times has flapped \<open>n div 2\<close>
  times: the count of the history the set records.
\<close>

theorem flaps_count_oscillate:
  assumes "a \<noteq> b"
  shows "flaps_count (flaps_run (oscillate a b n)) a b = int (n div 2)"
proof (cases n)
  case 0
  then show ?thesis by (simp add: flaps_count_def flaps_run_def newFlaps_def)
next
  case (Suc k)
  let ?h = "alternate a b (Suc (Suc k))"
  have "flaps_run (oscillate a b n) = ?h" using Suc by (simp only: flaps_run_oscillate)
  moreover have "?h ! (length ?h - 1) = (if even k then b else a)" by (subst nth_alternate) auto
  moreover have "flaps_count_loop ?h (if even k then [b, a, b] else [a, b, a]) (Suc (Suc k)) 0 = int (Suc k div 2)"
    using count_loop_alternate [of _ "Suc (Suc k)" b a "Suc (Suc k)" 0] by simp
  ultimately show ?thesis using assms Suc by (auto simp: flaps_count_def simp del: alternate.simps)
qed

theorem flaps_count_oscillate_witness: "flaps_count (flaps_run [(1, 2), (2, 1), (1, 2), (2, 1)]) 1 2 = 2"
proof -
  have "oscillate (1 :: int) 2 4 = [(1, 2), (2, 1), (1, 2), (2, 1)]" by (simp add: numeral_eq_Suc)
  with flaps_count_oscillate [of 1 2 4] show ?thesis by simp
qed

lemma CheckFlapping_loop:
  "forM (flap_add m) fl checks = Inr fl' \<Longrightarrow>
   gm_get fl' k = (case find (\<lambda>c. flap_key (fst (fl_States c)) (snd (fl_States c)) = k) (rev checks) of None \<Rightarrow> gm_get fl k | Some c \<Rightarrow> Some c)"
proof (induction checks arbitrary: fl)
  case (Cons c cs)
  have f: "find P (xs @ [x]) = (case find P xs of None \<Rightarrow> if P x then Some x else None | Some y \<Rightarrow> Some y)" for P and xs :: "Flap list" and x
    by (induction xs) auto
  from Cons.prems have "forM (flap_add m) (gm_put (flap_key (fst (fl_States c)) (snd (fl_States c))) c fl) cs = Inr fl'"
    by (auto simp: flap_add_def [of m fl c] split: option.splits if_splits)
  from Cons.IH [OF this] show ?case by (auto simp: f split: option.splits)
qed simp

text \<open>
  After \<open>CheckFlapping\<close> the limit looked up for a move between two states, in either direction,
  is the last one given for that pair, and there is none for any other pair.
\<close>

theorem CheckFlapping_lookup:
  assumes "CheckFlapping s checks = Inr s'"
  shows "flap s' a b = find (\<lambda>c. fl_States c = (a, b) \<or> fl_States c = (b, a)) (rev checks)"
proof -
  from assms have "gm_get (sp_flaps s') (flap_key a b) =
      find (\<lambda>c. flap_key (fst (fl_States c)) (snd (fl_States c)) = flap_key a b) (rev checks)"
    by (auto simp: CheckFlapping_def dest!: CheckFlapping_loop [where k = "flap_key a b"] split: sum.splits option.splits)
  moreover have "flap_key (fst (fl_States c)) (snd (fl_States c)) = flap_key a b \<longleftrightarrow> fl_States c = (a, b) \<or> fl_States c = (b, a)" for c :: Flap
    by (cases "fl_States c") (auto simp: flap_key_def)
  ultimately show ?thesis unfolding flap_def by (simp only:)
qed

theorem CheckFlapping_lookup_witness:
  "\<exists>(s :: (unit, unit) Spec) s'. CheckFlapping s [\<lparr>fl_States = (2, 1), fl_Count = 5, fl_Raise = 9\<rparr>] = Inr s' \<and>
     flap s' 1 2 = Some \<lparr>fl_States = (2, 1), fl_Count = 5, fl_Raise = 9\<rparr>"
proof -
  let ?c = "\<lparr>fl_States = (2, 1), fl_Count = 5, fl_Raise = 9\<rparr>"
  fix st :: "(unit, unit) State"
  obtain s' where s': "CheckFlapping (newSpec\<lparr>sp_states := [(1, st), (2, st)]\<rparr>) [?c] = Inr s'"
    by (simp add: CheckFlapping_def flap_add_def gm_has_def)
  with CheckFlapping_lookup [OF s', of 1 2] show ?thesis by auto
qed

end
