(* ===== verification/Go_Heap.thy ===== *)
theory Go_Heap
  imports Prelude
begin

text \<open>
  The part of Go's standard package \<open>container/heap\<close> that \<open>pkg/fsm/queue.go\<close> calls, written
  as the package is: every routine works through the client's \<open>heap.Interface\<close> (\<open>Less\<close>, \<open>Swap\<close>,
  \<open>Len\<close>), here the function arguments \<open>lt\<close> and \<open>sw\<close> and the length passed along. The locale
  \<open>heap_client\<close> states what the package asks of its client, and the heap lemmas are proved once
  inside it.
\<close>

named_theorems heap_simps \<open>keys and lengths under the heap routines\<close>

section \<open>The routines of \<open>container/heap\<close>\<close>

text \<open>\<open>func up(h, j)\<close>: move the element at \<open>j\<close> towards the root.\<close>

function heap_up :: "('s \<Rightarrow> nat \<Rightarrow> nat \<Rightarrow> bool) \<Rightarrow> (nat \<Rightarrow> nat \<Rightarrow> 's \<Rightarrow> 's) \<Rightarrow> 's \<Rightarrow> nat \<Rightarrow> 's" where
  "heap_up lt sw s j = (let i = (j - 1) div 2 in
     if i = j \<or> \<not> lt s j i then s else heap_up lt sw (sw i j s) i)"
  by pat_completeness auto
termination
  by (relation "measure (\<lambda>(lt, sw, s, j). j)") auto

text \<open>\<open>func down(h, i0, n)\<close>: move the element at \<open>i\<close> towards the leaves of the first \<open>n\<close>
  elements; the result is the state and the position where the loop stopped.\<close>

function heap_down :: "('s \<Rightarrow> nat \<Rightarrow> nat \<Rightarrow> bool) \<Rightarrow> (nat \<Rightarrow> nat \<Rightarrow> 's \<Rightarrow> 's) \<Rightarrow> 's \<Rightarrow> nat \<Rightarrow> nat \<Rightarrow> 's \<times> nat" where
  "heap_down lt sw s i n = (let j1 = 2 * i + 1 in
     if n \<le> j1 then (s, i)
     else let j2 = j1 + 1; j = (if j2 < n \<and> lt s j2 j1 then j2 else j1) in
       if \<not> lt s j i then (s, i) else heap_down lt sw (sw i j s) j n)"
  by pat_completeness auto
termination
  by (relation "measure (\<lambda>(lt, sw, s, i, n). n - i)") (auto simp: Let_def split: if_splits)

declare heap_up.simps [simp del] heap_down.simps [simp del]

text \<open>\<open>func Fix(h, i)\<close>: restore the heap after the element at \<open>i\<close> changed its key.\<close>

definition heap_Fix :: "('s \<Rightarrow> nat \<Rightarrow> nat \<Rightarrow> bool) \<Rightarrow> (nat \<Rightarrow> nat \<Rightarrow> 's \<Rightarrow> 's) \<Rightarrow> 's \<Rightarrow> nat \<Rightarrow> nat \<Rightarrow> 's" where
  "heap_Fix lt sw s i n = (case heap_down lt sw s i n of (s', i') \<Rightarrow>
     if i < i' then s' else heap_up lt sw s' i)"

section \<open>Heap order on the list of keys\<close>

abbreviation par :: "nat \<Rightarrow> nat" where
  "par i \<equiv> (i - 1) div 2"

text \<open>The first \<open>n\<close> keys are heap-ordered.\<close>

definition heap_ord :: "'k::linorder list \<Rightarrow> nat \<Rightarrow> bool" where
  "heap_ord ks n \<longleftrightarrow> (\<forall>c. 0 < c \<and> c < n \<longrightarrow> ks ! par c \<le> ks ! c)"

text \<open>Heap-ordered but for the edges at \<open>i\<close>, whose children are not below its parent.\<close>

definition heap_defect :: "'k::linorder list \<Rightarrow> nat \<Rightarrow> nat \<Rightarrow> bool" where
  "heap_defect ks n i \<longleftrightarrow>
     (\<forall>c. 0 < c \<and> c < n \<and> c \<noteq> i \<and> par c \<noteq> i \<longrightarrow> ks ! par c \<le> ks ! c) \<and>
     (0 < i \<longrightarrow> (\<forall>c. 0 < c \<and> c < n \<and> par c = i \<longrightarrow> ks ! par i \<le> ks ! c))"

text \<open>The only defect is the edge from \<open>i\<close> to its parent.\<close>

definition heap_above :: "'k::linorder list \<Rightarrow> nat \<Rightarrow> nat \<Rightarrow> bool" where
  "heap_above ks n i \<longleftrightarrow> heap_defect ks n i \<and> (\<forall>c. 0 < c \<and> c < n \<and> par c = i \<longrightarrow> ks ! i \<le> ks ! c)"

text \<open>The only defects are the edges from \<open>i\<close> to its children.\<close>

definition heap_below :: "'k::linorder list \<Rightarrow> nat \<Rightarrow> nat \<Rightarrow> bool" where
  "heap_below ks n i \<longleftrightarrow> heap_defect ks n i \<and> (0 < i \<longrightarrow> ks ! par i \<le> ks ! i)"

lemmas heap_defs = heap_ord_def heap_defect_def heap_above_def heap_below_def

lemma child_cases: "0 < c \<Longrightarrow> par c = i \<Longrightarrow> c = 2 * i + 1 \<or> c = 2 * i + 2"
  by arith

lemma par_less: "0 < c \<Longrightarrow> par c < c"
  by arith

lemma heap_ord_mono: "heap_ord ks n \<Longrightarrow> m \<le> n \<Longrightarrow> heap_ord ks m"
  by (auto simp: heap_ord_def)

lemma heap_ord_defect: "heap_ord ks n \<Longrightarrow> heap_defect ks n i"
proof -
  assume h: "heap_ord ks n"
  have "ks ! par i \<le> ks ! c" if "0 < i" "0 < c" "c < n" "par c = i" for c
  proof -
    have "i < c" using that by auto
    then have "ks ! par i \<le> ks ! i" and "ks ! i \<le> ks ! c"
      using h that by (auto simp: heap_ord_def)
    then show ?thesis by simp
  qed
  with h show ?thesis by (auto simp: heap_defect_def heap_ord_def)
qed

lemma heap_ord_above: "heap_ord ks n \<Longrightarrow> heap_above ks n i"
  using heap_ord_defect by (auto simp: heap_above_def heap_ord_def)

lemma heap_root_least:
  assumes "heap_ord ks n" "i < n"
  shows "ks ! 0 \<le> ks ! i"
  using assms(2)
proof (induction i rule: less_induct)
  case (less i)
  show ?case
  proof (cases "i = 0")
    case False
    then have "ks ! 0 \<le> ks ! par i" using less by auto
    also have "\<dots> \<le> ks ! i" using assms(1) less.prems False by (auto simp: heap_ord_def)
    finally show ?thesis .
  qed simp
qed

lemma heap_above_exit: "heap_above ks n i \<Longrightarrow> i = 0 \<or> ks ! par i \<le> ks ! i \<Longrightarrow> heap_ord ks n"
  unfolding heap_defs by (metis less_numeral_extra(3))

lemma heap_below_exit: "heap_below ks n i \<Longrightarrow> (\<And>c. 0 < c \<Longrightarrow> c < n \<Longrightarrow> par c = i \<Longrightarrow> ks ! i \<le> ks ! c) \<Longrightarrow> heap_ord ks n"
  unfolding heap_defs by metis

lemma heap_above_new:
  assumes "heap_ord ks n"
  shows "heap_above ks (Suc n) n"
proof -
  have no: "par c \<noteq> n" if "0 < c" "c < Suc n" for c using that by auto
  have "ks ! par c \<le> ks ! c" if "0 < c" "c < Suc n" "c \<noteq> n" for c
    using assms that unfolding heap_ord_def by simp
  with no show ?thesis unfolding heap_above_def heap_defect_def by blast
qed

text \<open>One turn of \<open>up\<close> moves the defect to the parent.\<close>

lemma heap_above_step:
  assumes "heap_above ks n j" "j < n" "n \<le> length ks" "0 < j" "ks ! j < ks ! par j"
  shows "heap_above (lswap (par j) j ks) n (par j)"
proof -
  define i where "i = par j"
  let ?ks = "lswap i j ks"
  have ij: "i < j" using assms(4) by (simp add: i_def)
  have small: "ks ! j < ks ! i" using assms(5) by (simp add: i_def)
  have get: "?ks ! k = (if k = j then ks ! i else if k = i then ks ! j else ks ! k)" if "k < n" for k
    using assms that ij by (subst nth_lswap) auto
  have edge: "ks ! par c \<le> ks ! c" if "0 < c" "c < n" "c \<noteq> j" "par c \<noteq> j" for c
    using assms(1) that by (auto simp: heap_above_def heap_defect_def)
  have grand: "ks ! i \<le> ks ! c" if "0 < c" "c < n" "par c = j" for c
    using assms(1,4) that by (auto simp: heap_above_def heap_defect_def i_def)
  have "?ks ! par c \<le> ?ks ! c" if c: "0 < c" "c < n" "c \<noteq> i" for c
  proof -
    have p: "par c < n" "par c < c" using c by auto
    consider "c = j" | "c \<noteq> j" "par c = j" | "c \<noteq> j" "par c = i" | "c \<noteq> j" "par c \<noteq> j" "par c \<noteq> i" by blast
    then show ?thesis
    proof cases
      case 1
      then have "par c = i" by (simp add: i_def)
      then show ?thesis using 1 small ij p c by (simp add: get)
    next
      case 2
      then show ?thesis using grand [of c] c p ij by (simp add: get)
    next
      case 3
      then have "ks ! i \<le> ks ! c" using edge [of c] c ij by auto
      then show ?thesis using 3 c p ij small by (simp add: get)
    next
      case 4
      then show ?thesis using edge [of c] c p by (simp add: get)
    qed
  qed
  moreover have "?ks ! par i \<le> ?ks ! c" if c: "0 < i" "0 < c" "c < n" "par c = i" for c
  proof -
    have pp: "par i < i" "par i < n" using c ij assms(2) by auto
    have top: "ks ! par i \<le> ks ! i" using edge [of i] c ij assms(2) by auto
    have "ks ! i \<le> ks ! c" if "c \<noteq> j" using edge [of c] that c ij by auto
    moreover have "c \<noteq> i" using c by auto
    ultimately show ?thesis using top pp c ij by (auto simp: get intro: order_trans)
  qed
  moreover have "?ks ! i \<le> ?ks ! c" if c: "0 < c" "c < n" "par c = i" for c
    using calculation(1) [of c] c ij assms(2) by (auto dest: par_less)
  ultimately have "heap_above ?ks n i"
    unfolding heap_above_def heap_defect_def by blast
  then show ?thesis by (simp add: i_def)
qed

text \<open>One turn of \<open>down\<close> moves the defect to the smaller child, whatever the edge above.\<close>

lemma heap_defect_step:
  assumes "heap_defect ks n i" "i < n" "n \<le> length ks" "0 < j" "j < n" "par j = i" "ks ! j < ks ! i"
    and least: "\<And>c. 0 < c \<Longrightarrow> c < n \<Longrightarrow> par c = i \<Longrightarrow> ks ! j \<le> ks ! c"
  shows "heap_below (lswap i j ks) n j"
proof -
  let ?ks = "lswap i j ks"
  have ij: "i < j" using assms(4,6) by auto
  have get: "?ks ! k = (if k = j then ks ! i else if k = i then ks ! j else ks ! k)" if "k < n" for k
    using assms that ij by (subst nth_lswap) auto
  have edge: "ks ! par c \<le> ks ! c" if "0 < c" "c < n" "c \<noteq> i" "par c \<noteq> i" for c
    using assms(1) that by (auto simp: heap_defect_def)
  have grand: "ks ! par i \<le> ks ! c" if "0 < i" "0 < c" "c < n" "par c = i" for c
    using assms(1) that by (auto simp: heap_defect_def)
  have "?ks ! par c \<le> ?ks ! c" if c: "0 < c" "c < n" "par c \<noteq> j" for c
  proof -
    have p: "par c < n" "par c < c" using c by auto
    consider "c = i" | "c = j" | "c \<noteq> i" "c \<noteq> j" "par c = i" | "c \<noteq> i" "c \<noteq> j" "par c \<noteq> i" by blast
    then show ?thesis
    proof cases
      case 1
      then show ?thesis using grand [of j] assms(4,5,6) c p ij by (simp add: get)
    next
      case 2
      then show ?thesis using assms(6,7) c p ij by (simp add: get)
    next
      case 3
      then show ?thesis using least [of c] c p ij by (simp add: get)
    next
      case 4
      then show ?thesis using edge [of c] c p by (simp add: get)
    qed
  qed
  moreover have "?ks ! par j \<le> ?ks ! c" if c: "0 < c" "c < n" "par c = j" for c
  proof -
    have "c \<noteq> i" "c \<noteq> j" using c ij by auto
    moreover have "ks ! j \<le> ks ! c" using edge [of c] c ij calculation by auto
    ultimately show ?thesis using assms(2,5,6) c ij by (simp add: get)
  qed
  moreover have "?ks ! par j \<le> ?ks ! j"
    using assms(2,5,6,7) ij by (simp add: get)
  ultimately show ?thesis
    unfolding heap_below_def heap_defect_def by blast
qed

lemma heap_below_defect: "heap_below ks n i \<Longrightarrow> heap_defect ks n i"
  by (simp add: heap_below_def)

section \<open>What swaps keep\<close>

text \<open>
  Whatever a swap of two of the first \<open>n\<close> elements keeps, \<open>up\<close>, \<open>down\<close> and \<open>Fix\<close> on the first
  \<open>n\<close> elements keep.
\<close>

lemma up_keeps:
  assumes "\<And>s i j. P s \<Longrightarrow> i < n \<Longrightarrow> j < n \<Longrightarrow> P (sw i j s)"
  shows "P s \<Longrightarrow> j < n \<Longrightarrow> P (heap_up lt sw s j)"
proof (induction j arbitrary: s rule: less_induct)
  case (less j)
  show ?case
  proof (cases "par j = j \<or> \<not> lt s j (par j)")
    case True
    with less.prems show ?thesis by (auto simp: heap_up.simps [of lt sw s j])
  next
    case False
    then have "par j < j" by auto
    with assms less have "P (heap_up lt sw (sw (par j) j s) (par j))" by auto
    with False show ?thesis by (auto simp: heap_up.simps [of lt sw s j] Let_def)
  qed
qed

lemma down_keeps:
  assumes "\<And>s i j. P s \<Longrightarrow> i < n \<Longrightarrow> j < n \<Longrightarrow> P (sw i j s)"
  shows "P s \<Longrightarrow> P (fst (heap_down lt sw s i n))"
proof (induction "n - i" arbitrary: s i rule: less_induct)
  case less
  define j where "j = (if 2 * i + 1 + 1 < n \<and> lt s (2 * i + 1 + 1) (2 * i + 1) then 2 * i + 1 + 1 else 2 * i + 1)"
  note unf = heap_down.simps [of lt sw s i n, unfolded Let_def, folded j_def]
  show ?case
  proof (cases "n \<le> 2 * i + 1 \<or> \<not> lt s j i")
    case True
    with less.prems show ?thesis by (auto simp: unf)
  next
    case False
    then have j: "i < j" "j < n" by (auto simp: j_def)
    then have "P (sw i j s)" using assms less.prems by auto
    then have "P (fst (heap_down lt sw (sw i j s) j n))" using j less.hyps by auto
    with False show ?thesis by (auto simp: unf)
  qed
qed

lemma Fix_keeps:
  assumes "\<And>s i j. P s \<Longrightarrow> i < n \<Longrightarrow> j < n \<Longrightarrow> P (sw i j s)" and "P s" "i < n"
  shows "P (heap_Fix lt sw s i n)"
proof -
  obtain t k where d: "heap_down lt sw s i n = (t, k)" by force
  then have "P t" using down_keeps [of P n sw s lt i, OF assms(1)] assms by auto
  then have "P (heap_up lt sw t i)" using up_keeps [of P n sw t i lt, OF assms(1)] assms by auto
  with \<open>P t\<close> d show ?thesis by (simp add: heap_Fix_def)
qed

section \<open>What the package asks of its client\<close>

text \<open>
  \<open>keys s\<close> are the priorities in queue order. \<open>Less(i, j)\<close> compares them, \<open>Swap(i, j)\<close> exchanges
  them; both are only called inside the queue.
\<close>

locale heap_client =
  fixes keys :: "'s \<Rightarrow> 'k::linorder list"
    and lt :: "'s \<Rightarrow> nat \<Rightarrow> nat \<Rightarrow> bool"
    and sw :: "nat \<Rightarrow> nat \<Rightarrow> 's \<Rightarrow> 's"
  assumes lt_keys: "i < length (keys s) \<Longrightarrow> j < length (keys s) \<Longrightarrow> lt s i j \<longleftrightarrow> keys s ! i < keys s ! j"
    and keys_sw: "i < length (keys s) \<Longrightarrow> j < length (keys s) \<Longrightarrow> keys (sw i j s) = lswap i j (keys s)"
begin

abbreviation up where "up \<equiv> heap_up lt sw"
abbreviation down where "down \<equiv> heap_down lt sw"

lemma down_stop: "i \<le> snd (down s i n) \<and> (i < n \<longrightarrow> snd (down s i n) < n)"
proof (induction "n - i" arbitrary: s i rule: less_induct)
  case less
  define j where "j = (if 2 * i + 1 + 1 < n \<and> lt s (2 * i + 1 + 1) (2 * i + 1) then 2 * i + 1 + 1 else 2 * i + 1)"
  note unf = heap_down.simps [of lt sw s i n, unfolded Let_def, folded j_def]
  show ?case
  proof (cases "n \<le> 2 * i + 1 \<or> \<not> lt s j i")
    case False
    then have j: "i < j" "j < n" by (auto simp: j_def)
    with less.hyps [of j "sw i j s"] have "j \<le> snd (down (sw i j s) j n)" "snd (down (sw i j s) j n) < n"
      by auto
    with False j show ?thesis by (auto simp: unf)
  qed (auto simp: unf)
qed

lemma up_length: "j < length (keys s) \<Longrightarrow> length (keys (up s j)) = length (keys s)"
  using up_keeps [of "\<lambda>t. length (keys t) = length (keys s)" "length (keys s)" sw s j lt] keys_sw by simp

lemma down_length: "n \<le> length (keys s) \<Longrightarrow> length (keys (fst (down s i n))) = length (keys s)"
  using down_keeps [of "\<lambda>t. length (keys t) = length (keys s)" n sw s lt i] keys_sw by simp

lemma up_heap:
  "heap_above (keys s) n j \<Longrightarrow> j < n \<Longrightarrow> n \<le> length (keys s) \<Longrightarrow> heap_ord (keys (up s j)) n"
proof (induction j arbitrary: s rule: less_induct)
  case (less j)
  show ?case
  proof (cases "par j = j \<or> \<not> lt s j (par j)")
    case True
    have "j = 0 \<or> keys s ! par j \<le> keys s ! j"
    proof (cases "j = 0")
      case False
      then have "par j \<noteq> j" by arith
      with True less.prems lt_keys [of j s "par j"] show ?thesis by auto
    qed simp
    with less.prems(1) have "heap_ord (keys s) n" by (rule heap_above_exit)
    with True show ?thesis by (auto simp: heap_up.simps [of lt sw s j])
  next
    case False
    then have pj: "par j < j" "0 < j" by auto
    have lt: "keys s ! j < keys s ! par j" using False lt_keys less.prems pj by auto
    have k: "keys (sw (par j) j s) = lswap (par j) j (keys s)"
      using keys_sw less.prems pj by auto
    have "heap_above (keys (sw (par j) j s)) n (par j)"
      unfolding k using less.prems pj lt by (intro heap_above_step)
    then have "heap_ord (keys (up (sw (par j) j s) (par j))) n"
      using less.prems pj k by (intro less.IH) auto
    with False show ?thesis by (auto simp: heap_up.simps [of lt sw s j] Let_def)
  qed
qed

text \<open>
  From one defect \<open>down\<close> either stops where it began, with the children in order, or it moved and
  the first \<open>n\<close> keys are a heap.
\<close>

lemma down_defect:
  assumes "heap_defect (keys s) n i" "i < n" "n \<le> length (keys s)"
  shows "case down s i n of (s', i') \<Rightarrow>
    (if i < i' \<or> heap_below (keys s) n i then heap_ord (keys s') n else s' = s \<and> heap_above (keys s) n i)"
  using assms
proof (induction "n - i" arbitrary: s i rule: less_induct)
  case less
  define j where "j = (if 2 * i + 1 + 1 < n \<and> lt s (2 * i + 1 + 1) (2 * i + 1) then 2 * i + 1 + 1 else 2 * i + 1)"
  note unf = heap_down.simps [of lt sw s i n, unfolded Let_def, folded j_def]
  have least: "keys s ! j \<le> keys s ! c" if "2 * i + 1 < n" "0 < c" "c < n" "par c = i" for c
    using child_cases [OF that(2,4)] that less.prems lt_keys [of "2 * i + 1 + 1" s "2 * i + 1"]
    by (auto simp: j_def)
  show ?case
  proof (cases "n \<le> 2 * i + 1 \<or> \<not> lt s j i")
    case True
    have kids: "keys s ! i \<le> keys s ! c" if c: "0 < c" "c < n" "par c = i" for c
    proof -
      have "2 * i + 1 < n" using c by auto
      then have "j < n" "keys s ! j \<le> keys s ! c" using least c by (auto simp: j_def)
      moreover have "\<not> keys s ! j < keys s ! i"
        using True \<open>2 * i + 1 < n\<close> \<open>j < n\<close> lt_keys [of j s i] less.prems by auto
      ultimately show ?thesis by auto
    qed
    have "heap_ord (keys s) n" if "heap_below (keys s) n i" using heap_below_exit [OF that kids] .
    moreover have "heap_above (keys s) n i" using less.prems(1) kids by (simp add: heap_above_def)
    ultimately show ?thesis using True by (auto simp: unf)
  next
    case False
    then have j: "i < j" "j < n" "0 < j" "par j = i" by (auto simp: j_def)
    have k: "keys (sw i j s) = lswap i j (keys s)" using keys_sw less.prems j by auto
    have "keys s ! j < keys s ! i" using False lt_keys less.prems j by auto
    then have below: "heap_below (keys (sw i j s)) n j"
      unfolding k using less.prems j least False by (intro heap_defect_step) auto
    have "case down (sw i j s) j n of (s', i') \<Rightarrow>
      (if j < i' \<or> heap_below (keys (sw i j s)) n j then heap_ord (keys s') n
       else s' = sw i j s \<and> heap_above (keys (sw i j s)) n j)"
      using less.hyps [of j "sw i j s"] below k j less.prems(3) by (auto simp: heap_below_defect)
    with below have "heap_ord (keys (fst (down (sw i j s) j n))) n" by (auto split: prod.splits)
    moreover have "j \<le> snd (down (sw i j s) j n)" using down_stop by blast
    ultimately show ?thesis using False j by (auto simp: unf split: prod.splits)
  qed
qed

text \<open>\<open>Fix\<close> repairs one defect.\<close>

lemma Fix_heap:
  assumes "heap_defect (keys s) n i" "i < n" "n \<le> length (keys s)"
  shows "heap_ord (keys (heap_Fix lt sw s i n)) n"
proof -
  obtain t k where d: "down s i n = (t, k)" by force
  have len: "length (keys t) = length (keys s)" using down_length [of n s i] assms(3) d by simp
  from down_defect [OF assms] d consider "heap_ord (keys t) n" | "t = s" "heap_above (keys s) n i"
    by (auto split: if_splits)
  then have "heap_above (keys t) n i" using heap_ord_above by cases auto
  then have "heap_ord (keys (up t i)) n" using up_heap assms len by auto
  moreover have "heap_ord (keys t) n" if "i < k" using down_defect [OF assms] d that by simp
  ultimately show ?thesis using d by (simp add: heap_Fix_def)
qed

lemma down_root_heap:
  assumes "heap_defect (keys s) n 0" "n \<le> length (keys s)"
  shows "heap_ord (keys (fst (down s 0 n))) n"
proof (cases "0 < n")
  case True
  moreover have "heap_below (keys s) n 0" using assms(1) by (simp add: heap_below_def)
  ultimately show ?thesis using down_defect [of s n 0] assms by (auto split: prod.splits if_splits)
qed (simp add: heap_ord_def)

end

end
