(* ===== verification/Fsm_Queue.thy ===== *)
theory Fsm_Queue
  imports Fsm_Spec Go_Heap
begin

text \<open>
  The instance record of \<open>pkg/fsm/instance.go\<close> and the deadline queue of \<open>pkg/fsm/queue.go\<close>.
  Instances are shared by pointer between the maps of a set and the queue, and the queue writes
  the \<open>index\<close> field of the instances it holds; so instances live in a store and the queue is a list
  of addresses.
\<close>

named_theorems queue_simps \<open>fields the queue never changes\<close>

section \<open>Instances\<close>

type_synonym addr = nat

text \<open>\<open>inst_parent\<close> says whether the \<open>parent\<close> pointer is set. The lock is left out: an instance
  is only written by the goroutine that runs the transactions.\<close>

record 'd finstance =
  inst_id :: ID
  inst_state :: Index
  inst_data :: "'d option"
  inst_parent :: bool
  inst_flaps :: "Index list"
  inst_start :: Time
  inst_deadline :: Time
  inst_index :: int
  inst_visits :: "(Index, int) gomap"

type_synonym 'd store = "addr \<Rightarrow> 'd finstance"

definition instance_update :: "Index \<Rightarrow> Time \<Rightarrow> Tick \<Rightarrow> 'd finstance \<Rightarrow> 'd finstance" where
  "instance_update next now ttl i =
     i\<lparr>inst_visits := gm_put next (wrap64 (gm_get0 0 (inst_visits i) next + 1)) (inst_visits i),
       inst_state := next,
       inst_start := now,
       inst_deadline := (if 0 < ttl then wrap64 (now + ttl) else 0)\<rparr>"

section \<open>The priority queue\<close>

type_synonym 'd pqueue = "addr list \<times> 'd store"

definition set_index :: "addr \<Rightarrow> int \<Rightarrow> 'd store \<Rightarrow> 'd store" where
  "set_index a i st = st(a := (st a)\<lparr>inst_index := i\<rparr>)"

definition newQueue :: "addr list" where
  "newQueue = []"

definition q_Len :: "'d pqueue \<Rightarrow> nat" where
  "q_Len pq = length (fst pq)"

definition q_Less :: "'d pqueue \<Rightarrow> nat \<Rightarrow> nat \<Rightarrow> bool" where
  "q_Less pq i j \<longleftrightarrow> inst_deadline (snd pq (fst pq ! i)) < inst_deadline (snd pq (fst pq ! j))"

definition q_Swap :: "nat \<Rightarrow> nat \<Rightarrow> 'd pqueue \<Rightarrow> 'd pqueue" where
  "q_Swap i j pq = (let q = lswap i j (fst pq)
     in (q, set_index (q ! j) (int j) (set_index (q ! i) (int i) (snd pq))))"

definition q_Push :: "addr \<Rightarrow> 'd pqueue \<Rightarrow> 'd pqueue" where
  "q_Push a pq = (fst pq @ [a], set_index a (int (length (fst pq))) (snd pq))"

definition q_Pop :: "'d pqueue \<Rightarrow> addr \<times> 'd pqueue" where
  "q_Pop pq = (let n = length (fst pq); a = fst pq ! (n - 1)
     in (a, (take (n - 1) (fst pq), set_index a (- 1) (snd pq))))"

definition q_peek :: "'d pqueue \<Rightarrow> addr option" where
  "q_peek pq = (if length (fst pq) = 0 then None else Some (fst pq ! 0))"

definition q_enqueue :: "addr \<Rightarrow> 'd pqueue \<Rightarrow> 'd pqueue" where
  "q_enqueue a pq = (let pq' = q_Push a pq in heap_up q_Less q_Swap pq' (q_Len pq' - 1))"

text \<open>\<open>heap.Pop\<close>; on an empty queue \<open>Swap(0, -1)\<close> panics.\<close>

definition q_dequeue :: "'d pqueue \<Rightarrow> (addr \<times> 'd pqueue) outcome" where
  "q_dequeue pq = (if q_Len pq = 0 then Panics
     else let n = q_Len pq - 1; pq' = q_Swap 0 n pq
       in Ret (q_Pop (fst (heap_down q_Less q_Swap pq' 0 n))))"

text \<open>\<open>heap.Remove(pq, i)\<close>; an index outside the queue panics in \<open>Swap\<close> or \<open>Pop\<close>.\<close>

definition q_heap_Remove :: "nat \<Rightarrow> 'd pqueue \<Rightarrow> (addr \<times> 'd pqueue) outcome" where
  "q_heap_Remove i pq = (if q_Len pq \<le> i then Panics
     else let n = q_Len pq - 1
       in Ret (q_Pop (if n \<noteq> i
            then (case heap_down q_Less q_Swap (q_Swap i n pq) i n of (pq', i') \<Rightarrow>
              if i < i' then pq' else heap_up q_Less q_Swap pq' i)
            else pq)))"

text \<open>The guards \<open>instance.index > 0\<close> are the source's.\<close>

definition q_remove :: "addr \<Rightarrow> 'd pqueue \<Rightarrow> 'd pqueue outcome" where
  "q_remove a pq = (if 0 < inst_index (snd pq a)
     then andthen (q_heap_Remove (nat (inst_index (snd pq a))) pq)
       (\<lambda>(_, pq'). Ret (fst pq', set_index a (- 1) (snd pq')))
     else Ret pq)"

definition q_update :: "addr \<Rightarrow> 'd pqueue \<Rightarrow> 'd pqueue outcome" where
  "q_update a pq = (if 0 < inst_index (snd pq a)
     then if q_Len pq \<le> nat (inst_index (snd pq a)) then Panics
       else Ret (heap_Fix q_Less q_Swap pq (nat (inst_index (snd pq a))) (q_Len pq))
     else Ret pq)"

section \<open>The queue is a client of \<open>container/heap\<close>\<close>

definition q_keys :: "'d pqueue \<Rightarrow> Time list" where
  "q_keys pq = map (\<lambda>a. inst_deadline (snd pq a)) (fst pq)"

lemma set_index_deadline [simp, queue_simps]: "inst_deadline (set_index a i st b) = inst_deadline (st b)"
  by (simp add: set_index_def)

lemma length_q_keys [simp]: "length (q_keys pq) = length (fst pq)"
  by (simp add: q_keys_def)

lemma q_keys_Swap: "i < length (fst pq) \<Longrightarrow> j < length (fst pq) \<Longrightarrow> q_keys (q_Swap i j pq) = lswap i j (q_keys pq)"
  by (simp add: q_keys_def q_Swap_def Let_def map_lswap)

interpretation deadlines: heap_client q_keys q_Less q_Swap
  by unfold_locales (simp_all add: q_keys_Swap q_Less_def, simp add: q_keys_def)

section \<open>Invariant and frame\<close>

text \<open>
  The \<open>index\<close> field of an instance is its position in the queue, and -1 outside it: the queue's
  own back pointer, on which \<open>remove\<close> and \<open>update\<close> rely.
\<close>

definition q_inv :: "'d pqueue \<Rightarrow> bool" where
  "q_inv pq \<longleftrightarrow> distinct (fst pq) \<and>
     (\<forall>i < length (fst pq). inst_index (snd pq (fst pq ! i)) = int i) \<and>
     (\<forall>a. a \<notin> set (fst pq) \<longrightarrow> inst_index (snd pq a) = - 1)"

text \<open>Everything but the back pointers.\<close>

definition erase :: "'d store \<Rightarrow> 'd store" where
  "erase st a = (st a)\<lparr>inst_index := 0\<rparr>"

abbreviation q_heap :: "'d pqueue \<Rightarrow> bool" where
  "q_heap pq \<equiv> heap_ord (q_keys pq) (length (fst pq))"

lemma erase_set_index [simp, queue_simps]: "erase (set_index a i st) = erase st"
  by (simp add: erase_def set_index_def fun_eq_iff)

lemma erase_eqD:
  assumes "erase st' = erase st"
  shows "inst_deadline (st' a) = inst_deadline (st a)" "inst_state (st' a) = inst_state (st a)"
    "inst_id (st' a) = inst_id (st a)" "inst_parent (st' a) = inst_parent (st a)"
    "inst_data (st' a) = inst_data (st a)" "inst_visits (st' a) = inst_visits (st a)"
    "inst_flaps (st' a) = inst_flaps (st a)" "inst_start (st' a) = inst_start (st a)"
  using fun_cong [OF assms, of a] unfolding erase_def
  by (cases "st a"; cases "st' a"; simp)+

lemma q_invI:
  assumes "distinct (fst pq)" "\<And>i. i < length (fst pq) \<Longrightarrow> inst_index (snd pq (fst pq ! i)) = int i"
    "\<And>a. a \<notin> set (fst pq) \<Longrightarrow> inst_index (snd pq a) = - 1"
  shows "q_inv pq"
  using assms unfolding q_inv_def by blast

lemma q_invD:
  assumes "q_inv pq"
  shows "distinct (fst pq)" "i < length (fst pq) \<Longrightarrow> inst_index (snd pq (fst pq ! i)) = int i"
    "a \<notin> set (fst pq) \<Longrightarrow> inst_index (snd pq a) = - 1"
  using assms unfolding q_inv_def by blast+

lemma q_inv_index_iff: "q_inv pq \<Longrightarrow> a \<in> set (fst pq) \<longleftrightarrow> inst_index (snd pq a) \<noteq> - 1"
  by (auto simp: q_inv_def in_set_conv_nth)

lemma q_inv_nth:
  assumes "q_inv pq" "a \<in> set (fst pq)"
  shows "nat (inst_index (snd pq a)) < length (fst pq)" "fst pq ! nat (inst_index (snd pq a)) = a"
    "0 \<le> inst_index (snd pq a)"
  using assms by (auto simp: q_inv_def in_set_conv_nth)

lemma q_inv_Swap:
  assumes inv: "q_inv pq" and i: "i < length (fst pq)" and j: "j < length (fst pq)"
  shows "q_inv (q_Swap i j pq)"
proof -
  define q where "q = lswap i j (fst pq)"
  have len: "length q = length (fst pq)" and d: "distinct q" and mem: "set q = set (fst pq)"
    using i j q_invD(1) [OF inv] by (simp_all add: q_def)
  have sw: "q_Swap i j pq = (q, set_index (q ! j) (int j) (set_index (q ! i) (int i) (snd pq)))"
    by (simp add: q_Swap_def q_def Let_def)
  have same: "q ! k = q ! l \<longleftrightarrow> k = l" if "k < length q" "l < length q" for k l
    using d that by (simp add: nth_eq_iff_index_eq)
  show ?thesis
  proof (rule q_invI)
    show "distinct (fst (q_Swap i j pq))" using d by (simp add: sw)
  next
    fix k assume "k < length (fst (q_Swap i j pq))"
    then have k: "k < length q" by (simp add: sw)
    have "q ! k = fst pq ! k" if "k \<noteq> i" "k \<noteq> j" using that k i j len by (simp add: q_def nth_lswap)
    moreover have "inst_index (snd pq (fst pq ! k)) = int k" using inv k len by (intro q_invD) simp_all
    ultimately show "inst_index (snd (q_Swap i j pq) (fst (q_Swap i j pq) ! k)) = int k"
      using k i j len same by (auto simp: sw set_index_def)
  next
    fix a assume "a \<notin> set (fst (q_Swap i j pq))"
    then have a: "a \<notin> set q" by (simp add: sw)
    then have "a \<noteq> q ! i" "a \<noteq> q ! j" using i j len nth_mem by metis+
    moreover have "inst_index (snd pq a) = - 1" using inv a mem by (intro q_invD) simp_all
    ultimately show "inst_index (snd (q_Swap i j pq) a) = - 1" by (simp add: sw set_index_def)
  qed
qed

lemma mset_Swap: "i < length (fst pq) \<Longrightarrow> j < length (fst pq) \<Longrightarrow> mset (fst (q_Swap i j pq)) = mset (fst pq)"
  by (simp add: q_Swap_def Let_def)

lemma erase_Swap: "erase (snd (q_Swap i j pq)) = erase (snd pq)"
  by (simp add: q_Swap_def Let_def)

text \<open>What survives any sequence of swaps.\<close>

definition q_same :: "'d pqueue \<Rightarrow> 'd pqueue \<Rightarrow> bool" where
  "q_same pq pq' \<longleftrightarrow> mset (fst pq') = mset (fst pq) \<and> erase (snd pq') = erase (snd pq) \<and> (q_inv pq \<longrightarrow> q_inv pq')"

lemma q_same_refl [simp]: "q_same pq pq"
  by (simp add: q_same_def)

lemma q_same_trans: "q_same p q \<Longrightarrow> q_same q r \<Longrightarrow> q_same p r"
  by (auto simp: q_same_def)

lemma q_same_Swap: "i < length (fst pq) \<Longrightarrow> j < length (fst pq) \<Longrightarrow> q_same pq (q_Swap i j pq)"
  by (simp add: q_same_def mset_Swap erase_Swap q_inv_Swap)

lemma q_same_length: "q_same pq pq' \<Longrightarrow> length (fst pq') = length (fst pq)"
  by (metis q_same_def size_mset)

lemma q_same_Swap_trans:
  assumes "q_same p pq" "i < n" "j < n" "n \<le> length (fst p)"
  shows "q_same p (q_Swap i j pq)"
  using assms(1) q_same_Swap q_same_length [OF assms(1)] assms by (intro q_same_trans [OF assms(1)] q_same_Swap) simp_all

lemma q_same_up: "j < length (fst pq) \<Longrightarrow> q_same pq (heap_up q_Less q_Swap pq j)"
  by (rule up_keeps [where P = "q_same pq" and n = "length (fst pq)"]) (auto intro: q_same_Swap_trans)

lemma q_same_down: "n \<le> length (fst pq) \<Longrightarrow> q_same pq (fst (heap_down q_Less q_Swap pq i n))"
  by (rule down_keeps [where P = "q_same pq"]) (auto intro: q_same_Swap_trans)

lemma q_same_Fix: "i < n \<Longrightarrow> n \<le> length (fst pq) \<Longrightarrow> q_same pq (heap_Fix q_Less q_Swap pq i n)"
  by (rule Fix_keeps [where P = "q_same pq"]) (auto intro: q_same_Swap_trans)

text \<open>An element behind the first \<open>n\<close> stays where it is.\<close>

definition q_at :: "nat \<Rightarrow> addr \<Rightarrow> 'd pqueue \<Rightarrow> bool" where
  "q_at n a pq \<longleftrightarrow> n < length (fst pq) \<and> fst pq ! n = a"

lemma q_at_Swap: "q_at n a pq \<Longrightarrow> i < n \<Longrightarrow> j < n \<Longrightarrow> q_at n a (q_Swap i j pq)"
  by (auto simp: q_at_def q_Swap_def Let_def nth_lswap)

lemma q_at_down: "q_at n a pq \<Longrightarrow> q_at n a (fst (heap_down q_Less q_Swap pq i n))"
  by (rule down_keeps [where P = "q_at n a"]) (auto intro: q_at_Swap)

lemma q_at_Fix: "q_at n a pq \<Longrightarrow> i < n \<Longrightarrow> q_at n a (heap_Fix q_Less q_Swap pq i n)"
  by (rule Fix_keeps [where P = "q_at n a"]) (auto intro: q_at_Swap)

lemma q_at_Swap_last: "n < length (fst pq) \<Longrightarrow> i < length (fst pq) \<Longrightarrow> q_at n (fst pq ! i) (q_Swap i n pq)"
  by (simp add: q_at_def q_Swap_def Let_def nth_lswap)

lemma q_at_last: "q_at n a pq \<Longrightarrow> length (fst pq) = Suc n \<Longrightarrow> \<exists>pq'. q_Pop pq = (a, pq')"
  by (simp add: q_at_def q_Pop_def Let_def)

section \<open>The operations\<close>

text \<open>Only the key at \<open>i\<close> changed: one defect, at \<open>i\<close>.\<close>

lemma heap_ord_change_defect:
  assumes "heap_ord ks n" "n \<le> length ks" "i < n"
  shows "heap_defect (ks[i := v]) n i"
proof -
  have "heap_defect ks n i" using assms(1) by (rule heap_ord_defect)
  moreover have "par i \<noteq> i" if "0 < i" using that by arith
  moreover have "c \<noteq> i" if "0 < c" "par c = i" for c using that by arith
  ultimately show ?thesis
    using assms unfolding heap_defect_def by (simp add: nth_list_update)
qed

text \<open>Exchanging the last key with a defect leaves that defect in front of it.\<close>

lemma heap_defect_swap_last:
  assumes "heap_defect ks (Suc n) i" "i \<le> n" "n < length ks"
  shows "heap_defect (lswap i n ks) n i"
proof -
  have get: "lswap i n ks ! k = ks ! k" if "k < n" "k \<noteq> i" for k
    using that assms by (simp add: nth_lswap)
  have "lswap i n ks ! par c \<le> lswap i n ks ! c" if "0 < c" "c < n" "c \<noteq> i" "par c \<noteq> i" for c
  proof -
    have "par c < n" using that by auto
    with that assms(1) show ?thesis by (simp add: get heap_defect_def)
  qed
  moreover have "lswap i n ks ! par i \<le> lswap i n ks ! c" if "0 < i" "0 < c" "c < n" "par c = i" for c
  proof -
    have "par i < n" "par i \<noteq> i" "c \<noteq> i" using that assms(2) by auto
    with that assms(1) show ?thesis by (simp add: get heap_defect_def)
  qed
  ultimately show ?thesis unfolding heap_defect_def by blast
qed

lemma heap_defect_last: "heap_defect ks (Suc n) n \<Longrightarrow> heap_ord ks n"
  unfolding heap_ord_def heap_defect_def
  by (metis Suc_lessD less_SucI not_less_eq par_less)

lemma heap_ord_take: "n \<le> length ks \<Longrightarrow> heap_ord (take n ks) n \<longleftrightarrow> heap_ord ks n"
  unfolding heap_ord_def by (auto simp: less_imp_diff_less intro!: all_cong)

lemma q_keys_nth: "i < length (fst pq) \<Longrightarrow> q_keys pq ! i = inst_deadline (snd pq (fst pq ! i))"
  by (simp add: q_keys_def)

lemma q_keys_Push: "q_keys (q_Push a pq) = q_keys pq @ [inst_deadline (snd pq a)]"
  by (simp add: q_keys_def q_Push_def)

lemma q_inv_Push:
  assumes inv: "q_inv pq" and a: "a \<notin> set (fst pq)"
  shows "q_inv (q_Push a pq)"
proof (rule q_invI)
  show "distinct (fst (q_Push a pq))" using q_invD(1) [OF inv] a by (simp add: q_Push_def)
next
  fix i assume "i < length (fst (q_Push a pq))"
  then have "i < length (fst pq) \<or> i = length (fst pq)" by (auto simp: q_Push_def)
  moreover have "fst pq ! i \<noteq> a" if "i < length (fst pq)" using that a by auto
  ultimately show "inst_index (snd (q_Push a pq) (fst (q_Push a pq) ! i)) = int i"
    using q_invD(2) [OF inv, of i] by (auto simp: q_Push_def set_index_def nth_append)
next
  fix b assume "b \<notin> set (fst (q_Push a pq))"
  then show "inst_index (snd (q_Push a pq) b) = - 1"
    using q_invD(3) [OF inv, of b] by (simp add: q_Push_def set_index_def)
qed

text \<open>\<open>enqueue\<close> adds the instance, keeps the back pointers and the heap.\<close>

lemma enqueue_correct:
  assumes inv: "q_inv pq" and a: "a \<notin> set (fst pq)"
  shows "q_inv (q_enqueue a pq)" and "mset (fst (q_enqueue a pq)) = add_mset a (mset (fst pq))"
    and "erase (snd (q_enqueue a pq)) = erase (snd pq)" and "q_heap pq \<Longrightarrow> q_heap (q_enqueue a pq)"
proof -
  let ?p = "q_Push a pq" and ?n = "length (fst pq)"
  have len: "length (fst ?p) = Suc ?n" by (simp add: q_Push_def)
  have e: "q_enqueue a pq = heap_up q_Less q_Swap ?p ?n" by (simp add: q_enqueue_def q_Len_def len Let_def)
  have same: "q_same ?p (q_enqueue a pq)" unfolding e by (rule q_same_up) (simp add: len)
  then show "q_inv (q_enqueue a pq)" using q_inv_Push [OF inv a] by (simp add: q_same_def)
  show "mset (fst (q_enqueue a pq)) = add_mset a (mset (fst pq))"
    using same by (simp add: q_same_def q_Push_def)
  show "erase (snd (q_enqueue a pq)) = erase (snd pq)"
    using same by (simp add: q_same_def q_Push_def)
  show "q_heap (q_enqueue a pq)" if h: "q_heap pq"
  proof -
    have "heap_ord (q_keys ?p) ?n"
      using h heap_ord_take [of ?n "q_keys ?p"] by (simp add: q_keys_Push)
    then have "heap_above (q_keys ?p) (Suc ?n) ?n" by (rule heap_above_new)
    then have "heap_ord (q_keys (q_enqueue a pq)) (Suc ?n)"
      unfolding e by (rule deadlines.up_heap) (simp_all add: len)
    then show ?thesis using q_same_length [OF same] len by simp
  qed
qed

text \<open>\<open>Pop\<close> takes the last element off.\<close>

lemma Pop_correct:
  assumes inv: "q_inv pq" and ne: "fst pq \<noteq> []" and pop: "q_Pop pq = (a, pq')"
  shows "a = last (fst pq)" and "q_inv pq'" and "mset (fst pq) = add_mset a (mset (fst pq'))"
    and "erase (snd pq') = erase (snd pq)" and "q_keys pq' = butlast (q_keys pq)" and "a \<notin> set (fst pq')"
proof -
  have bl: "take (length (fst pq) - 1) (fst pq) = butlast (fst pq)" by (simp add: butlast_conv_take)
  have p: "pq' = (butlast (fst pq), set_index a (- 1) (snd pq))" and a: "a = last (fst pq)"
    using pop ne unfolding q_Pop_def Let_def bl by (auto simp: last_conv_nth)
  have split: "fst pq = butlast (fst pq) @ [a]" using ne a by simp
  have d: "distinct (butlast (fst pq) @ [a])" using q_invD(1) [OF inv] split by simp
  show "a = last (fst pq)" by (rule a)
  show "a \<notin> set (fst pq')" using d by (simp add: p)
  show "mset (fst pq) = add_mset a (mset (fst pq'))" by (subst split) (simp add: p)
  show "erase (snd pq') = erase (snd pq)" by (simp add: p)
  show "q_keys pq' = butlast (q_keys pq)" by (simp add: p q_keys_def map_butlast)
  show "q_inv pq'"
  proof (rule q_invI)
    show "distinct (fst pq')" using d by (simp add: p)
  next
    fix i assume "i < length (fst pq')"
    then have i: "i < length (butlast (fst pq))" by (simp add: p)
    then have "butlast (fst pq) ! i \<in> set (butlast (fst pq))" by (rule nth_mem)
    then have "butlast (fst pq) ! i \<noteq> a" using d by auto
    moreover have "butlast (fst pq) ! i = fst pq ! i" using i by (simp add: nth_butlast)
    ultimately show "inst_index (snd pq' (fst pq' ! i)) = int i"
      using q_invD(2) [OF inv, of i] i by (simp add: p set_index_def)
  next
    fix b assume "b \<notin> set (fst pq')"
    then have "b \<notin> set (butlast (fst pq))" by (simp add: p)
    then have "b = a \<or> b \<notin> set (butlast (fst pq) @ [a])" by simp
    then have "b = a \<or> b \<notin> set (fst pq)" by (simp only: split [symmetric])
    then show "inst_index (snd pq' b) = - 1"
      using q_invD(3) [OF inv, of b] by (auto simp: p set_index_def)
  qed
qed

text \<open>
  \<open>dequeue\<close> on a non-empty queue returns the head and takes it out; when the queue is a heap the
  head has the least deadline and the rest is a heap again.
\<close>

lemma dequeue_correct:
  assumes inv: "q_inv pq" and ne: "fst pq \<noteq> []"
  obtains pq' where "q_dequeue pq = Ret (fst pq ! 0, pq')" and "q_inv pq'"
    and "mset (fst pq) = add_mset (fst pq ! 0) (mset (fst pq'))" and "fst pq ! 0 \<notin> set (fst pq')"
    and "erase (snd pq') = erase (snd pq)"
    and "q_heap pq \<Longrightarrow> q_heap pq' \<and> (\<forall>b \<in> set (fst pq). inst_deadline (snd pq (fst pq ! 0)) \<le> inst_deadline (snd pq b))"
proof -
  define n where "n = length (fst pq) - 1"
  define p1 where "p1 = q_Swap 0 n pq"
  define p2 where "p2 = fst (heap_down q_Less q_Swap p1 0 n)"
  have n: "n < length (fst pq)" "0 < length (fst pq)" "length (fst pq) = Suc n" using ne by (auto simp: n_def)
  have s1: "q_same pq p1" unfolding p1_def using n by (intro q_same_Swap) simp_all
  then have l1: "length (fst p1) = Suc n" using n q_same_length by metis
  have s2: "q_same p1 p2" unfolding p2_def using l1 by (intro q_same_down) simp
  then have l2: "length (fst p2) = Suc n" using l1 q_same_length by metis
  have same: "q_same pq p2" using s1 s2 by (rule q_same_trans)
  have "q_at n (fst pq ! 0) p1" unfolding p1_def using n by (intro q_at_Swap_last) simp_all
  then have "q_at n (fst pq ! 0) p2" unfolding p2_def by (rule q_at_down)
  then obtain pq' where pop: "q_Pop p2 = (fst pq ! 0, pq')" using q_at_last l2 by blast
  note P = Pop_correct [OF _ _ pop]
  have i2: "q_inv p2" and ne2: "fst p2 \<noteq> []" using same inv l2 by (auto simp: q_same_def)
  show thesis
  proof
    show "q_dequeue pq = Ret (fst pq ! 0, pq')"
      using pop ne by (simp add: q_dequeue_def q_Len_def Let_def n_def p1_def p2_def)
    show "q_inv pq'" using P i2 ne2 by blast
    show "mset (fst pq) = add_mset (fst pq ! 0) (mset (fst pq'))" using P(3) i2 ne2 same by (simp add: q_same_def)
    show "fst pq ! 0 \<notin> set (fst pq')" using P(6) i2 ne2 by blast
    show e': "erase (snd pq') = erase (snd pq)" using P(4) i2 ne2 same by (simp add: q_same_def)
    assume h: "q_heap pq"
    have "heap_defect (q_keys pq) (Suc n) 0" using h n by (simp add: heap_ord_defect)
    then have "heap_defect (lswap 0 n (q_keys pq)) n 0" using n by (intro heap_defect_swap_last) simp_all
    then have "heap_defect (q_keys p1) n 0" using n by (simp add: p1_def q_keys_Swap)
    then have "heap_ord (q_keys p2) n"
      unfolding p2_def using l1 by (intro deadlines.down_root_heap) simp_all
    moreover have "q_keys pq' = take n (q_keys p2)" using P(5) i2 ne2 l2 by (simp add: butlast_conv_take)
    moreover have "length (fst pq') = n"
      using P(3) [OF i2 ne2] l2 by (metis add_diff_cancel_left' plus_1_eq_Suc size_add_mset size_mset)
    ultimately have "q_heap pq'" using l2 by (simp add: heap_ord_take)
    moreover have "inst_deadline (snd pq (fst pq ! 0)) \<le> inst_deadline (snd pq b)" if b: "b \<in> set (fst pq)" for b
    proof -
      obtain i where i: "i < length (fst pq)" "b = fst pq ! i" using b by (auto simp: in_set_conv_nth)
      with heap_root_least [OF h i(1)] n show ?thesis by (simp add: q_keys_nth)
    qed
    ultimately show "q_heap pq' \<and> (\<forall>b \<in> set (fst pq). inst_deadline (snd pq (fst pq ! 0)) \<le> inst_deadline (snd pq b))"
      by blast
  qed
qed

text \<open>
  \<open>update\<close> after the deadline of \<open>a\<close> changed: at a position other than the head the heap is
  restored; at the head nothing is done.
\<close>

lemma update_correct:
  assumes inv: "q_inv pq" and a: "a \<in> set (fst pq)"
  obtains pq' where "q_update a pq = Ret pq'" "q_same pq pq'"
    and "inst_index (snd pq a) = 0 \<Longrightarrow> pq' = pq"
    and "0 < inst_index (snd pq a) \<Longrightarrow> heap_defect (q_keys pq) (length (fst pq)) (nat (inst_index (snd pq a))) \<Longrightarrow> q_heap pq'"
proof (cases "0 < inst_index (snd pq a)")
  case False
  moreover have "0 \<le> inst_index (snd pq a)" using q_inv_nth(3) [OF inv a] .
  ultimately show ?thesis using that [of pq] by (simp add: q_update_def)
next
  case True
  let ?i = "nat (inst_index (snd pq a))" and ?n = "length (fst pq)"
  let ?pq = "heap_Fix q_Less q_Swap pq ?i ?n"
  have i: "?i < ?n" using q_inv_nth(1) [OF inv a] .
  have same: "q_same pq ?pq" using i by (rule q_same_Fix) simp
  show ?thesis
  proof (rule that [of ?pq])
    show "q_update a pq = Ret ?pq" using True i by (simp add: q_update_def q_Len_def)
    show "q_same pq ?pq" by (rule same)
    show "?pq = pq" if "inst_index (snd pq a) = 0" using that True by simp
    show "q_heap ?pq" if "heap_defect (q_keys pq) ?n ?i"
      using deadlines.Fix_heap [OF that i] q_same_length [OF same] by simp
  qed
qed

text \<open>
  \<open>remove\<close>: at a position other than the head the instance leaves the queue, which is a heap
  again if the removed instance was its only defect; at the head nothing is done.
\<close>

lemma q_heap_Remove_Fix:
  "q_heap_Remove i pq = (if q_Len pq \<le> i then Panics else Ret (q_Pop
     (if q_Len pq - 1 \<noteq> i then heap_Fix q_Less q_Swap (q_Swap i (q_Len pq - 1) pq) i (q_Len pq - 1) else pq)))"
  by (simp add: q_heap_Remove_def heap_Fix_def Let_def)

lemma heap_Remove_correct:
  assumes inv: "q_inv pq" and i: "i < length (fst pq)"
  obtains pq' where "q_heap_Remove i pq = Ret (fst pq ! i, pq')" and "q_inv pq'"
    and "mset (fst pq) = add_mset (fst pq ! i) (mset (fst pq'))" and "erase (snd pq') = erase (snd pq)"
    and "fst pq ! i \<notin> set (fst pq')"
    and "heap_defect (q_keys pq) (length (fst pq)) i \<Longrightarrow> q_heap pq'"
proof -
  define n where "n = length (fst pq) - 1"
  define p1 where "p1 = q_Swap i n pq"
  define p2 where "p2 = (if n \<noteq> i then heap_Fix q_Less q_Swap p1 i n else pq)"
  have n: "i \<le> n" "n < length (fst pq)" "length (fst pq) = Suc n" using i by (auto simp: n_def)
  have s1: "q_same pq p1" unfolding p1_def using n i by (intro q_same_Swap) simp_all
  then have l1: "length (fst p1) = Suc n" using n q_same_length by metis
  have same: "q_same pq p2"
    using s1 q_same_trans [OF s1 q_same_Fix [of i n p1]] l1 n by (auto simp: p2_def)
  then have l2: "length (fst p2) = Suc n" using n q_same_length by metis
  have "q_at n (fst pq ! i) p1" unfolding p1_def using n i by (intro q_at_Swap_last) simp_all
  then have "q_at n (fst pq ! i) p2" using n q_at_Fix [of n "fst pq ! i" p1 i] by (auto simp: p2_def q_at_def)
  then obtain pq' where pop: "q_Pop p2 = (fst pq ! i, pq')" using q_at_last l2 by blast
  have i2: "q_inv p2" and ne2: "fst p2 \<noteq> []" using same inv l2 by (auto simp: q_same_def)
  note P = Pop_correct [OF i2 ne2 pop]
  show thesis
  proof
    show "q_heap_Remove i pq = Ret (fst pq ! i, pq')"
      using pop i unfolding q_heap_Remove_Fix q_Len_def p2_def p1_def n_def by simp
    show "q_inv pq'" by (rule P)
    show "mset (fst pq) = add_mset (fst pq ! i) (mset (fst pq'))" using P(3) same by (simp add: q_same_def)
    show "fst pq ! i \<notin> set (fst pq')" by (rule P)
    show "erase (snd pq') = erase (snd pq)" using P(4) same by (simp add: q_same_def)
    assume h: "heap_defect (q_keys pq) (length (fst pq)) i"
    have "heap_ord (q_keys p2) n"
    proof (cases "n = i")
      case True
      with h n show ?thesis by (auto simp: p2_def intro: heap_defect_last)
    next
      case False
      have "heap_defect (lswap i n (q_keys pq)) n i" using h n by (intro heap_defect_swap_last) simp_all
      then have "heap_defect (q_keys p1) n i" using n i by (simp add: p1_def q_keys_Swap)
      then have "heap_ord (q_keys (heap_Fix q_Less q_Swap p1 i n)) n"
        using False n l1 by (intro deadlines.Fix_heap) simp_all
      with False show ?thesis by (simp add: p2_def)
    qed
    moreover have "q_keys pq' = take n (q_keys p2)" using P(5) l2 by (simp add: butlast_conv_take)
    moreover have "length (fst pq') = n"
      using P(3) l2 by (metis add_diff_cancel_left' plus_1_eq_Suc size_add_mset size_mset)
    ultimately show "q_heap pq'" using l2 by (simp add: heap_ord_take)
  qed
qed

lemma remove_correct:
  assumes inv: "q_inv pq" and a: "a \<in> set (fst pq)"
  obtains pq' where "q_remove a pq = Ret pq'" "q_inv pq'" "erase (snd pq') = erase (snd pq)"
    and "inst_index (snd pq a) = 0 \<Longrightarrow> pq' = pq"
    and "0 < inst_index (snd pq a) \<Longrightarrow> mset (fst pq) = add_mset a (mset (fst pq')) \<and> a \<notin> set (fst pq') \<and>
      (heap_defect (q_keys pq) (length (fst pq)) (nat (inst_index (snd pq a))) \<longrightarrow> q_heap pq')"
proof (cases "0 < inst_index (snd pq a)")
  case False
  moreover have "0 \<le> inst_index (snd pq a)" using q_inv_nth(3) [OF inv a] .
  ultimately show ?thesis using that [of pq] inv by (simp add: q_remove_def)
next
  case True
  let ?i = "nat (inst_index (snd pq a))"
  have i: "?i < length (fst pq)" and at: "fst pq ! ?i = a" using q_inv_nth [OF inv a] by simp_all
  from heap_Remove_correct [OF inv i] obtain pq' where r: "q_heap_Remove ?i pq = Ret (a, pq')"
    and inv': "q_inv pq'" and m: "mset (fst pq) = add_mset a (mset (fst pq'))" and e: "erase (snd pq') = erase (snd pq)"
    and out: "a \<notin> set (fst pq')" and h: "heap_defect (q_keys pq) (length (fst pq)) ?i \<Longrightarrow> q_heap pq'"
    unfolding at by blast
  have "set_index a (- 1) (snd pq') = snd pq'"
    using q_invD(3) [OF inv' out] by (auto simp: set_index_def fun_eq_iff)
  then have "q_remove a pq = Ret pq'" using True r by (simp add: q_remove_def)
  then show ?thesis using inv' e m out h True by (intro that [of pq']) simp_all
qed

text \<open>
  (C7) The deadline queue is a priority queue: on a heap whose back pointers are right, \<open>enqueue\<close>
  adds one instance and \<open>dequeue\<close> takes out one with the least deadline; both leave a heap with right
  back pointers, and touch nothing else of the instances.
\<close>

theorem deadline_queue_correct:
  assumes "q_inv pq" "q_heap pq"
  shows "(a \<notin> set (fst pq) \<longrightarrow> q_inv (q_enqueue a pq) \<and> q_heap (q_enqueue a pq) \<and>
      mset (fst (q_enqueue a pq)) = add_mset a (mset (fst pq)) \<and> erase (snd (q_enqueue a pq)) = erase (snd pq)) \<and>
    (fst pq \<noteq> [] \<longrightarrow> (\<exists>b pq'. q_dequeue pq = Ret (b, pq') \<and> q_inv pq' \<and> q_heap pq' \<and>
      mset (fst pq) = add_mset b (mset (fst pq')) \<and> erase (snd pq') = erase (snd pq) \<and>
      (\<forall>c \<in> set (fst pq). inst_deadline (snd pq b) \<le> inst_deadline (snd pq c))))"
proof (intro conjI impI)
  assume "a \<notin> set (fst pq)"
  note e = enqueue_correct [OF assms(1) this]
  then show "q_inv (q_enqueue a pq)" "q_heap (q_enqueue a pq)" "mset (fst (q_enqueue a pq)) = add_mset a (mset (fst pq))"
    "erase (snd (q_enqueue a pq)) = erase (snd pq)" using assms(2) by simp_all
next
  assume ne: "fst pq \<noteq> []"
  show "\<exists>b pq'. q_dequeue pq = Ret (b, pq') \<and> q_inv pq' \<and> q_heap pq' \<and> mset (fst pq) = add_mset b (mset (fst pq')) \<and>
      erase (snd pq') = erase (snd pq) \<and> (\<forall>c \<in> set (fst pq). inst_deadline (snd pq b) \<le> inst_deadline (snd pq c))"
    by (rule dequeue_correct [OF assms(1) ne]) (use assms(2) in blast)
qed

definition ex_store :: "Time list \<Rightarrow> unit store" where
  "ex_store ts a = \<lparr>inst_id = a, inst_state = 0, inst_data = None, inst_parent = True, inst_flaps = [], inst_start = 0,
     inst_deadline = (if a < length ts then ts ! a else 0), inst_index = (if a < length ts then int a else - 1), inst_visits = []\<rparr>"

theorem deadline_queue_correct_witness:
  "\<exists>b pq'. q_dequeue ([0, 1], ex_store [3, 5]) = Ret (b, pq') \<and> (\<forall>c \<in> {0, 1}. inst_deadline (ex_store [3, 5] b) \<le> inst_deadline (ex_store [3, 5] c))"
proof -
  have inv: "q_inv ([0, 1], ex_store [3, 5])" by (auto simp: q_inv_def ex_store_def less_Suc_eq)
  have k: "q_keys ([0, 1], ex_store [3, 5]) = [3, 5]" by (simp add: q_keys_def ex_store_def)
  have heap: "q_heap ([0, 1], ex_store [3, 5])" unfolding k by (auto simp: heap_ord_def less_Suc_eq)
  from deadline_queue_correct [OF inv heap, of 2] show ?thesis by auto
qed

end
