(* ===== verification/Fsm_Set.thy ===== *)
theory Fsm_Set
  imports Fsm_Queue
begin

text \<open>
  The set of instances of \<open>pkg/fsm/set.go\<close>: its state, every handler the transaction goroutine
  runs, and the invariant the handlers keep. Handlers are state passing; a handler that sends on a
  full channel never returns (\<open>Blocks\<close>), a write to a nil map or an endless recursion takes the
  process down (\<open>Panics\<close>). Log statements are left out.
\<close>

named_theorems set_simps \<open>unfolding of the set's handlers\<close>

section \<open>State\<close>

record Options =
  opt_Name :: string
  opt_BufferSize :: int
  opt_IgnoreUndefinedStates :: bool
  opt_IgnoreUndefinedTransitions :: bool
  opt_IgnoreUndefinedSignals :: bool

definition defaultBufferSize :: int where
  "defaultBufferSize = 100"

definition DefaultOptions :: "string \<Rightarrow> Options" where
  "DefaultOptions name = \<lparr>opt_Name = name, opt_BufferSize = defaultBufferSize,
     opt_IgnoreUndefinedStates = True, opt_IgnoreUndefinedTransitions = True, opt_IgnoreUndefinedSignals = True\<rparr>"

text \<open>The options of a call that passes none: the zero value.\<close>

definition zeroOptions :: Options where
  "zeroOptions = \<lparr>opt_Name = [], opt_BufferSize = 0,
     opt_IgnoreUndefinedStates = False, opt_IgnoreUndefinedTransitions = False, opt_IgnoreUndefinedSignals = False\<rparr>"

record 'd event =
  ev_instance :: ID
  ev_signal :: Signal
  ev_data :: "'d option"

text \<open>
  What travels on the \<open>transactions\<close> channel: the closures built by the input goroutine in \<open>run\<close>,
  and those \<open>raise\<close> puts there (\<open>TRaise\<close>). A read only looks at the set.
\<close>

datatype 'd txn = TClock | TAdd Index | TDelete ID | TEvent "'d event" | TRaise "'d event" | TRead

text \<open>
  The set. \<open>set_store\<close> and \<open>set_fresh\<close> are the memory the instance pointers refer to and its
  next free address; \<open>set_errors\<close> is what was offered to the \<open>errors\<close> channel, \<open>set_replies\<close> what
  was sent back to callers of \<open>Add\<close>, \<open>set_world\<close> the outside world the actions change.
\<close>

record ('d, 'w) fset =
  set_options :: Options
  set_spec :: "('d, 'w) Spec"
  set_now :: Time
  set_next :: ID
  set_members :: "(ID, addr) gomap"
  set_bystate :: "(Index, (ID, addr) gomap) gomap"
  set_deadlines :: "addr list"
  set_transactions :: "'d txn list"
  set_store :: "'d store"
  set_fresh :: addr
  set_errors :: "fsm_error list"
  set_replies :: "ID list"
  set_world :: 'w

definition no_instance :: "'d finstance" where
  "no_instance = \<lparr>inst_id = 0, inst_state = 0, inst_data = None, inst_parent = False, inst_flaps = [],
     inst_start = 0, inst_deadline = 0, inst_index = - 1, inst_visits = []\<rparr>"

text \<open>\<open>make(chan *txn, n)\<close> with a negative \<open>n\<close> panics.\<close>

definition NewSet :: "('d, 'w) Spec \<Rightarrow> Options option \<Rightarrow> 'w \<Rightarrow> ('d, 'w) fset outcome" where
  "NewSet spec optional w = (let
     opts = (case optional of None \<Rightarrow> zeroOptions | Some v \<Rightarrow> v);
     opts = (if opt_BufferSize opts = 0 then opts\<lparr>opt_BufferSize := defaultBufferSize\<rparr> else opts)
   in if opt_BufferSize opts < 0 then Panics
      else Ret \<lparr>set_options = opts, set_spec = spec, set_now = 0, set_next = 0, set_members = [],
        set_bystate = map (\<lambda>(i, _). (i, [])) (sp_states spec), set_deadlines = newQueue,
        set_transactions = [], set_store = (\<lambda>_. no_instance), set_fresh = 0, set_errors = [],
        set_replies = [], set_world = w\<rparr>)"

section \<open>Handlers\<close>

definition raise :: "ID \<Rightarrow> Signal \<Rightarrow> ('d, 'w) fset \<Rightarrow> ('d, 'w) fset outcome" where
  "raise iid signal s =
     (if \<not> gm_has (sp_signals (set_spec s)) signal then Ret s
      else if opt_BufferSize (set_options s) \<le> int (length (set_transactions s)) then Blocks
      else Ret (s\<lparr>set_transactions := set_transactions s @ [TRaise \<lparr>ev_instance = iid, ev_signal = signal, ev_data = None\<rparr>]\<rparr>))"

text \<open>
  \<open>handleError\<close> first formats the error, which does not return for three of the error types; then
  it offers the error on the channel unless the options silence it.
\<close>

definition handleError :: "fsm_error \<Rightarrow> ('d, 'w) fset \<Rightarrow> ('d, 'w) fset outcome" where
  "handleError e s = (case Error e of None \<Rightarrow> Panics | Some _ \<Rightarrow>
     (case e of
        ErrUnknownState _ \<Rightarrow> if opt_IgnoreUndefinedStates (set_options s) then Ret s
          else Ret (s\<lparr>set_errors := set_errors s @ [e]\<rparr>)
      | ErrUnknownTransition _ _ _ \<Rightarrow> if opt_IgnoreUndefinedTransitions (set_options s) then Ret s
          else Ret (s\<lparr>set_errors := set_errors s @ [e]\<rparr>)
      | ErrUnknownSignal _ _ _ \<Rightarrow> if opt_IgnoreUndefinedSignals (set_options s) then Ret s
          else Ret (s\<lparr>set_errors := set_errors s @ [e]\<rparr>)
      | _ \<Rightarrow> Ret (s\<lparr>set_errors := set_errors s @ [e]\<rparr>)))"

definition set_queue :: "'d pqueue \<Rightarrow> ('d, 'w) fset \<Rightarrow> ('d, 'w) fset" where
  "set_queue pq s = s\<lparr>set_deadlines := fst pq, set_store := snd pq\<rparr>"

definition processDeadline :: "addr \<Rightarrow> Index \<Rightarrow> ('d, 'w) fset \<Rightarrow> (('d, 'w) fset \<times> fsm_error option) outcome" where
  "processDeadline a state s = (case expiry (set_spec s) state of
     Inl e \<Rightarrow> Ret (s, Some e)
   | Inr exp \<Rightarrow> (let
       ttl = (case exp of None \<Rightarrow> 0 | Some e \<Rightarrow> exp_TTL e);
       inst = instance_update state (set_now s) ttl (set_store s a);
       pq = (set_deadlines s, (set_store s)(a := inst))
     in if - 1 < inst_index inst then
          if 0 < inst_deadline inst
          then andthen (q_update a pq) (\<lambda>pq. Ret (set_queue pq s, None))
          else andthen (q_remove a pq) (\<lambda>pq. Ret (set_queue pq s, None))
        else if 0 < inst_deadline inst then Ret (set_queue (q_enqueue a pq) s, None)
        else Ret (set_queue pq s, None)))"

definition processVisitLimit :: "addr \<Rightarrow> Index \<Rightarrow> ('d, 'w) fset \<Rightarrow> (('d, 'w) fset \<times> fsm_error option) outcome" where
  "processVisitLimit a state s = (case visit (set_spec s) state of
     Inl e \<Rightarrow> Ret (s, Some e)
   | Inr None \<Rightarrow> Ret (s, None)
   | Inr (Some limit) \<Rightarrow>
       if 0 < lim_Value limit \<and> gm_get0 0 (inst_visits (set_store s a)) state = lim_Value limit
       then andthen (raise (inst_id (set_store s a)) (lim_Raise limit) s) (\<lambda>s. Ret (s, None))
       else Ret (s, None))"

text \<open>\<open>delete(s.bystate[state], iid)\<close> and \<open>s.bystate[state][iid] = inst\<close>; the latter panics on a nil map.\<close>

definition bystate_delete :: "Index \<Rightarrow> ID \<Rightarrow> (Index, (ID, addr) gomap) gomap \<Rightarrow> (Index, (ID, addr) gomap) gomap" where
  "bystate_delete state iid b = (case gm_get b state of None \<Rightarrow> b | Some m \<Rightarrow> gm_put state (gm_del iid m) b)"

definition bystate_put :: "Index \<Rightarrow> ID \<Rightarrow> addr \<Rightarrow> (Index, (ID, addr) gomap) gomap \<Rightarrow> (Index, (ID, addr) gomap) gomap outcome" where
  "bystate_put state iid a b = (case gm_get b state of None \<Rightarrow> Panics | Some m \<Rightarrow> Ret (gm_put state (gm_put iid a m) b))"

definition handleAdd :: "Index \<Rightarrow> ('d, 'w) fset \<Rightarrow> (('d, 'w) fset \<times> fsm_error option) outcome" where
  "handleAdd initial s = (let
     iid = set_next s;
     a = set_fresh s;
     new = \<lparr>inst_id = iid, inst_state = initial, inst_data = None, inst_parent = True, inst_flaps = newFlaps,
       inst_start = 0, inst_deadline = 0, inst_index = - 1, inst_visits = [(initial, 1)]\<rparr>;
     s = s\<lparr>set_next := wrapu64 (iid + 1), set_store := (set_store s)(a := new), set_fresh := Suc a\<rparr>
   in andthen (processDeadline a initial s) (\<lambda>(s, err). case err of
        Some e \<Rightarrow> Ret (s, Some e)
      | None \<Rightarrow> andthen (bystate_put initial iid a (set_bystate s)) (\<lambda>b.
          Ret (s\<lparr>set_members := gm_put iid a (set_members s), set_bystate := b,
                set_replies := set_replies s @ [iid]\<rparr>, None))))"

definition handleDelete :: "ID \<Rightarrow> ('d, 'w) fset \<Rightarrow> ('d, 'w) fset \<times> fsm_error option" where
  "handleDelete iid s = (case gm_get (set_members s) iid of
     None \<Rightarrow> (s, Some (ErrUnknownFSM iid))
   | Some a \<Rightarrow> (s\<lparr>set_members := gm_del iid (set_members s),
       set_bystate := bystate_delete (inst_state (set_store s a)) iid (set_bystate s),
       set_store := (set_store s)(a := (set_store s a)\<lparr>inst_id := 0, inst_parent := False\<rparr>)\<rparr>, None))"

definition set_tick :: "('d, 'w) fset \<Rightarrow> ('d, 'w) fset" where
  "set_tick s = s\<lparr>set_now := wrap64 (set_now s + 1)\<rparr>"

text \<open>The body of the loop of \<open>handleClockTick\<close> after the head \<open>a\<close> was taken off the queue.\<close>

definition fire :: "addr \<Rightarrow> ('d, 'w) fset \<Rightarrow> (('d, 'w) fset \<times> fsm_error option) outcome" where
  "fire a s = (let
     reset = (\<lambda>s. s\<lparr>set_store := (set_store s)(a := (set_store s a)\<lparr>inst_deadline := - 1, inst_index := - 1\<rparr>)\<rparr>)
   in if 0 < inst_deadline (set_store s a)
      then (case expiry (set_spec s) (inst_state (set_store s a)) of
          Inl e \<Rightarrow> Ret (s, Some e)
        | Inr None \<Rightarrow> Ret (reset s, None)
        | Inr (Some ttl) \<Rightarrow> andthen (raise (inst_id (set_store s a)) (exp_Raise ttl) s) (\<lambda>s. Ret (reset s, None)))
      else Ret (reset s, None))"

text \<open>The loop runs at most once per element of the queue; \<open>n\<close> counts down from its length.\<close>

fun tick_loop :: "nat \<Rightarrow> ('d, 'w) fset \<Rightarrow> (('d, 'w) fset \<times> fsm_error option) outcome" where
  "tick_loop 0 s = Ret (s, None)"
| "tick_loop (Suc n) s = (case q_peek (set_deadlines s, set_store s) of
     None \<Rightarrow> Ret (s, None)
   | Some a \<Rightarrow>
       if set_now s < inst_deadline (set_store s a) then Ret (s, None)
       else andthen (q_dequeue (set_deadlines s, set_store s)) (\<lambda>(a, pq).
         andthen (fire a (set_queue pq s)) (\<lambda>(s, err). case err of
           Some e \<Rightarrow> Ret (s, Some e)
         | None \<Rightarrow> tick_loop n s)))"

definition handleClockTick :: "('d, 'w) fset \<Rightarrow> (('d, 'w) fset \<times> fsm_error option) outcome" where
  "handleClockTick s = tick_loop (length (set_deadlines s)) (set_tick s)"

text \<open>Flap detection: \<open>Some\<close> of the signal to raise when the limit is reached, and the recorded history.\<close>

definition flap_check :: "('d, 'w) Spec \<Rightarrow> Index \<Rightarrow> Index \<Rightarrow> Index list \<Rightarrow> Index list \<times> Signal option" where
  "flap_check spec current next history = (case flap spec current next of
     None \<Rightarrow> (history, None)
   | Some limit \<Rightarrow>
       if 0 < fl_Count limit
       then let history = flaps_record history current next
         in (history, if fl_Count limit \<le> flaps_count history current next then Some (fl_Raise limit) else None)
       else (history, None))"

text \<open>Running the action: the world after it and the state to go to.\<close>

definition run_action :: "addr \<Rightarrow> Signal \<Rightarrow> Index \<Rightarrow> Index \<Rightarrow> ('d, 'w) Action option \<Rightarrow> ('d, 'w) fset \<Rightarrow> (('d, 'w) fset \<times> Index) outcome" where
  "run_action a signal current next action s = (case action of
     None \<Rightarrow> Ret (s, next)
   | Some act \<Rightarrow> (case act (inst_id (set_store s a)) (inst_data (set_store s a)) (set_world s) of (failed, w) \<Rightarrow>
       let s = s\<lparr>set_world := w\<rparr>
       in if failed then (case Spec_error (set_spec s) current signal of
              Inl e \<Rightarrow> andthen (handleError e s) (\<lambda>s. Ret (s, next))
            | Inr alt \<Rightarrow> Ret (s, alt))
          else Ret (s, next)))"

text \<open>The end of \<open>handleEvent\<close>: the instance lands in the new state.\<close>

definition enter :: "addr \<Rightarrow> Index \<Rightarrow> Index \<Rightarrow> ('d, 'w) fset \<Rightarrow> (('d, 'w) fset \<times> fsm_error option) outcome" where
  "enter a current next s = andthen (processDeadline a next s) (\<lambda>(s, err). case err of
     Some e \<Rightarrow> Ret (s, Some e)
   | None \<Rightarrow> andthen (bystate_put next (inst_id (set_store s a)) a
         (bystate_delete current (inst_id (set_store s a)) (set_bystate s))) (\<lambda>b.
       processVisitLimit a next (s\<lparr>set_bystate := b\<rparr>)))"

definition set_flaps :: "addr \<Rightarrow> Index list \<Rightarrow> ('d, 'w) fset \<Rightarrow> ('d, 'w) fset" where
  "set_flaps a history s = s\<lparr>set_store := (set_store s)(a := (set_store s a)\<lparr>inst_flaps := history\<rparr>)\<rparr>"

definition set_data :: "addr \<Rightarrow> 'd option \<Rightarrow> ('d, 'w) fset \<Rightarrow> ('d, 'w) fset" where
  "set_data a data s = (case data of None \<Rightarrow> s
     | Some d \<Rightarrow> s\<lparr>set_store := (set_store s)(a := (set_store s a)\<lparr>inst_data := Some d\<rparr>)\<rparr>)"

definition handleEvent :: "'d event \<Rightarrow> ('d, 'w) fset \<Rightarrow> (('d, 'w) fset \<times> fsm_error option) outcome" where
  "handleEvent ev s = (case gm_get (set_members s) (ev_instance ev) of
     None \<Rightarrow> Ret (s, Some (ErrUnknownFSM (ev_instance ev)))
   | Some a \<Rightarrow> (let current = inst_state (set_store s a)
     in case transition (set_spec s) current (ev_signal ev) of
          Inl e \<Rightarrow> Ret (s, Some e)
        | Inr (next, action) \<Rightarrow> (case flap_check (set_spec s) current next (inst_flaps (set_store s a)) of (history, hit) \<Rightarrow>
            let s = set_flaps a history s
            in case hit of
              Some sig \<Rightarrow> andthen (raise (inst_id (set_store s a)) sig s) (\<lambda>s. Ret (s, None))
            | None \<Rightarrow> andthen (run_action a (ev_signal ev) current next action (set_data a (ev_data ev) s))
                (\<lambda>(s, next). enter a current next s))))"

section \<open>Transactions\<close>

definition txn_func :: "'d txn \<Rightarrow> ('d, 'w) fset \<Rightarrow> (('d, 'w) fset \<times> fsm_error option) outcome" where
  "txn_func t s = (case t of
     TClock \<Rightarrow> handleClockTick s
   | TAdd initial \<Rightarrow> handleAdd initial s
   | TDelete iid \<Rightarrow> Ret (handleDelete iid s)
   | TEvent ev \<Rightarrow> handleEvent ev s
   | TRaise ev \<Rightarrow> handleEvent ev s
   | TRead \<Rightarrow> Ret (s, None))"

definition run_txn :: "'d txn \<Rightarrow> ('d, 'w) fset \<Rightarrow> ('d, 'w) fset outcome" where
  "run_txn t s = andthen (txn_func t s) (\<lambda>(s, err). case err of None \<Rightarrow> Ret s | Some e \<Rightarrow> handleError e s)"

text \<open>\<open>Signal\<close> refuses an unknown signal and otherwise hands the event to the input goroutine.\<close>

definition Set_Signal :: "Signal \<Rightarrow> ID \<Rightarrow> 'd option \<Rightarrow> ('d, 'w) fset \<Rightarrow> fsm_error + 'd txn" where
  "Set_Signal signal iid data s = (if \<not> gm_has (sp_signals (set_spec s)) signal then Inl (ErrUnknownSignal None signal 0)
     else Inr (TEvent \<lparr>ev_instance = iid, ev_signal = signal, ev_data = data\<rparr>))"

text \<open>The reads.\<close>

definition Set_Size :: "('d, 'w) fset \<Rightarrow> nat" where
  "Set_Size s = length (set_members s)"

definition CountByState :: "Index \<Rightarrow> ('d, 'w) fset \<Rightarrow> nat" where
  "CountByState state s = (case gm_get (set_bystate s) state of None \<Rightarrow> 0 | Some m \<Rightarrow> length m)"

definition Set_Get :: "ID \<Rightarrow> ('d, 'w) fset \<Rightarrow> addr option" where
  "Set_Get iid s = gm_get (set_members s) iid"

definition invalidState :: Index where
  "invalidState = - 99999"

definition FSM_State :: "ID \<Rightarrow> ('d, 'w) fset \<Rightarrow> Index" where
  "FSM_State iid s = (case gm_get (set_members s) iid of None \<Rightarrow> invalidState | Some a \<Rightarrow> inst_state (set_store s a))"

definition CanReceive :: "ID \<Rightarrow> Signal \<Rightarrow> ('d, 'w) fset \<Rightarrow> bool" where
  "CanReceive iid signal s = (case transition (set_spec s) (FSM_State iid s) signal of Inl _ \<Rightarrow> False | Inr _ \<Rightarrow> True)"

text \<open>\<open>ForEach\<close> and \<open>ForEachInState\<close>: the view returns whether to go on.\<close>

fun for_each :: "(ID \<Rightarrow> Index \<Rightarrow> 'd option \<Rightarrow> 'b \<Rightarrow> bool \<times> 'b) \<Rightarrow> 'd store \<Rightarrow> addr list \<Rightarrow> 'b \<Rightarrow> 'b" where
  "for_each view st [] b = b"
| "for_each view st (a # as) b = (case view (inst_id (st a)) (inst_state (st a)) (inst_data (st a)) b of
     (go, b) \<Rightarrow> if go then for_each view st as b else b)"

definition ForEach :: "(ID \<Rightarrow> Index \<Rightarrow> 'd option \<Rightarrow> 'b \<Rightarrow> bool \<times> 'b) \<Rightarrow> ('d, 'w) fset \<Rightarrow> 'b \<Rightarrow> 'b" where
  "ForEach view s b = for_each view (set_store s) (map snd (set_members s)) b"

definition ForEachInState :: "Index \<Rightarrow> (ID \<Rightarrow> Index \<Rightarrow> 'd option \<Rightarrow> 'b \<Rightarrow> bool \<times> 'b) \<Rightarrow> ('d, 'w) fset \<Rightarrow> 'b \<Rightarrow> 'b" where
  "ForEachInState c view s b = (case gm_get (set_bystate s) c of None \<Rightarrow> b
     | Some m \<Rightarrow> for_each view (set_store s) (map snd m) b)"

lemmas [set_simps] = raise_def handleError_def set_queue_def processDeadline_def processVisitLimit_def
  bystate_delete_def bystate_put_def handleAdd_def handleDelete_def set_tick_def fire_def handleClockTick_def
  flap_check_def run_action_def handleEvent_def txn_func_def run_txn_def

section \<open>Errors, deadlines and the state index\<close>

fun crashes :: "fsm_error \<Rightarrow> bool" where
  "crashes (ErrUnknownFSM _) = True"
| "crashes (ErrUnknownState _) = True"
| "crashes (ErrDuplicateState _) = True"
| "crashes _ = False"

fun ignored :: "Options \<Rightarrow> fsm_error \<Rightarrow> bool" where
  "ignored opts (ErrUnknownTransition _ _ _) = opt_IgnoreUndefinedTransitions opts"
| "ignored opts (ErrUnknownSignal _ _ _) = opt_IgnoreUndefinedSignals opts"
| "ignored opts _ = False"

lemma handleError_eq: "handleError e s = (if crashes e then Panics
    else if ignored (set_options s) e then Ret s else Ret (s\<lparr>set_errors := set_errors s @ [e]\<rparr>))"
  by (cases e) (simp_all add: handleError_def Error_unknown_does_not_return Error_message)

lemma raise_cases:
  obtains "raise iid sig s = Blocks" "opt_BufferSize (set_options s) \<le> int (length (set_transactions s))"
  | ts where "raise iid sig s = Ret (s\<lparr>set_transactions := set_transactions s @ ts\<rparr>)"
      "\<forall>t \<in> set ts. \<exists>ev. t = TRaise ev"
proof (cases "gm_has (sp_signals (set_spec s)) sig")
  case False
  then show thesis using that(2) [of "[]"] by (simp add: raise_def)
next
  case True
  then show thesis using that by (cases "opt_BufferSize (set_options s) \<le> int (length (set_transactions s))") (auto simp: raise_def)
qed

lemma q_inv_store: "inst_index i = inst_index (st a) \<Longrightarrow> q_inv (q, st(a := i)) \<longleftrightarrow> q_inv (q, st)"
proof -
  assume "inst_index i = inst_index (st a)"
  then have "inst_index ((st(a := i)) b) = inst_index (st b)" for b by simp
  then show ?thesis by (simp only: q_inv_def fst_conv snd_conv)
qed

definition ttl_of :: "('d, 'w) Spec \<Rightarrow> Index \<Rightarrow> Tick" where
  "ttl_of spec st = (case expiry spec st of Inr (Some e) \<Rightarrow> exp_TTL e | _ \<Rightarrow> 0)"

definition landed :: "addr \<Rightarrow> Index \<Rightarrow> ('d, 'w) fset \<Rightarrow> 'd store" where
  "landed a st s = (set_store s)(a := instance_update st (set_now s) (ttl_of (set_spec s) st) (set_store s a))"

lemma instance_update_sel [simp]:
  "inst_state (instance_update nxt now ttl i) = nxt" "inst_id (instance_update nxt now ttl i) = inst_id i"
  "inst_index (instance_update nxt now ttl i) = inst_index i" "inst_parent (instance_update nxt now ttl i) = inst_parent i"
  "inst_data (instance_update nxt now ttl i) = inst_data i" "inst_flaps (instance_update nxt now ttl i) = inst_flaps i"
  "inst_deadline (instance_update nxt now ttl i) = (if 0 < ttl then wrap64 (now + ttl) else 0)"
  "inst_visits (instance_update nxt now ttl i) = gm_put nxt (wrap64 (gm_get0 0 (inst_visits i) nxt + 1)) (inst_visits i)"
  by (simp_all add: instance_update_def)

text \<open>
  On a known state \<open>processDeadline\<close> always succeeds and keeps the queue's back pointers; apart from
  those it changes exactly the instance it is called for, which joins the queue if it has a deadline.
\<close>

lemma processDeadline_known:
  assumes inv: "q_inv (set_deadlines s, set_store s)" and known: "gm_has (sp_states (set_spec s)) st"
  obtains q st' where "processDeadline a st s = Ret (set_queue (q, st') s, None)" "q_inv (q, st')"
    "erase st' = erase (landed a st s)" "set q \<subseteq> insert a (set (set_deadlines s))"
    "0 < inst_deadline (landed a st s a) \<longrightarrow> a \<in> set q" "set (set_deadlines s) - {a} \<subseteq> set q"
proof -
  from known obtain e where e: "expiry (set_spec s) st = Inr e" by (auto simp: expiry_def elim: gm_hasE)
  let ?st = "landed a st s" and ?q = "set_deadlines s"
  have ttl: "(case e of None \<Rightarrow> 0 | Some x \<Rightarrow> exp_TTL x) = ttl_of (set_spec s) st"
    by (simp add: ttl_of_def e split: option.splits)
  have inv': "q_inv (?q, ?st)" using inv by (simp add: landed_def q_inv_store)
  note pd = processDeadline_def e sum.case ttl Let_def
  show thesis
  proof (cases "a \<in> set ?q")
    case True
    then have aq: "a \<in> set (fst (?q, ?st))" by simp
    then have idx: "- 1 < inst_index (?st a)" using q_inv_nth(3) [OF inv'] by fastforce
    show ?thesis
    proof (cases "0 < inst_deadline (?st a)")
      case True
      from update_correct [OF inv' aq] obtain pq where u: "q_update a (?q, ?st) = Ret pq" "q_same (?q, ?st) pq" by blast
      have "set (fst pq) = set ?q" using u(2) by (metis fst_conv q_same_def set_mset_mset)
      then show ?thesis using that [of "fst pq" "snd pq"] u inv' True idx \<open>a \<in> set ?q\<close>
        by (auto simp: pd q_same_def landed_def)
    next
      case False
      from remove_correct [OF inv' aq] obtain pq where r: "q_remove a (?q, ?st) = Ret pq" "q_inv pq" "erase (snd pq) = erase ?st"
        and z: "inst_index (?st a) = 0 \<Longrightarrow> pq = (?q, ?st)" and m: "0 < inst_index (?st a) \<Longrightarrow> mset ?q = add_mset a (mset (fst pq))"
        unfolding fst_conv snd_conv by blast
      have "set ?q = insert a (set (fst pq))"
      proof (cases "inst_index (?st a) = 0")
        case False
        with idx m have "mset ?q = add_mset a (mset (fst pq))" by simp
        then show ?thesis by (metis set_mset_add_mset_insert set_mset_mset)
      qed (use z \<open>a \<in> set ?q\<close> in auto)
      then show ?thesis using that [of "fst pq" "snd pq"] r False idx
        by (auto simp: pd landed_def)
    qed
  next
    case out: False
    then have idx: "inst_index (?st a) = - 1" using q_invD(3) [OF inv', of a] by simp
    show ?thesis
    proof (cases "0 < inst_deadline (?st a)")
      case True
      have "set (fst (q_enqueue a (?q, ?st))) = insert a (set ?q)"
        using enqueue_correct(2) [OF inv', of a] out by (metis fst_conv set_mset_add_mset_insert set_mset_mset)
      then show ?thesis using that [of "fst (q_enqueue a (?q, ?st))" "snd (q_enqueue a (?q, ?st))"]
          enqueue_correct [OF inv', of a] out True idx by (auto simp: pd landed_def)
    next
      case False
      then show ?thesis using that [of ?q ?st] inv' idx by (auto simp: pd landed_def)
    qed
  qed
qed

lemma processDeadline_unknown:
  "\<not> gm_has (sp_states (set_spec s)) st \<Longrightarrow> processDeadline a st s = Ret (s, Some (ErrUnknownState st))"
  by (simp add: processDeadline_def expiry_def gm_has_def)

section \<open>Invariant\<close>

text \<open>Members are found under their own id, were handed out by the counter and are in a known state.\<close>

definition members_ok :: "('d, 'w) fset \<Rightarrow> bool" where
  "members_ok s \<longleftrightarrow> gm_ok (set_members s) \<and> (\<forall>iid a. gm_get (set_members s) iid = Some a \<longrightarrow>
     a < set_fresh s \<and> inst_id (set_store s a) = iid \<and> inst_parent (set_store s a) \<and> iid < set_next s \<and>
     gm_has (sp_states (set_spec s)) (inst_state (set_store s a)))"

text \<open>\<open>bystate\<close> has a map for every state of the spec and it holds exactly the members in that state.\<close>

definition bystate_ok :: "('d, 'w) fset \<Rightarrow> bool" where
  "bystate_ok s \<longleftrightarrow> (\<forall>st. gm_has (set_bystate s) st \<longleftrightarrow> gm_has (sp_states (set_spec s)) st) \<and>
     (\<forall>st m. gm_get (set_bystate s) st = Some m \<longrightarrow> gm_ok m \<and>
       (\<forall>iid a. gm_get m iid = Some a \<longleftrightarrow> gm_get (set_members s) iid = Some a \<and> inst_state (set_store s a) = st))"

definition set_inv :: "('d, 'w) fset \<Rightarrow> bool" where
  "set_inv s \<longleftrightarrow> spec_ok (set_spec s) \<and> members_ok s \<and> bystate_ok s \<and>
     q_inv (set_deadlines s, set_store s) \<and> (\<forall>a \<in> set (set_deadlines s). a < set_fresh s \<and> gm_has (sp_states (set_spec s)) (inst_state (set_store s a)))"

lemma members_okD:
  assumes "members_ok s" "gm_get (set_members s) iid = Some a"
  shows "a < set_fresh s" "inst_id (set_store s a) = iid" "inst_parent (set_store s a)" "iid < set_next s"
    "gm_has (sp_states (set_spec s)) (inst_state (set_store s a))"
  using assms unfolding members_ok_def by blast+

lemma members_ok_gm_ok: "members_ok s \<Longrightarrow> gm_ok (set_members s)"
  by (simp add: members_ok_def)

lemma members_okI:
  assumes "gm_ok (set_members s)" "\<And>iid a. gm_get (set_members s) iid = Some a \<Longrightarrow> a < set_fresh s"
    "\<And>iid a. gm_get (set_members s) iid = Some a \<Longrightarrow> inst_id (set_store s a) = iid"
    "\<And>iid a. gm_get (set_members s) iid = Some a \<Longrightarrow> inst_parent (set_store s a)"
    "\<And>iid a. gm_get (set_members s) iid = Some a \<Longrightarrow> iid < set_next s"
    "\<And>iid a. gm_get (set_members s) iid = Some a \<Longrightarrow> gm_has (sp_states (set_spec s)) (inst_state (set_store s a))"
  shows "members_ok s"
  using assms unfolding members_ok_def by blast

lemma bystate_okD:
  assumes "bystate_ok s" "gm_get (set_bystate s) st = Some m"
  shows "gm_ok m" "gm_get m iid = Some a \<longleftrightarrow> gm_get (set_members s) iid = Some a \<and> inst_state (set_store s a) = st"
  using assms unfolding bystate_ok_def by blast+

lemma bystate_ok_has: "bystate_ok s \<Longrightarrow> gm_has (set_bystate s) st \<longleftrightarrow> gm_has (sp_states (set_spec s)) st"
  by (simp add: bystate_ok_def)

lemma set_invD:
  assumes "set_inv s"
  shows "spec_ok (set_spec s)" "members_ok s" "bystate_ok s" "q_inv (set_deadlines s, set_store s)"
    "a \<in> set (set_deadlines s) \<Longrightarrow> a < set_fresh s"
    "a \<in> set (set_deadlines s) \<Longrightarrow> gm_has (sp_states (set_spec s)) (inst_state (set_store s a))"
  using assms unfolding set_inv_def by blast+

text \<open>What the invariant does not look at.\<close>

lemma set_inv_frame [simp]:
  "set_inv (s\<lparr>set_transactions := ts\<rparr>) = set_inv s" "set_inv (s\<lparr>set_errors := es\<rparr>) = set_inv s"
  "set_inv (s\<lparr>set_replies := rs\<rparr>) = set_inv s" "set_inv (s\<lparr>set_world := w\<rparr>) = set_inv s"
  "set_inv (s\<lparr>set_now := t\<rparr>) = set_inv s" "set_inv (s\<lparr>set_options := opts\<rparr>) = set_inv s"
  by (simp_all add: set_inv_def members_ok_def bystate_ok_def)

text \<open>The invariant of a run: that of the set, and the channel is not over its capacity.\<close>

definition run_inv :: "('d, 'w) fset \<Rightarrow> bool" where
  "run_inv s \<longleftrightarrow> set_inv s \<and> int (length (set_transactions s)) \<le> opt_BufferSize (set_options s)"

lemma run_invD: "run_inv s \<Longrightarrow> set_inv s"
  by (simp add: run_inv_def)

text \<open>A write to one instance that leaves its identity, state and queue position alone.\<close>

lemma set_inv_write:
  assumes "set_inv s" "inst_id i = inst_id (set_store s a)" "inst_state i = inst_state (set_store s a)"
    "inst_parent i = inst_parent (set_store s a)" "inst_index i = inst_index (set_store s a)"
  shows "set_inv (s\<lparr>set_store := (set_store s)(a := i)\<rparr>)"
proof -
  have st: "inst_id (((set_store s)(a := i)) b) = inst_id (set_store s b)" "inst_state (((set_store s)(a := i)) b) = inst_state (set_store s b)"
    "inst_parent (((set_store s)(a := i)) b) = inst_parent (set_store s b)" for b using assms(2-4) by simp_all
  have "q_inv (set_deadlines s, (set_store s)(a := i)) = q_inv (set_deadlines s, set_store s)" using assms(5) by (rule q_inv_store)
  with assms(1) show ?thesis by (simp add: set_inv_def members_ok_def bystate_ok_def st del: fun_upd_apply)
qed

lemma bystate_delete_get:
  "gm_get (bystate_delete st iid b) st' = (case gm_get b st' of None \<Rightarrow> None | Some m \<Rightarrow> Some (if st' = st then gm_del iid m else m))"
  by (auto simp: bystate_delete_def split: option.splits)

lemma bystate_put_known:
  assumes "gm_has b st"
  obtains m where "gm_get b st = Some m" "bystate_put st iid a b = Ret (gm_put st (gm_put iid a m) b)"
  using assms by (auto simp: bystate_put_def elim: gm_hasE)

text \<open>
  Moving a member: delete it from the map of its old state, put it into the map of the new one.
\<close>

lemma bystate_move:
  assumes b: "bystate_ok s" and m: "members_ok s" and a: "gm_get (set_members s) iid = Some a" and cur: "inst_state (set_store s a) = current"
    and nxt: "gm_has (sp_states (set_spec s)) nxt"
    and st: "inst_state (st a) = nxt" "\<And>c. c \<noteq> a \<Longrightarrow> inst_state (st c) = inst_state (set_store s c)"
  obtains b' where "bystate_put nxt iid a (bystate_delete current iid (set_bystate s)) = Ret b'"
    "bystate_ok (s\<lparr>set_store := st, set_bystate := b'\<rparr>)"
proof -
  let ?b = "bystate_delete current iid (set_bystate s)"
  have has: "gm_has ?b k \<longleftrightarrow> gm_has (sp_states (set_spec s)) k" for k
    using bystate_ok_has [OF b, of k] by (auto simp: gm_has_def bystate_delete_get split: option.splits)
  from nxt have "gm_has ?b nxt" by (simp add: has)
  then obtain mn where mn: "gm_get ?b nxt = Some mn"
    and p: "bystate_put nxt iid a ?b = Ret (gm_put nxt (gm_put iid a mn) ?b)" by (rule bystate_put_known)
  have other: "inst_state (st c) = inst_state (set_store s c)" if "gm_get (set_members s) k = Some c" "k \<noteq> iid" for k c
    using st(2) that a members_okD(2) [OF m] by metis
  have old: "gm_ok mk \<and> (\<forall>k c. gm_get mk k = Some c \<longleftrightarrow> k \<noteq> iid \<and> gm_get (set_members s) k = Some c \<and> inst_state (set_store s c) = x)"
    if mk: "gm_get ?b x = Some mk" for x mk
  proof -
    from mk obtain m0 where m0: "gm_get (set_bystate s) x = Some m0" and eq: "mk = (if x = current then gm_del iid m0 else m0)"
      by (auto simp: bystate_delete_get split: option.splits)
    have "gm_ok m0" using bystate_okD(1) [OF b m0] .
    moreover have "gm_get m0 iid = None" if "x \<noteq> current"
      using a cur that by (cases "gm_get m0 iid") (auto simp: bystate_okD(2) [OF b m0])
    ultimately show ?thesis using eq a cur by (auto simp: bystate_okD(2) [OF b m0])
  qed
  have new: "gm_ok mk \<and> (\<forall>k c. gm_get mk k = Some c \<longleftrightarrow> gm_get (set_members s) k = Some c \<and> inst_state (st c) = x)"
    if mk: "gm_get (gm_put nxt (gm_put iid a mn) ?b) x = Some mk" for x mk
  proof (cases "x = nxt")
    case True
    with mk have eq: "mk = gm_put iid a mn" by simp
    have "gm_get mk k = Some c \<longleftrightarrow> gm_get (set_members s) k = Some c \<and> inst_state (st c) = x" for k c
      using old [OF mn] a st(1) True other [of k c] by (cases "k = iid") (auto simp: eq)
    then show ?thesis using old [OF mn] eq by simp
  next
    case False
    with mk have mk': "gm_get ?b x = Some mk" by simp
    have "gm_get mk k = Some c \<longleftrightarrow> gm_get (set_members s) k = Some c \<and> inst_state (st c) = x" for k c
      using old [OF mk'] a st(1) False other [of k c] by (cases "k = iid") auto
    then show ?thesis using old [OF mk'] by simp
  qed
  have "gm_has (gm_put nxt (gm_put iid a mn) ?b) k \<longleftrightarrow> gm_has (sp_states (set_spec s)) k" for k using has nxt by auto
  with new have "bystate_ok (s\<lparr>set_store := st, set_bystate := gm_put nxt (gm_put iid a mn) ?b\<rparr>)"
    by (simp add: bystate_ok_def del: gm_has_put gm_get_put)
  with p show thesis by (rule that)
qed


text \<open>What every handler does for a member that lands in a known state.\<close>

lemma member_lands:
  assumes inv: "set_inv s" and a: "gm_get (set_members s) iid = Some a" and nxt: "gm_has (sp_states (set_spec s)) nxt"
  obtains q st b where "processDeadline a nxt s = Ret (set_queue (q, st) s, None)" "erase st = erase (landed a nxt s)"
    "bystate_put nxt iid a (bystate_delete (inst_state (set_store s a)) iid (set_bystate s)) = Ret b"
    "set_inv (set_queue (q, st) s\<lparr>set_bystate := b\<rparr>)"
proof -
  note I = set_invD [OF inv]
  obtain q st where
    pd: "processDeadline a nxt s = Ret (set_queue (q, st) s, None)" and q: "q_inv (q, st)"
    and e: "erase st = erase (landed a nxt s)" and sub: "set q \<subseteq> insert a (set (set_deadlines s))"
    by (rule processDeadline_known [OF I(4) nxt, of a])
  have S: "inst_state (st c) = (if c = a then nxt else inst_state (set_store s c))"
    "inst_id (st c) = inst_id (set_store s c)" "inst_parent (st c) = inst_parent (set_store s c)" for c
    using erase_eqD [OF e, of c] by (simp_all add: landed_def)
  from S(1) have S': "inst_state (st a) = nxt" "\<And>c. c \<noteq> a \<Longrightarrow> inst_state (st c) = inst_state (set_store s c)" by simp_all
  from bystate_move [where s = s and st = st, OF I(3,2) a refl nxt S'] obtain b where
    b: "bystate_put nxt iid a (bystate_delete (inst_state (set_store s a)) iid (set_bystate s)) = Ret b"
    and ok: "bystate_ok (s\<lparr>set_store := st, set_bystate := b\<rparr>)" by blast
  have "members_ok (set_queue (q, st) s\<lparr>set_bystate := b\<rparr>)"
    using members_okD [OF I(2)] members_ok_gm_ok [OF I(2)] nxt
    by (intro members_okI) (simp_all add: set_queue_def S del: fun_upd_apply)
  moreover have "bystate_ok (set_queue (q, st) s\<lparr>set_bystate := b\<rparr>)"
    using ok by (simp add: bystate_ok_def set_queue_def)
  moreover have "c < set_fresh s \<and> gm_has (sp_states (set_spec s)) (inst_state (st c))" if "c \<in> set q" for c
    using that sub nxt S(1) I(5,6) [of c] members_okD(1) [OF I(2) a] by (auto split: if_splits)
  ultimately have "set_inv (set_queue (q, st) s\<lparr>set_bystate := b\<rparr>)"
    using I(1) q by (simp add: set_inv_def set_queue_def)
  with pd e b show thesis by (rule that)
qed

section \<open>The handlers keep the invariant and do not panic\<close>

text \<open>The postcondition of a handler: the invariant, and an error that can be reported.\<close>

definition fine :: "('d, 'w) fset \<times> fsm_error option \<Rightarrow> bool" where
  "fine r \<longleftrightarrow> run_inv (fst r) \<and> (case snd r of None \<Rightarrow> True | Some e \<Rightarrow> \<not> crashes e)"

lemma fine_simps [simp]: "fine (s, None) = run_inv s" "fine (s, Some e) = (run_inv s \<and> \<not> crashes e)"
  by (simp_all add: fine_def)

lemma safe_raise: "run_inv s \<Longrightarrow> safe run_inv (raise iid sig s)"
  by (simp add: raise_def run_inv_def)

lemma raise_keeps: "raise iid sig s = Ret s' \<Longrightarrow> \<exists>ts. s' = s\<lparr>set_transactions := set_transactions s @ ts\<rparr>"
  by (rule raise_cases [of iid sig s]) auto

lemma safe_processVisitLimit:
  assumes "run_inv s" "gm_has (sp_states (set_spec s)) st"
  shows "safe fine (processVisitLimit a st s)"
proof -
  from assms(2) obtain l where "visit (set_spec s) st = Inr l" by (auto simp: visit_def elim: gm_hasE)
  then show ?thesis using assms(1)
    by (auto simp: processVisitLimit_def split: option.splits intro!: safe_andthen [OF safe_raise])
qed

lemma transition_error: "transition s current signal = Inl e \<Longrightarrow> gm_has (sp_states s) current \<Longrightarrow> \<not> crashes e"
  by (auto simp: transition_def gm_has_def split: option.splits if_splits)

lemma Spec_error_error: "Spec_error s current signal = Inl e \<Longrightarrow> gm_has (sp_states s) current \<Longrightarrow> \<not> crashes e"
  by (auto simp: Spec_error_def gm_has_def split: option.splits if_splits)

text \<open>The action changes the world and picks a known state.\<close>

definition action_post :: "('d, 'w) fset \<Rightarrow> ('d, 'w) fset \<times> Index \<Rightarrow> bool" where
  "action_post s r \<longleftrightarrow> (\<exists>w es. fst r = s\<lparr>set_world := w, set_errors := es\<rparr>) \<and> gm_has (sp_states (set_spec s)) (snd r)"

lemma action_postI [simp]:
  assumes "gm_has (sp_states (set_spec s)) n"
  shows "action_post s (s, n)" "action_post s (s\<lparr>set_world := w\<rparr>, n)" "action_post s (s\<lparr>set_world := w, set_errors := es\<rparr>, n)"
proof -
  show "action_post s (s\<lparr>set_world := w, set_errors := es\<rparr>, n)" for w es using assms unfolding action_post_def by auto
  from this [of "set_errors s" "set_world s"] show "action_post s (s, n)" by simp
  have "s\<lparr>set_world := w, set_errors := set_errors s\<rparr> = s\<lparr>set_world := w\<rparr>" by simp
  then show "action_post s (s\<lparr>set_world := w\<rparr>, n)" using assms unfolding action_post_def by (metis fst_conv snd_conv)
qed

lemma safe_run_action:
  assumes inv: "spec_ok (set_spec s)" and cur: "gm_has (sp_states (set_spec s)) current" and nxt: "gm_has (sp_states (set_spec s)) nxt"
  shows "safe (action_post s) (run_action a sig current nxt action s)"
  using assms by (auto simp: run_action_def handleError_eq Let_def split: option.splits sum.splits prod.splits
      dest: Spec_error_error Spec_error_target_known)

lemma safe_enter:
  assumes run: "run_inv s" and a: "gm_get (set_members s) iid = Some a" and nxt: "gm_has (sp_states (set_spec s)) nxt"
  shows "safe fine (enter a (inst_state (set_store s a)) nxt s)"
proof -
  have inv: "set_inv s" using run by (rule run_invD)
  obtain q st b where L: "processDeadline a nxt s = Ret (set_queue (q, st) s, None)" "erase st = erase (landed a nxt s)"
    "bystate_put nxt iid a (bystate_delete (inst_state (set_store s a)) iid (set_bystate s)) = Ret b"
    "set_inv (set_queue (q, st) s\<lparr>set_bystate := b\<rparr>)"
    by (rule member_lands [OF inv a nxt])
  have "inst_id (st a) = iid"
    using erase_eqD(3) [OF L(2), of a] members_okD(2) [OF set_invD(2) [OF inv] a] by (simp add: landed_def)
  moreover have "run_inv (set_queue (q, st) s\<lparr>set_bystate := b\<rparr>)" using L(4) run by (simp add: run_inv_def set_queue_def)
  ultimately show ?thesis using L(3) safe_processVisitLimit [of "set_queue (q, st) s\<lparr>set_bystate := b\<rparr>" nxt a] nxt
    by (simp add: enter_def L(1) set_queue_def)
qed

lemma set_data_frame [simp]:
  "set_members (set_data a d s) = set_members s" "set_spec (set_data a d s) = set_spec s"
  "inst_state (set_store (set_data a d s) c) = inst_state (set_store s c)"
  "inst_id (set_store (set_data a d s) c) = inst_id (set_store s c)"
  by (simp_all add: set_data_def split: option.splits)

lemma set_flaps_frame [simp]:
  "set_members (set_flaps a h s) = set_members s" "set_spec (set_flaps a h s) = set_spec s"
  "inst_state (set_store (set_flaps a h s) c) = inst_state (set_store s c)"
  "inst_id (set_store (set_flaps a h s) c) = inst_id (set_store s c)"
  by (simp_all add: set_flaps_def)

lemma run_inv_flaps: "run_inv s \<Longrightarrow> run_inv (set_flaps a h s)"
  unfolding set_flaps_def run_inv_def by (simp add: set_inv_write)

lemma run_inv_data: "run_inv s \<Longrightarrow> run_inv (set_data a d s)"
  unfolding set_data_def run_inv_def by (auto split: option.splits intro: set_inv_write)

lemma safe_handleEvent:
  assumes run: "run_inv s" and m: "gm_has (set_members s) (ev_instance ev)"
  shows "safe fine (handleEvent ev s)"
proof -
  have inv: "set_inv s" using run by (rule run_invD)
  from m obtain a where a: "gm_get (set_members s) (ev_instance ev) = Some a" by (rule gm_hasE)
  let ?cur = "inst_state (set_store s a)"
  have cur: "gm_has (sp_states (set_spec s)) ?cur" using set_invD(2) [OF inv] a by (rule members_okD)
  show ?thesis
  proof (cases "transition (set_spec s) ?cur (ev_signal ev)")
    case (Inl e)
    then show ?thesis using transition_error [OF Inl cur] run by (simp add: handleEvent_def a)
  next
    case (Inr p)
    obtain nxt action where p: "p = (nxt, action)" by fastforce
    obtain h hit where fc: "flap_check (set_spec s) ?cur nxt (inst_flaps (set_store s a)) = (h, hit)" by fastforce
    have nxt: "gm_has (sp_states (set_spec s)) nxt"
      using transition_target_known [OF set_invD(1) [OF inv]] Inr p by blast
    let ?s = "set_data a (ev_data ev) (set_flaps a h s)"
    have inv': "run_inv ?s" by (intro run_inv_data run_inv_flaps run)
    have act: "safe (action_post ?s) (run_action a (ev_signal ev) ?cur nxt action ?s)"
      by (rule safe_run_action) (simp_all add: cur nxt set_invD(1) [OF inv])
    have "safe fine (enter a ?cur (snd r) (fst r))" if r: "action_post ?s r" for r
    proof -
      from r obtain w es where s3: "fst r = ?s\<lparr>set_world := w, set_errors := es\<rparr>" and nx: "gm_has (sp_states (set_spec s)) (snd r)"
        by (auto simp: action_post_def)
      then show ?thesis using safe_enter [of "fst r" "ev_instance ev" a "snd r"] inv' a by (simp add: run_inv_def)
    qed
    then have "safe fine (andthen (run_action a (ev_signal ev) ?cur nxt action ?s) (\<lambda>r. enter a ?cur (snd r) (fst r)))"
      by (rule safe_andthen [OF act])
    moreover have "safe fine (andthen (raise iid sig (set_flaps a h s)) (\<lambda>s. Ret (s, None)))" for iid sig
      using safe_raise [OF run_inv_flaps [OF run]] by (rule safe_andthen) simp
    ultimately show ?thesis by (cases hit) (simp_all add: handleEvent_def a Inr p fc case_prod_unfold Let_def)
  qed
qed

end
