(* ===== verification/Fsm_Run.thy ===== *)
theory Fsm_Run
  imports Fsm_Set
begin

text \<open>
  Runs of the set of \<open>pkg/fsm/set.go\<close>: what a clock tick fires, what adding and deleting do, and
  the interleavings of the two goroutines of \<open>run\<close> as a step relation with its reachable states.
\<close>

section \<open>The clock\<close>

definition fires :: "('d, 'w) Spec \<Rightarrow> 'd store \<Rightarrow> addr \<Rightarrow> bool" where
  "fires spec st a \<longleftrightarrow> 0 < inst_deadline (st a) \<and> 0 < ttl_of spec (inst_state (st a))"

definition ttl_signal :: "('d, 'w) Spec \<Rightarrow> Index \<Rightarrow> Signal" where
  "ttl_signal spec i = (case gm_get (sp_states spec) i of None \<Rightarrow> 0 | Some st \<Rightarrow> exp_Raise (st_TTL st))"

definition tick_event :: "('d, 'w) Spec \<Rightarrow> 'd store \<Rightarrow> addr \<Rightarrow> 'd txn" where
  "tick_event spec st a = TRaise \<lparr>ev_instance = inst_id (st a), ev_signal = ttl_signal spec (inst_state (st a)), ev_data = None\<rparr>"

definition reset :: "addr \<Rightarrow> ('d, 'w) fset \<Rightarrow> ('d, 'w) fset" where
  "reset a s = s\<lparr>set_store := (set_store s)(a := (set_store s a)\<lparr>inst_deadline := - 1, inst_index := - 1\<rparr>)\<rparr>"

lemma ttl_signal_known:
  assumes "spec_ok spec" "gm_has (sp_states spec) i" "0 < ttl_of spec i"
  shows "gm_has (sp_signals spec) (ttl_signal spec i)" "expiry spec i = Inr (Some \<lparr>exp_TTL = ttl_of spec i, exp_Raise = ttl_signal spec i\<rparr>)"
proof -
  from assms(2) obtain st where st: "gm_get (sp_states spec) i = Some st" by (rule gm_hasE)
  with assms(3) have pos: "0 < exp_TTL (st_TTL st)" by (auto simp: ttl_of_def expiry_def split: if_splits)
  show "gm_has (sp_signals spec) (ttl_signal spec i)"
    using spec_ok_state(3,4) [OF assms(1) st] pos by (simp add: limits_ok_def ttl_signal_def st)
  show "expiry spec i = Inr (Some \<lparr>exp_TTL = ttl_of spec i, exp_Raise = ttl_signal spec i\<rparr>)"
    using pos by (simp add: expiry_def ttl_of_def ttl_signal_def st)
qed

lemma expiry_none: "gm_has (sp_states spec) i \<Longrightarrow> \<not> 0 < ttl_of spec i \<Longrightarrow> expiry spec i = Inr None"
  by (auto simp: expiry_def ttl_of_def gm_has_def split: if_splits)

lemma fire_eq:
  assumes "spec_ok (set_spec s)" "gm_has (sp_states (set_spec s)) (inst_state (set_store s a))"
  shows "fire a s = (if \<not> fires (set_spec s) (set_store s) a then Ret (reset a s, None)
     else if opt_BufferSize (set_options s) \<le> int (length (set_transactions s)) then Blocks
     else Ret (reset a (s\<lparr>set_transactions := set_transactions s @ [tick_event (set_spec s) (set_store s) a]\<rparr>), None))"
proof (cases "0 < inst_deadline (set_store s a) \<and> 0 < ttl_of (set_spec s) (inst_state (set_store s a))")
  case True
  with assms show ?thesis
    by (simp add: fire_def fires_def ttl_signal_known raise_def tick_event_def reset_def Let_def)
next
  case False
  with assms show ?thesis by (auto simp: fire_def fires_def reset_def expiry_none Let_def)
qed

lemma set_inv_queue:
  assumes inv: "set_inv s" and q: "q_inv pq" and e: "erase (snd pq) = erase (set_store s)" and sub: "set (fst pq) \<subseteq> set (set_deadlines s)"
  shows "set_inv (set_queue pq s)"
proof -
  note E = erase_eqD [OF e]
  have "members_ok (set_queue pq s)" using set_invD(2) [OF inv] by (simp add: members_ok_def set_queue_def E)
  moreover have "bystate_ok (set_queue pq s)" using set_invD(3) [OF inv] by (simp add: bystate_ok_def set_queue_def E)
  ultimately show ?thesis using set_invD(1,5,6) [OF inv] q sub by (auto simp: set_inv_def set_queue_def E)
qed

lemma set_inv_reset:
  assumes inv: "set_inv s" and a: "a \<notin> set (set_deadlines s)"
  shows "set_inv (reset a s)"
  unfolding reset_def using inv q_invD(3) [OF set_invD(4) [OF inv], of a] a by (intro set_inv_write) simp_all

text \<open>One round of the loop: the head is taken out of the queue and fires or not.\<close>

lemma tick_round:
  assumes inv: "set_inv s" and ne: "set_deadlines s \<noteq> []" and due: "inst_deadline (set_store s (set_deadlines s ! 0)) \<le> set_now s"
  obtains s1 where "\<forall>n. tick_loop (Suc n) s =
      andthen (fire (set_deadlines s ! 0) s1) (\<lambda>(s, err). case err of Some e \<Rightarrow> Ret (s, Some e) | None \<Rightarrow> tick_loop n s)"
    "set_inv s1" "mset (set_deadlines s) = add_mset (set_deadlines s ! 0) (mset (set_deadlines s1))"
    "set_deadlines s ! 0 \<notin> set (set_deadlines s1)" "erase (set_store s1) = erase (set_store s)"
    "s1 = s\<lparr>set_deadlines := set_deadlines s1, set_store := set_store s1\<rparr>"
    "q_heap (set_deadlines s, set_store s) \<longrightarrow> q_heap (set_deadlines s1, set_store s1) \<and>
       (\<forall>b \<in> set (set_deadlines s). inst_deadline (set_store s (set_deadlines s ! 0)) \<le> inst_deadline (set_store s b))"
proof -
  let ?pq = "(set_deadlines s, set_store s)"
  have "fst ?pq \<noteq> []" using ne by simp
  from dequeue_correct [OF set_invD(4) [OF inv] this] obtain pq' where d: "q_dequeue ?pq = Ret (set_deadlines s ! 0, pq')"
    and q: "q_inv pq'" and m: "mset (set_deadlines s) = add_mset (set_deadlines s ! 0) (mset (fst pq'))"
    and out: "set_deadlines s ! 0 \<notin> set (fst pq')" and e: "erase (snd pq') = erase (set_store s)"
    and h: "q_heap ?pq \<Longrightarrow> q_heap pq' \<and> (\<forall>b \<in> set (set_deadlines s). inst_deadline (set_store s (set_deadlines s ! 0)) \<le> inst_deadline (set_store s b))"
    unfolding fst_conv snd_conv by metis
  have "set (fst pq') \<subseteq> set (set_deadlines s)" using m by (metis set_mset_mset set_mset_add_mset_insert subset_insertI)
  with set_inv_queue [OF inv q e] have inv': "set_inv (set_queue pq' s)" by simp
  show thesis
    by (rule that [of "set_queue pq' s"]) (use d inv' m out e h ne due in \<open>auto simp: set_queue_def q_peek_def\<close>)
qed

text \<open>
  The whole loop: it drains a list \<open>xs\<close> of expired entries and raises the TTL signal of those that
  fire, in that order, or blocks on the full channel. On a heap \<open>xs\<close> is all the expired entries, by
  deadline.
\<close>

definition drained :: "('d, 'w) fset \<Rightarrow> addr list \<Rightarrow> bool" where
  "drained s xs \<longleftrightarrow> distinct xs \<and> set xs \<subseteq> {a \<in> set (set_deadlines s). inst_deadline (set_store s a) \<le> set_now s} \<and>
     (q_heap (set_deadlines s, set_store s) \<longrightarrow>
        set xs = {a \<in> set (set_deadlines s). inst_deadline (set_store s a) \<le> set_now s} \<and>
        sorted (map (\<lambda>a. inst_deadline (set_store s a)) xs))"

definition tick_raises :: "('d, 'w) fset \<Rightarrow> addr list \<Rightarrow> 'd txn list" where
  "tick_raises s xs = map (tick_event (set_spec s) (set_store s)) (filter (fires (set_spec s) (set_store s)) xs)"

definition tick_done :: "('d, 'w) fset \<Rightarrow> addr list \<Rightarrow> ('d, 'w) fset \<Rightarrow> bool" where
  "tick_done s xs s' \<longleftrightarrow> set_inv s' \<and> set_transactions s' = set_transactions s @ tick_raises s xs \<and>
     set (set_deadlines s') = set (set_deadlines s) - set xs \<and>
     (\<forall>a. a \<notin> set xs \<longrightarrow> erase (set_store s') a = erase (set_store s) a) \<and>
     (\<forall>a. inst_state (set_store s' a) = inst_state (set_store s a)) \<and>
     set_members s' = set_members s \<and> set_now s' = set_now s \<and> set_next s' = set_next s \<and>
     set_spec s' = set_spec s \<and> set_options s' = set_options s"

lemma drained_Nil: "drained s []"
  if "set_deadlines s = [] \<or> set_now s < inst_deadline (set_store s (set_deadlines s ! 0))" "set_inv s"
proof -
  have "\<not> inst_deadline (set_store s a) \<le> set_now s"
    if a: "a \<in> set (set_deadlines s)" and h: "q_heap (set_deadlines s, set_store s)" for a
  proof -
    from a obtain i where i: "i < length (set_deadlines s)" "set_deadlines s ! i = a" by (auto simp: in_set_conv_nth)
    have "q_keys (set_deadlines s, set_store s) ! 0 \<le> q_keys (set_deadlines s, set_store s) ! i"
      using h i by (intro heap_root_least [where n = "length (set_deadlines s)"]) simp_all
    moreover have "set_deadlines s \<noteq> []" using i by auto
    ultimately show ?thesis using i \<open>set_deadlines s = [] \<or> _\<close> by (auto simp: q_keys_def)
  qed
  then show ?thesis by (auto simp: drained_def)
qed

lemma raises_cong:
  assumes "\<And>a. a \<in> set xs \<Longrightarrow> erase st a = erase st' a"
  shows "map (tick_event spec st) (filter (fires spec st) xs) = map (tick_event spec st') (filter (fires spec st') xs)"
proof -
  have "inst_deadline (st a) = inst_deadline (st' a) \<and> inst_state (st a) = inst_state (st' a) \<and> inst_id (st a) = inst_id (st' a)" if "a \<in> set xs" for a
    using assms [OF that] unfolding erase_def by (cases "st a"; cases "st' a") simp
  then show ?thesis by (induction xs) (auto simp: fires_def tick_event_def)
qed

lemma erase_sel: "erase st a = erase st' a \<Longrightarrow> inst_deadline (st a) = inst_deadline (st' a)"
  unfolding erase_def by (cases "st a"; cases "st' a") simp

lemma drained_Cons:
  assumes d: "drained s2 xs" and m: "mset (set_deadlines s) = add_mset a (mset (set_deadlines s2))" and a: "a \<notin> set (set_deadlines s2)"
    and e: "\<And>b. b \<noteq> a \<Longrightarrow> erase (set_store s2) b = erase (set_store s) b" and now: "set_now s2 = set_now s"
    and due: "inst_deadline (set_store s a) \<le> set_now s"
    and h: "q_heap (set_deadlines s, set_store s) \<longrightarrow> q_heap (set_deadlines s2, set_store s2) \<and>
       (\<forall>b \<in> set (set_deadlines s). inst_deadline (set_store s a) \<le> inst_deadline (set_store s b))"
  shows "drained s (a # xs)"
proof -
  have D: "set (set_deadlines s) = insert a (set (set_deadlines s2))" using m by (metis set_mset_add_mset_insert set_mset_mset)
  have sub: "set xs \<subseteq> set (set_deadlines s2)" and dx: "distinct xs" using d by (auto simp: drained_def)
  have dl: "inst_deadline (set_store s2 b) = inst_deadline (set_store s b)" if "b \<in> set (set_deadlines s2)" for b
    using e [of b] that a by (intro erase_sel) auto
  have mp: "map (\<lambda>b. inst_deadline (set_store s2 b)) xs = map (\<lambda>b. inst_deadline (set_store s b)) xs"
    using dl sub by auto
  have "a \<notin> set xs" using sub a by auto
  moreover have "set xs \<subseteq> {a \<in> set (set_deadlines s). inst_deadline (set_store s a) \<le> set_now s}"
    using d dl sub now by (auto simp: drained_def D)
  moreover have "set (a # xs) = {a \<in> set (set_deadlines s). inst_deadline (set_store s a) \<le> set_now s}
      \<and> sorted (map (\<lambda>a. inst_deadline (set_store s a)) (a # xs))" if hp: "q_heap (set_deadlines s, set_store s)"
  proof
    have x: "set xs = {a \<in> set (set_deadlines s2). inst_deadline (set_store s2 a) \<le> set_now s2}"
      and so: "sorted (map (\<lambda>b. inst_deadline (set_store s2 b)) xs)" using d h hp by (auto simp: drained_def)
    show "set (a # xs) = {a \<in> set (set_deadlines s). inst_deadline (set_store s a) \<le> set_now s}"
      using x due dl now by (auto simp: D)
    show "sorted (map (\<lambda>a. inst_deadline (set_store s a)) (a # xs))"
      using so h hp sub unfolding mp by (auto simp: D)
  qed
  ultimately show ?thesis using dx due unfolding drained_def by (auto simp: D)
qed

definition due :: "('d, 'w) fset \<Rightarrow> addr set" where
  "due s = {a \<in> set (set_deadlines s). inst_deadline (set_store s a) \<le> set_now s \<and> fires (set_spec s) (set_store s) a}"

definition tick_post :: "('d, 'w) fset \<Rightarrow> (('d, 'w) fset \<times> fsm_error option) outcome \<Rightarrow> bool" where
  "tick_post s r \<longleftrightarrow> (case r of
     Ret (s', err) \<Rightarrow> err = None \<and> int (length (set_transactions s')) \<le> opt_BufferSize (set_options s) \<and>
       (\<exists>xs. drained s xs \<and> tick_done s xs s')
   | Blocks \<Rightarrow> opt_BufferSize (set_options s) < int (length (set_transactions s) + card (due s))
   | Panics \<Rightarrow> False)"

text \<open>The state after the head \<open>a\<close> was dealt with, related to the state before.\<close>

definition tick_step :: "('d, 'w) fset \<Rightarrow> addr \<Rightarrow> ('d, 'w) fset \<Rightarrow> bool" where
  "tick_step s a s2 \<longleftrightarrow> set_inv s2 \<and> mset (set_deadlines s) = add_mset a (mset (set_deadlines s2)) \<and> a \<notin> set (set_deadlines s2) \<and>
     (\<forall>b. b \<noteq> a \<longrightarrow> erase (set_store s2) b = erase (set_store s) b) \<and>
     (\<forall>b. inst_state (set_store s2 b) = inst_state (set_store s b)) \<and>
     set_transactions s2 = set_transactions s @ tick_raises s [a] \<and>
     set_now s2 = set_now s \<and> set_spec s2 = set_spec s \<and> set_options s2 = set_options s \<and>
     set_members s2 = set_members s \<and> set_next s2 = set_next s \<and>
     (q_heap (set_deadlines s, set_store s) \<longrightarrow> q_heap (set_deadlines s2, set_store s2) \<and>
       (\<forall>b \<in> set (set_deadlines s). inst_deadline (set_store s a) \<le> inst_deadline (set_store s b)))"

lemma tick_step_erase: "tick_step s a s2 \<Longrightarrow> b \<noteq> a \<Longrightarrow> erase (set_store s2) b = erase (set_store s) b"
  by (simp add: tick_step_def)

lemma due_step:
  assumes st: "tick_step s a s2" and a: "inst_deadline (set_store s a) \<le> set_now s"
  shows "card (due s) = (if fires (set_spec s) (set_store s) a then Suc (card (due s2)) else card (due s2))"
proof -
  have D: "set (set_deadlines s) = insert a (set (set_deadlines s2))"
    using st unfolding tick_step_def by (metis set_mset_add_mset_insert set_mset_mset)
  have out: "a \<notin> set (set_deadlines s2)" using st by (simp add: tick_step_def)
  have "inst_deadline (set_store s2 b) = inst_deadline (set_store s b) \<and> inst_state (set_store s2 b) = inst_state (set_store s b)"
    if "b \<in> set (set_deadlines s2)" for b
  proof -
    have "erase (set_store s2) b = erase (set_store s) b" using st that out by (auto simp: tick_step_def)
    then show ?thesis unfolding erase_def by (cases "set_store s b"; cases "set_store s2 b") simp
  qed
  then have "due s = (if fires (set_spec s) (set_store s) a then insert a (due s2) else due s2)"
    using st a by (auto simp: due_def D fires_def tick_step_def)
  moreover have "a \<notin> due s2" "finite (due s2)" using out by (auto simp: due_def)
  ultimately show ?thesis by simp
qed

lemma tick_done_Cons:
  assumes st: "tick_step s a s2" and d: "tick_done s2 xs s'" and xs: "set xs \<subseteq> set (set_deadlines s2)"
  shows "tick_done s (a # xs) s'"
proof -
  have D: "set (set_deadlines s) = insert a (set (set_deadlines s2))"
    using st unfolding tick_step_def by (metis set_mset_add_mset_insert set_mset_mset)
  have out: "a \<notin> set (set_deadlines s2)" using st by (simp add: tick_step_def)
  have "tick_raises s2 xs = tick_raises s xs"
  proof -
    have "erase (set_store s2) b = erase (set_store s) b" if "b \<in> set xs" for b
      using tick_step_erase [OF st, of b] xs out that by auto
    moreover have "set_spec s2 = set_spec s" using st by (simp add: tick_step_def)
    ultimately show ?thesis unfolding tick_raises_def by (simp only: raises_cong [of xs "set_store s2" "set_store s"])
  qed
  then have "set_transactions s' = set_transactions s @ tick_raises s (a # xs)"
    using st d by (simp add: tick_step_def tick_done_def tick_raises_def)
  then show ?thesis using st d D out by (auto simp: tick_step_def tick_done_def)
qed

text \<open>One round, in terms of \<open>tick_step\<close>.\<close>

lemma reset_frame [simp]:
  "set_deadlines (reset a s) = set_deadlines s" "set_transactions (reset a s) = set_transactions s" "set_now (reset a s) = set_now s"
  "set_spec (reset a s) = set_spec s" "set_options (reset a s) = set_options s" "set_members (reset a s) = set_members s"
  "set_next (reset a s) = set_next s"
  by (simp_all add: reset_def)

lemma state_reset [simp]: "inst_state (set_store (reset a s) b) = inst_state (set_store s b)"
  by (simp add: reset_def)

lemma erase_reset: "b \<noteq> a \<Longrightarrow> erase (set_store (reset a s)) b = erase (set_store s) b"
  by (simp add: reset_def erase_def)

lemma tick_round_step:
  assumes inv: "set_inv s" and ne: "set_deadlines s \<noteq> []" and due: "inst_deadline (set_store s (set_deadlines s ! 0)) \<le> set_now s"
    and a: "a = set_deadlines s ! 0"
  shows "(fires (set_spec s) (set_store s) a \<and> opt_BufferSize (set_options s) \<le> int (length (set_transactions s)) \<and>
      tick_loop (Suc n) s = Blocks) \<or>
    (\<exists>s2. tick_step s a s2 \<and> tick_loop (Suc n) s = tick_loop n s2 \<and>
      (fires (set_spec s) (set_store s) a \<longrightarrow> int (length (set_transactions s)) < opt_BufferSize (set_options s)))"
proof -
  obtain s1 where L: "\<forall>n. tick_loop (Suc n) s =
      andthen (fire a s1) (\<lambda>(s, err). case err of Some e \<Rightarrow> Ret (s, Some e) | None \<Rightarrow> tick_loop n s)"
    and inv1: "set_inv s1" and m: "mset (set_deadlines s) = add_mset a (mset (set_deadlines s1))"
    and out: "a \<notin> set (set_deadlines s1)" and e: "erase (set_store s1) = erase (set_store s)"
    and s1: "s1 = s\<lparr>set_deadlines := set_deadlines s1, set_store := set_store s1\<rparr>"
    and h: "q_heap (set_deadlines s, set_store s) \<longrightarrow> q_heap (set_deadlines s1, set_store s1) \<and>
       (\<forall>b \<in> set (set_deadlines s). inst_deadline (set_store s a) \<le> inst_deadline (set_store s b))"
    unfolding a by (rule tick_round [OF inv ne due])
  note E = erase_eqD [OF e]
  have fr: "set_spec s1 = set_spec s" "set_options s1 = set_options s" "set_transactions s1 = set_transactions s"
    "set_now s1 = set_now s" "set_members s1 = set_members s" "set_next s1 = set_next s" by (subst s1, simp)+
  have fi: "fires (set_spec s1) (set_store s1) a = fires (set_spec s) (set_store s) a"
    and te: "tick_event (set_spec s1) (set_store s1) a = tick_event (set_spec s) (set_store s) a"
    by (simp_all add: fires_def tick_event_def E fr)
  have st: "gm_has (sp_states (set_spec s1)) (inst_state (set_store s1 a))"
    using set_invD(6) [OF inv, of a] ne by (simp add: a fr E)
  have k: "q_keys (set_deadlines s1, set_store (reset a (s1\<lparr>set_transactions := ts\<rparr>))) = q_keys (set_deadlines s1, set_store s1)" for ts
    using out by (auto simp: q_keys_def reset_def)
  have step: "tick_step s a (reset a (s1\<lparr>set_transactions := set_transactions s @ tick_raises s [a]\<rparr>))"
    unfolding tick_step_def using set_inv_reset [of "s1\<lparr>set_transactions := set_transactions s @ tick_raises s [a]\<rparr>" a] inv1 out m h fr
    by (simp add: k erase_reset e E)
  show ?thesis
  proof (cases "fires (set_spec s) (set_store s) a")
    case True
    then have "tick_raises s [a] = [tick_event (set_spec s) (set_store s) a]" by (simp add: tick_raises_def)
    then show ?thesis using step True fire_eq [OF set_invD(1) [OF inv1] st] by (auto simp: L fi [unfolded fr] te [unfolded fr] fr simp del: tick_loop.simps)
  next
    case False
    then have "s1\<lparr>set_transactions := set_transactions s @ tick_raises s [a]\<rparr> = s1" by (simp add: tick_raises_def fr(3) [symmetric])
    then show ?thesis using step False fire_eq [OF set_invD(1) [OF inv1] st] by (auto simp: L fi [unfolded fr] te [unfolded fr] fr simp del: tick_loop.simps)
  qed
qed

lemma tick_post_step:
  assumes st: "tick_step s a s2" and d: "inst_deadline (set_store s a) \<le> set_now s" and p: "tick_post s2 r"
  shows "tick_post s r"
proof (cases r)
  case (Ret x)
  obtain s' err where x: "x = (s', err)" by fastforce
  from p Ret x obtain xs where err: "err = None" and len: "int (length (set_transactions s')) \<le> opt_BufferSize (set_options s2)"
    and dr: "drained s2 xs" and dn: "tick_done s2 xs s'" by (auto simp: tick_post_def)
  have "drained s (a # xs)" using dr st d by (intro drained_Cons [of s2]) (simp_all add: tick_step_def)
  moreover have "tick_done s (a # xs) s'" using st dn dr by (intro tick_done_Cons) (auto simp: drained_def)
  moreover have "set_options s2 = set_options s" using st by (simp add: tick_step_def)
  ultimately show ?thesis using err len by (auto simp: tick_post_def Ret x)
next
  case Blocks
  have "set_transactions s2 = set_transactions s @ tick_raises s [a]" "set_options s2 = set_options s"
    using st by (simp_all add: tick_step_def)
  with p due_step [OF st d] show ?thesis by (auto simp: tick_post_def Blocks tick_raises_def split: if_splits)
next
  case Panics
  with p show ?thesis by (simp add: tick_post_def)
qed

lemma tick_loop_post:
  assumes "set_inv s" "length (set_deadlines s) \<le> n" "int (length (set_transactions s)) \<le> opt_BufferSize (set_options s)"
  shows "tick_post s (tick_loop n s)"
  using assms
proof (induction n arbitrary: s)
  case 0
  then show ?case using drained_Nil [of s]
    by (auto simp: tick_post_def tick_done_def tick_raises_def intro!: exI [of _ "[]"])
next
  case (Suc n)
  show ?case
  proof (cases "set_deadlines s = [] \<or> set_now s < inst_deadline (set_store s (set_deadlines s ! 0))")
    case True
    then have "tick_loop (Suc n) s = Ret (s, None)" by (auto simp: q_peek_def)
    then show ?thesis using drained_Nil [OF True Suc.prems(1)] Suc.prems
      by (auto simp: tick_post_def tick_done_def tick_raises_def intro!: exI [of _ "[]"])
  next
    case False
    define a where "a = set_deadlines s ! 0"
    have ne: "set_deadlines s \<noteq> []" and d: "inst_deadline (set_store s a) \<le> set_now s" using False by (auto simp: a_def)
    from tick_round_step [OF Suc.prems(1) ne d [unfolded a_def] a_def, of n] show ?thesis
    proof (elim disjE exE conjE)
      assume f: "fires (set_spec s) (set_store s) a" "opt_BufferSize (set_options s) \<le> int (length (set_transactions s))"
        and b: "tick_loop (Suc n) s = Blocks"
      have "a \<in> due s" "finite (due s)" using f ne d by (auto simp: due_def a_def)
      then have "0 < card (due s)" by (auto simp: card_gt_0_iff)
      with f b show ?thesis unfolding b tick_post_def by simp
    next
      fix s2 assume st: "tick_step s a s2" and eq: "tick_loop (Suc n) s = tick_loop n s2"
        and room: "fires (set_spec s) (set_store s) a \<longrightarrow> int (length (set_transactions s)) < opt_BufferSize (set_options s)"
      have inv2: "set_inv s2" and ts: "set_transactions s2 = set_transactions s @ tick_raises s [a]"
        and op: "set_options s2 = set_options s" and m: "mset (set_deadlines s) = add_mset a (mset (set_deadlines s2))"
        using st by (simp_all add: tick_step_def)
      have "size (mset (set_deadlines s)) = Suc (size (mset (set_deadlines s2)))" unfolding m by simp
      then have "length (set_deadlines s2) \<le> n" using Suc.prems(2) by simp
      moreover have "int (length (set_transactions s2)) \<le> opt_BufferSize (set_options s2)"
        using room Suc.prems(3) by (cases "fires (set_spec s) (set_store s) a") (simp_all add: ts op tick_raises_def)
      ultimately have IH: "tick_post s2 (tick_loop n s2)" using inv2 by (intro Suc.IH)
      show ?thesis using tick_post_step [OF st d IH] unfolding eq .
    qed
  qed
qed

section \<open>Adding and deleting\<close>

definition new_instance :: "ID \<Rightarrow> Index \<Rightarrow> 'd finstance" where
  "new_instance iid initial = \<lparr>inst_id = iid, inst_state = initial, inst_data = None, inst_parent = True, inst_flaps = newFlaps,
     inst_start = 0, inst_deadline = 0, inst_index = - 1, inst_visits = [(initial, 1)]\<rparr>"

lemma new_instance_sel [simp]: "inst_id (new_instance iid i) = iid" "inst_state (new_instance iid i) = i"
  "inst_parent (new_instance iid i)" "inst_index (new_instance iid i) = - 1" "inst_visits (new_instance iid i) = [(i, 1)]"
  "inst_data (new_instance iid i) = None"
  by (simp_all add: new_instance_def)

lemma bystate_add:
  assumes b: "bystate_ok s" and new: "\<not> gm_has (set_members s) iid" and nxt: "gm_has (sp_states (set_spec s)) nxt"
    and st: "inst_state (st a) = nxt" "\<And>k c. gm_get (set_members s) k = Some c \<Longrightarrow> inst_state (st c) = inst_state (set_store s c)"
  obtains b' where "bystate_put nxt iid a (set_bystate s) = Ret b'"
    "bystate_ok (s\<lparr>set_members := gm_put iid a (set_members s), set_store := st, set_bystate := b'\<rparr>)"
proof -
  have "gm_has (set_bystate s) nxt" using bystate_ok_has [OF b] nxt by simp
  then obtain mn where mn: "gm_get (set_bystate s) nxt = Some mn"
    and p: "bystate_put nxt iid a (set_bystate s) = Ret (gm_put nxt (gm_put iid a mn) (set_bystate s))" by (rule bystate_put_known)
  let ?b = "gm_put nxt (gm_put iid a mn) (set_bystate s)"
  have none: "gm_get (set_members s) iid = None" using new by (simp add: gm_has_def)
  have new: "gm_ok mk \<and> (\<forall>k c. gm_get mk k = Some c \<longleftrightarrow> gm_get (gm_put iid a (set_members s)) k = Some c \<and> inst_state (st c) = x)"
    if mk: "gm_get ?b x = Some mk" for x mk
  proof -
    from mk obtain m0 where m0: "gm_get (set_bystate s) x = Some m0" and eq: "mk = (if x = nxt then gm_put iid a m0 else m0)"
      using mn by (auto split: if_splits)
    note B = bystate_okD [OF b m0]
    have "gm_get mk k = Some c \<longleftrightarrow> gm_get (gm_put iid a (set_members s)) k = Some c \<and> inst_state (st c) = x" for k c
    proof (cases "k = iid")
      case True
      have "gm_get m0 iid \<noteq> Some c" using B(2) none by simp
      then show ?thesis using True eq st(1) by auto
    next
      case False
      then show ?thesis using eq B(2) [of k c] st(2) [of k c] by auto
    qed
    then show ?thesis using eq B(1) by auto
  qed
  have "gm_has ?b k \<longleftrightarrow> gm_has (sp_states (set_spec s)) k" for k using bystate_ok_has [OF b] nxt by auto
  with new have "bystate_ok (s\<lparr>set_members := gm_put iid a (set_members s), set_store := st, set_bystate := ?b\<rparr>)"
    by (simp add: bystate_ok_def del: gm_has_put gm_get_put)
  with p show thesis by (rule that)
qed

lemma handleAdd_known:
  assumes inv: "set_inv s" and i: "gm_has (sp_states (set_spec s)) initial" and nx: "set_next s + 1 < 2 ^ 64"
  obtains s' where "handleAdd initial s = Ret (s', None)" "set_inv s'"
    "set_members s' = gm_put (set_next s) (set_fresh s) (set_members s)" "set_next s' = set_next s + 1"
    "set_replies s' = set_replies s @ [set_next s]" "set_transactions s' = set_transactions s" "set_options s' = set_options s"
    "erase (set_store s') = erase ((set_store s)(set_fresh s :=
       instance_update initial (set_now s) (ttl_of (set_spec s) initial) (new_instance (set_next s) initial)))"
proof -
  let ?a = "set_fresh s" and ?iid = "set_next s"
  note I = set_invD [OF inv]
  define s1 where "s1 = s\<lparr>set_next := Suc ?iid, set_store := (set_store s)(?a := new_instance ?iid initial), set_fresh := Suc ?a\<rparr>"
  have idx: "inst_index (set_store s ?a) = - 1" using q_invD(3) [OF I(4), of ?a] I(5) [of ?a] by auto
  have q1: "q_inv (set_deadlines s1, set_store s1)" using I(4) idx by (simp add: s1_def q_inv_store)
  have k1: "gm_has (sp_states (set_spec s1)) initial" using i by (simp add: s1_def)
  obtain q st where pd: "processDeadline ?a initial s1 = Ret (set_queue (q, st) s1, None)" and q: "q_inv (q, st)"
    and e: "erase st = erase (landed ?a initial s1)" and sub: "set q \<subseteq> insert ?a (set (set_deadlines s1))"
    by (rule processDeadline_known [OF q1 k1, of ?a])
  have S: "inst_state (st c) = (if c = ?a then initial else inst_state (set_store s c))"
    "inst_id (st c) = (if c = ?a then ?iid else inst_id (set_store s c))" "inst_parent (st c) = (c = ?a \<or> inst_parent (set_store s c))" for c
    using erase_eqD [OF e, of c] by (simp_all add: landed_def s1_def)
  have new: "\<not> gm_has (set_members s) ?iid" using members_okD(4) [OF I(2), of ?iid] by (cases "gm_get (set_members s) ?iid") (auto simp: gm_has_def)
  have old: "inst_state (st c) = inst_state (set_store s c)" if "gm_get (set_members s) k = Some c" for k c
    using members_okD(1) [OF I(2) that] by (simp add: S)
  obtain b where b: "bystate_put initial ?iid ?a (set_bystate s) = Ret b"
    and ok: "bystate_ok (s\<lparr>set_members := gm_put ?iid ?a (set_members s), set_store := st, set_bystate := b\<rparr>)"
    by (rule bystate_add [OF I(3) new i, of st ?a]) (simp add: S(1), erule old, blast)
  define s' where "s' = (set_queue (q, st) s1)\<lparr>set_members := gm_put ?iid ?a (set_members s), set_bystate := b, set_replies := set_replies s @ [?iid]\<rparr>"
  have "handleAdd initial s = Ret (s', None)"
    using pd b nx by (simp add: handleAdd_def s'_def s1_def wrapu64_id set_queue_def new_instance_def Let_def)
  moreover have "members_ok s'"
    using members_okD [OF I(2)] members_ok_gm_ok [OF I(2)] i
    by (intro members_okI) (auto simp: s'_def s1_def set_queue_def S less_Suc_eq split: if_splits)
  moreover have "bystate_ok s'" using ok by (simp add: bystate_ok_def s'_def s1_def set_queue_def)
  moreover have "c < Suc ?a \<and> gm_has (sp_states (set_spec s)) (inst_state (st c))" if "c \<in> set q" for c
    using that sub i I(5,6) [of c] by (auto simp: s1_def S)
  ultimately show thesis using I(1) q e
    by (intro that [of s']) (simp_all add: set_inv_def s'_def s1_def set_queue_def landed_def)
qed

lemma handleAdd_unknown:
  assumes "\<not> gm_has (sp_states (set_spec s)) initial"
  shows "\<exists>s'. handleAdd initial s = Ret (s', Some (ErrUnknownState initial)) \<and> set_replies s' = set_replies s \<and> set_members s' = set_members s"
  using assms by (simp add: handleAdd_def processDeadline_unknown Let_def)

lemma handleDelete_known:
  assumes inv: "set_inv s" and a: "gm_get (set_members s) iid = Some a"
  obtains s' where "handleDelete iid s = (s', None)" "set_inv s'" "set_members s' = gm_del iid (set_members s)"
    "set_deadlines s' = set_deadlines s" "set_transactions s' = set_transactions s" "set_options s' = set_options s" "set_next s' = set_next s"
    "set_store s' = (set_store s)(a := (set_store s a)\<lparr>inst_id := 0, inst_parent := False\<rparr>)"
proof -
  note I = set_invD [OF inv]
  define st where "st = (set_store s)(a := (set_store s a)\<lparr>inst_id := 0, inst_parent := False\<rparr>)"
  define b where "b = bystate_delete (inst_state (set_store s a)) iid (set_bystate s)"
  define s' where "s' = s\<lparr>set_members := gm_del iid (set_members s), set_bystate := b, set_store := st\<rparr>"
  have other: "c \<noteq> a" if "gm_get (set_members s) k = Some c" "k \<noteq> iid" for k c
    using members_okD(2) [OF I(2)] that a by metis
  have state: "inst_state (st c) = inst_state (set_store s c)" for c by (simp add: st_def)
  have has: "gm_has b k \<longleftrightarrow> gm_has (sp_states (set_spec s)) k" for k
    using bystate_ok_has [OF I(3), of k] by (auto simp: b_def gm_has_def bystate_delete_get split: option.splits)
  have get: "gm_ok mk \<and> (\<forall>k c. gm_get mk k = Some c \<longleftrightarrow> gm_get (gm_del iid (set_members s)) k = Some c \<and> inst_state (st c) = x)"
    if mk: "gm_get b x = Some mk" for x mk
  proof -
    from mk obtain m0 where m0: "gm_get (set_bystate s) x = Some m0"
      and eq: "mk = (if x = inst_state (set_store s a) then gm_del iid m0 else m0)"
      by (auto simp: b_def bystate_delete_get split: option.splits)
    note B = bystate_okD [OF I(3) m0]
    have "gm_get mk k = Some c \<longleftrightarrow> gm_get (gm_del iid (set_members s)) k = Some c \<and> inst_state (st c) = x" for k c
      using B(2) [of k c] a by (cases "k = iid") (auto simp: eq state)
    then show ?thesis using B(1) eq by simp
  qed
  have "q_inv (set_deadlines s, st) = q_inv (set_deadlines s, set_store s)" unfolding st_def by (rule q_inv_store) simp
  moreover have "members_ok s'"
    using members_okD [OF I(2)] members_ok_gm_ok [OF I(2)] other
    by (intro members_okI) (auto simp: s'_def st_def split: if_splits)
  moreover have "bystate_ok s'" using has get by (simp add: bystate_ok_def s'_def del: gm_get_del)
  ultimately have "set_inv s'" using I(1,4,5,6) by (simp add: set_inv_def s'_def state)
  then show thesis
    by (rule that [of s', rotated]) (simp_all add: handleDelete_def a s'_def b_def st_def)
qed

section \<open>Runs\<close>

text \<open>The members a transaction addresses, and what it needs for its error to be reportable.\<close>

fun admissible :: "'d txn \<Rightarrow> ('d, 'w) fset \<Rightarrow> bool" where
  "admissible (TAdd i) s = gm_has (sp_states (set_spec s)) i"
| "admissible (TDelete iid) s = gm_has (set_members s) iid"
| "admissible (TEvent ev) s = gm_has (set_members s) (ev_instance ev)"
| "admissible (TRaise ev) s = gm_has (set_members s) (ev_instance ev)"
| "admissible _ s = True"

text \<open>
  One step of the set: the input goroutine puts a transaction on the channel, or the processing
  goroutine takes one off and runs it. While a handler runs the input goroutine may have put its own
  transaction between the handler's raises: \<open>ys\<close> are the raises that come after it.
\<close>

inductive set_step :: "('d, 'w) fset \<Rightarrow> ('d, 'w) fset \<Rightarrow> bool" where
  input: "set_step s (s\<lparr>set_transactions := xs @ t # ys\<rparr>)"
    if "set_transactions s = xs @ ys" "\<forall>y \<in> set ys. \<exists>ev. y = TRaise ev" "\<forall>ev. t \<noteq> TRaise ev"
      "\<forall>ev. t = TEvent ev \<longrightarrow> gm_has (sp_signals (set_spec s)) (ev_signal ev)"
      "int (length (set_transactions s)) < opt_BufferSize (set_options s)"
| process: "set_step s s'"
    if "set_transactions s = t # ts" "run_txn t (s\<lparr>set_transactions := ts\<rparr>) = Ret s'"

text \<open>
  The states of a set from its creation on, as long as the id counter has not wrapped around.
\<close>

inductive reachable :: "('d, 'w) fset \<Rightarrow> bool" where
  start: "reachable s" if "NewSet spec optional w = Ret s" "spec_ok spec"
| step: "reachable s'" if "reachable s" "set_step s s'" "set_next s + 1 < 2 ^ 64"

inductive_cases set_stepE: "set_step s s'"

lemma NewSet_inv:
  assumes "NewSet spec optional w = Ret s" "spec_ok spec"
  shows "run_inv s"
proof -
  have g: "gm_get (map (\<lambda>(i, _). (i, [])) m) st = (if gm_has m st then Some [] else None)" for m :: "(Index, ('d, 'w) State) gomap" and st
    by (induction m) (auto simp: gm_has_def)
  have "spec_ok (set_spec s)" "members_ok s" "q_inv (set_deadlines s, set_store s)" "set_deadlines s = []"
    using assms by (auto simp: NewSet_def members_ok_def q_inv_def newQueue_def no_instance_def Let_def split: option.splits if_splits)
  moreover have "bystate_ok s"
    using assms by (auto simp: NewSet_def bystate_ok_def gm_has_def [of "map _ _"] g Let_def split: option.splits if_splits)
  moreover have "int (length (set_transactions s)) \<le> opt_BufferSize (set_options s)"
    using assms by (auto simp: NewSet_def defaultBufferSize_def Let_def split: option.splits if_splits)
  ultimately show ?thesis by (simp add: run_inv_def set_inv_def)
qed

lemma tick_post_safe: "tick_post s r \<Longrightarrow> safe fine r"
  by (cases r) (auto simp: tick_post_def tick_done_def run_inv_def)

lemma set_tick_run_inv: "run_inv (set_tick s) = run_inv s"
  by (simp add: set_tick_def run_inv_def)

lemma handleClockTick_post: "run_inv s \<Longrightarrow> tick_post (set_tick s) (handleClockTick s)"
  unfolding handleClockTick_def using tick_loop_post [of "set_tick s" "length (set_deadlines s)"]
  by (simp add: run_inv_def set_tick_def)

lemma safe_txn_func:
  assumes "run_inv s" "admissible t s" "set_next s + 1 < 2 ^ 64"
  shows "safe fine (txn_func t s)"
proof (cases t)
  case TClock
  then show ?thesis using tick_post_safe [OF handleClockTick_post [OF assms(1)]] by (simp add: txn_func_def)
next
  case (TAdd i)
  then have i: "gm_has (sp_states (set_spec s)) i" using assms(2) by simp
  obtain s' where "handleAdd i s = Ret (s', None)" "set_inv s'" "set_transactions s' = set_transactions s" "set_options s' = set_options s"
    by (rule handleAdd_known [OF run_invD [OF assms(1)] i assms(3)])
  then show ?thesis using assms(1) by (simp add: txn_func_def TAdd run_inv_def)
next
  case (TDelete iid)
  then obtain a where a: "gm_get (set_members s) iid = Some a" using assms(2) by (auto elim: gm_hasE)
  obtain s' where "handleDelete iid s = (s', None)" "set_inv s'" "set_transactions s' = set_transactions s" "set_options s' = set_options s"
    by (rule handleDelete_known [OF run_invD [OF assms(1)] a])
  then show ?thesis using assms(1) by (simp add: txn_func_def TDelete run_inv_def)
qed (use assms in \<open>auto simp: txn_func_def intro!: safe_handleEvent\<close>)

lemma safe_handleError: "run_inv s \<Longrightarrow> \<not> crashes e \<Longrightarrow> safe run_inv (handleError e s)"
  by (simp add: handleError_eq run_inv_def)

lemma safe_run_txn:
  assumes "run_inv s" "admissible t s" "set_next s + 1 < 2 ^ 64"
  shows "safe run_inv (run_txn t s)"
  unfolding run_txn_def
proof (rule safe_andthen [OF safe_txn_func [OF assms]])
  fix x :: "('a, 'b) fset \<times> fsm_error option"
  assume "fine x"
  then show "safe run_inv (case x of (s, None) \<Rightarrow> Ret s | (s, Some e) \<Rightarrow> handleError e s)"
    by (cases x; cases "snd x") (auto intro: safe_handleError)
qed

text \<open>A transaction on an unknown state or instance reports an error whose text cannot be computed.\<close>

lemma inadmissible_panics:
  assumes "\<not> admissible t s"
  shows "run_txn t s = Panics"
proof (cases t)
  case (TAdd i)
  then show ?thesis using assms handleAdd_unknown [of s i] by (auto simp: run_txn_def txn_func_def handleError_eq)
qed (use assms in \<open>auto simp: run_txn_def txn_func_def handleDelete_def handleEvent_def gm_has_def handleError_eq\<close>)

lemma step_run_inv:
  assumes "run_inv s" "set_step s s'" "set_next s + 1 < 2 ^ 64"
  shows "run_inv s'"
  using assms(2)
proof (cases rule: set_step.cases)
  case (input xs ys t)
  then show ?thesis using assms(1) by (simp add: run_inv_def)
next
  case (process t ts)
  let ?s = "s\<lparr>set_transactions := ts\<rparr>"
  have "run_inv ?s" using assms(1) process(1) by (simp add: run_inv_def)
  moreover have "admissible t ?s" using inadmissible_panics [of t ?s] process(2) by auto
  ultimately show ?thesis using safe_run_txn [of ?s t] process(2) assms(3) by simp
qed

lemma reachable_run_inv: "reachable s \<Longrightarrow> run_inv s"
  by (induction rule: reachable.induct) (auto intro: NewSet_inv step_run_inv)

section \<open>The abstract machine\<close>

text \<open>What a client sees: which instances there are and the state each is in.\<close>

definition abs_set :: "('d, 'w) fset \<Rightarrow> ID \<Rightarrow> Index option" where
  "abs_set s iid = map_option (\<lambda>a. inst_state (set_store s a)) (gm_get (set_members s) iid)"

definition edge :: "('d, 'w) Spec \<Rightarrow> Index \<Rightarrow> Index \<Rightarrow> bool" where
  "edge spec i j \<longleftrightarrow> (\<exists>st signal. gm_get (sp_states spec) i = Some st \<and>
     (gm_get (st_Transitions st) signal = Some j \<or> gm_get (st_Errors st) signal = Some j))"

inductive abs_step :: "('d, 'w) Spec \<Rightarrow> (ID \<Rightarrow> Index option) \<Rightarrow> (ID \<Rightarrow> Index option) \<Rightarrow> bool" for spec where
  abs_skip: "abs_step spec f f"
| abs_add: "f iid = None \<Longrightarrow> gm_has (sp_states spec) i \<Longrightarrow> abs_step spec f (f(iid := Some i))"
| abs_delete: "f iid \<noteq> None \<Longrightarrow> abs_step spec f (f(iid := None))"
| abs_move: "f iid = Some i \<Longrightarrow> edge spec i j \<Longrightarrow> abs_step spec f (f(iid := Some j))"

text \<open>The destination of an event according to the spec.\<close>

definition event_dest :: "('d, 'w) fset \<Rightarrow> addr \<Rightarrow> 'd event \<Rightarrow> Index" where
  "event_dest s a ev = (let cur = inst_state (set_store s a) in
     case transition (set_spec s) cur (ev_signal ev) of
       Inl _ \<Rightarrow> cur
     | Inr (nxt, action) \<Rightarrow>
         if snd (flap_check (set_spec s) cur nxt (inst_flaps (set_store s a))) \<noteq> None then cur
         else (case action of None \<Rightarrow> nxt
           | Some act \<Rightarrow>
               if fst (act (inst_id (set_store s a)) (case ev_data ev of None \<Rightarrow> inst_data (set_store s a) | Some d \<Rightarrow> Some d) (set_world s))
               then (case Spec_error (set_spec s) cur (ev_signal ev) of Inl _ \<Rightarrow> nxt | Inr alt \<Rightarrow> alt)
               else nxt))"

lemma abs_set_cong:
  "set_members s' = set_members s \<Longrightarrow> (\<And>a. inst_state (set_store s' a) = inst_state (set_store s a)) \<Longrightarrow> abs_set s' = abs_set s"
  by (simp add: abs_set_def fun_eq_iff)

lemma abs_set_move:
  assumes "members_ok s" "gm_get (set_members s) iid = Some a" "set_members s' = set_members s"
    "\<And>c. inst_state (set_store s' c) = (if c = a then nxt else inst_state (set_store s c))"
  shows "abs_set s' = (abs_set s)(iid \<mapsto> nxt)"
proof
  fix k
  have "c \<noteq> a" if "gm_get (set_members s) k = Some c" "k \<noteq> iid" for c
    using members_okD(2) [OF assms(1)] assms(2) that by metis
  then show "abs_set s' k = ((abs_set s)(iid \<mapsto> nxt)) k"
    using assms(2-4) by (cases "gm_get (set_members s) k") (auto simp: abs_set_def)
qed

lemma processVisitLimit_frame:
  "processVisitLimit a st s = Ret (s', err) \<Longrightarrow> gm_has (sp_states (set_spec s)) st \<Longrightarrow>
     err = None \<and> (\<exists>ts. s' = s\<lparr>set_transactions := set_transactions s @ ts\<rparr>)"
  by (auto simp: processVisitLimit_def visit_def andthen_Ret_iff gm_has_def split: option.splits if_splits
      dest!: raise_keeps intro: exI [of _ "[]"])

lemma enter_effect:
  assumes inv: "set_inv s" and a: "gm_get (set_members s) iid = Some a" and nxt: "gm_has (sp_states (set_spec s)) nxt"
    and r: "enter a (inst_state (set_store s a)) nxt s = Ret (s', err)"
  shows "err = None" "set_members s' = set_members s" "erase (set_store s') = erase (landed a nxt s)" "set_spec s' = set_spec s"
proof -
  obtain q st b where L: "processDeadline a nxt s = Ret (set_queue (q, st) s, None)" "erase st = erase (landed a nxt s)"
    "bystate_put nxt iid a (bystate_delete (inst_state (set_store s a)) iid (set_bystate s)) = Ret b"
    by (rule member_lands [OF inv a nxt])
  have "inst_id (st a) = iid"
    using erase_eqD(3) [OF L(2), of a] members_okD(2) [OF set_invD(2) [OF inv] a] by (simp add: landed_def)
  with r L have "processVisitLimit a nxt (set_queue (q, st) s\<lparr>set_bystate := b\<rparr>) = Ret (s', err)"
    by (simp add: enter_def set_queue_def)
  from processVisitLimit_frame [OF this] nxt L(2)
  show "err = None" "set_members s' = set_members s" "erase (set_store s') = erase (landed a nxt s)" "set_spec s' = set_spec s"
    by (auto simp: set_queue_def)
qed

lemma run_action_effect:
  assumes "run_action a sig cur nxt action s = Ret (s', nxt')"
  shows "\<exists>w es. s' = s\<lparr>set_world := w, set_errors := es\<rparr>"
    and "nxt' = (case action of None \<Rightarrow> nxt | Some act \<Rightarrow>
       if fst (act (inst_id (set_store s a)) (inst_data (set_store s a)) (set_world s))
       then (case Spec_error (set_spec s) cur sig of Inl _ \<Rightarrow> nxt | Inr alt \<Rightarrow> alt) else nxt)"
proof -
  have 1: "\<exists>w es. s = s\<lparr>set_world := w, set_errors := es\<rparr>"
    by (rule exI [of _ "set_world s"], rule exI [of _ "set_errors s"]) simp
  have 2: "\<exists>w' es. s\<lparr>set_world := w\<rparr> = s\<lparr>set_world := w', set_errors := es\<rparr>" for w
    by (rule exI [of _ w], rule exI [of _ "set_errors s"]) simp
  show "\<exists>w es. s' = s\<lparr>set_world := w, set_errors := es\<rparr>"
    using assms 1 2 by (auto simp: run_action_def Let_def andthen_Ret_iff handleError_eq split: option.splits prod.splits sum.splits if_splits)
  show "nxt' = (case action of None \<Rightarrow> nxt | Some act \<Rightarrow>
       if fst (act (inst_id (set_store s a)) (inst_data (set_store s a)) (set_world s))
       then (case Spec_error (set_spec s) cur sig of Inl _ \<Rightarrow> nxt | Inr alt \<Rightarrow> alt) else nxt)"
    using assms by (auto simp: run_action_def Let_def andthen_Ret_iff split: option.splits prod.splits sum.splits if_splits)
qed

lemma set_data_sel [simp]:
  "inst_data (set_store (set_data a d s) a) = (case d of None \<Rightarrow> inst_data (set_store s a) | Some x \<Rightarrow> Some x)"
  "inst_visits (set_store (set_data a d s) c) = inst_visits (set_store s c)" "set_world (set_data a d s) = set_world s"
  "set_now (set_data a d s) = set_now s"
  by (simp_all add: set_data_def split: option.splits)

lemma set_flaps_sel [simp]:
  "inst_data (set_store (set_flaps a h s) c) = inst_data (set_store s c)"
  "inst_visits (set_store (set_flaps a h s) c) = inst_visits (set_store s c)" "set_world (set_flaps a h s) = set_world s"
  "set_now (set_flaps a h s) = set_now s"
  by (simp_all add: set_flaps_def)

text \<open>The two ways \<open>handleEvent\<close> returns for a member: nothing moves, or it lands where the spec says.\<close>

definition event_moved :: "('d, 'w) fset \<Rightarrow> addr \<Rightarrow> Index \<Rightarrow> ('d, 'w) fset \<Rightarrow> bool" where
  "event_moved s a dest s' \<longleftrightarrow> set_members s' = set_members s \<and> set_spec s' = set_spec s \<and>
     (\<forall>c. inst_state (set_store s' c) = (if c = a then dest else inst_state (set_store s c)))"

definition event_landed :: "('d, 'w) fset \<Rightarrow> addr \<Rightarrow> Index \<Rightarrow> ('d, 'w) fset \<Rightarrow> bool" where
  "event_landed s a dest s' \<longleftrightarrow>
     inst_visits (set_store s' a) = gm_put dest (wrap64 (gm_get0 0 (inst_visits (set_store s a)) dest + 1)) (inst_visits (set_store s a)) \<and>
     inst_deadline (set_store s' a) = (if 0 < ttl_of (set_spec s) dest then wrap64 (set_now s + ttl_of (set_spec s) dest) else 0)"

lemma handleEvent_lands:
  assumes run: "run_inv s" and a: "gm_get (set_members s) (ev_instance ev) = Some a" and r: "handleEvent ev s = Ret (s', err)"
    and t: "transition (set_spec s) (inst_state (set_store s a)) (ev_signal ev) = Inr (nxt, action)"
    and f: "flap_check (set_spec s) (inst_state (set_store s a)) nxt (inst_flaps (set_store s a)) = (h, None)"
  shows "event_moved s a (event_dest s a ev) s' \<and> err = None \<and> event_landed s a (event_dest s a ev) s'"
proof -
  let ?cur = "inst_state (set_store s a)"
  have inv: "set_inv s" using run by (rule run_invD)
  let ?s = "set_data a (ev_data ev) (set_flaps a h s)"
  from r obtain s3 nx where act: "run_action a (ev_signal ev) ?cur nxt action ?s = Ret (s3, nx)" and en: "enter a ?cur nx s3 = Ret (s', err)"
    by (auto simp: handleEvent_def a t f Let_def andthen_Ret_iff)
  from run_action_effect(1) [OF act] obtain w es where s3: "s3 = ?s\<lparr>set_world := w, set_errors := es\<rparr>" by blast
  have dest: "nx = event_dest s a ev"
    using run_action_effect(2) [OF act] by (simp add: event_dest_def t f Let_def split: option.splits)
  have "safe (action_post ?s) (run_action a (ev_signal ev) ?cur nxt action ?s)"
    using transition_target_known [OF set_invD(1) [OF inv] t] members_okD(5) [OF set_invD(2) [OF inv] a] set_invD(1) [OF inv]
    by (intro safe_run_action) simp_all
  then have nx: "gm_has (sp_states (set_spec s3)) nx" by (simp add: act action_post_def s3)
  have inv3: "set_inv s3" using run_invD [OF run_inv_data [OF run_inv_flaps [OF run]]] by (simp add: s3)
  have a3: "gm_get (set_members s3) (ev_instance ev) = Some a" using a by (simp add: s3)
  have "enter a (inst_state (set_store s3 a)) nx s3 = Ret (s', err)" using en by (simp add: s3)
  note E = enter_effect [OF inv3 a3 nx this]
  show ?thesis using E(1,2,4) erase_eqD [OF E(3)] by (simp add: event_moved_def event_landed_def landed_def s3 dest)
qed

lemma handleEvent_moved:
  assumes run: "run_inv s" and a: "gm_get (set_members s) (ev_instance ev) = Some a" and r: "handleEvent ev s = Ret (s', err)"
  shows "event_moved s a (event_dest s a ev) s'"
proof (cases "transition (set_spec s) (inst_state (set_store s a)) (ev_signal ev)")
  case (Inl e)
  then show ?thesis using r by (auto simp: handleEvent_def a event_dest_def event_moved_def Let_def)
next
  case (Inr p)
  obtain nxt action where p: "p = (nxt, action)" by fastforce
  obtain h hit where fc: "flap_check (set_spec s) (inst_state (set_store s a)) nxt (inst_flaps (set_store s a)) = (h, hit)" by fastforce
  show ?thesis
  proof (cases hit)
    case None
    then show ?thesis using handleEvent_lands [OF run a r] Inr p fc by blast
  next
    case (Some sig)
    then show ?thesis using r
      by (auto simp: handleEvent_def a Inr p fc event_dest_def event_moved_def Let_def andthen_Ret_iff dest!: raise_keeps)
  qed
qed

lemma event_dest_edge:
  assumes "event_dest s a ev \<noteq> inst_state (set_store s a)"
  shows "edge (set_spec s) (inst_state (set_store s a)) (event_dest s a ev)"
proof -
  let ?cur = "inst_state (set_store s a)"
  obtain nxt action where t: "transition (set_spec s) ?cur (ev_signal ev) = Inr (nxt, action)"
    using assms by (cases "transition (set_spec s) ?cur (ev_signal ev)") (auto simp: event_dest_def)
  then obtain st where st: "gm_get (sp_states (set_spec s)) ?cur = Some st" "gm_get (st_Transitions st) (ev_signal ev) = Some nxt"
    by (auto simp: transition_def split: option.splits if_splits)
  have "event_dest s a ev = nxt \<or> Spec_error (set_spec s) ?cur (ev_signal ev) = Inr (event_dest s a ev)"
    using assms by (auto simp: event_dest_def t Let_def split: option.splits sum.splits if_splits)
  then show ?thesis using st by (auto simp: edge_def Spec_error_def split: option.splits if_splits)
qed

lemma event_abs:
  assumes run: "run_inv s" and m: "gm_has (set_members s) (ev_instance ev)" and r: "handleEvent ev s = Ret (s', err)"
  shows "abs_step (set_spec s) (abs_set s) (abs_set s')"
proof -
  from m obtain a where a: "gm_get (set_members s) (ev_instance ev) = Some a" by (rule gm_hasE)
  let ?d = "event_dest s a ev"
  have s': "abs_set s' = (abs_set s)(ev_instance ev \<mapsto> ?d)"
    using handleEvent_moved [OF run a r] by (intro abs_set_move [OF set_invD(2) [OF run_invD [OF run]] a]) (auto simp: event_moved_def)
  have cur: "abs_set s (ev_instance ev) = Some (inst_state (set_store s a))" by (simp add: abs_set_def a)
  show ?thesis
  proof (cases "?d = inst_state (set_store s a)")
    case True
    then have "(abs_set s)(ev_instance ev \<mapsto> ?d) = abs_set s" using cur by (simp add: fun_upd_idem)
    then show ?thesis using s' by (simp add: abs_skip)
  next
    case False
    from abs_move [where f = "abs_set s" and iid = "ev_instance ev", OF cur event_dest_edge [OF False]] show ?thesis
      using s' by simp
  qed
qed

lemma txn_abs:
  assumes run: "run_inv s" and ad: "admissible t s" and nx: "set_next s + 1 < 2 ^ 64" and r: "txn_func t s = Ret (s', err)"
  shows "abs_step (set_spec s) (abs_set s) (abs_set s')"
proof -
  note inv = run_invD [OF run]
  note M = set_invD(2) [OF inv]
  note ev = event_abs [OF run]
  show ?thesis
  proof (cases t)
    case TClock
    then have "tick_post (set_tick s) (Ret (s', err))" using handleClockTick_post [OF run] r by (simp add: txn_func_def)
    then have "abs_set s' = abs_set s" by (intro abs_set_cong) (auto simp: tick_post_def tick_done_def set_tick_def)
    then show ?thesis by (simp add: abs_skip)
  next
    case (TAdd i)
    then have i: "gm_has (sp_states (set_spec s)) i" using ad by simp
    obtain s1 where s1: "handleAdd i s = Ret (s1, None)" "set_members s1 = gm_put (set_next s) (set_fresh s) (set_members s)"
      "erase (set_store s1) = erase ((set_store s)(set_fresh s := instance_update i (set_now s) (ttl_of (set_spec s) i) (new_instance (set_next s) i)))"
      by (rule handleAdd_known [OF inv i nx])
    have "s' = s1" using r s1(1) by (simp add: txn_func_def TAdd)
    moreover have "abs_set s1 = (abs_set s)(set_next s \<mapsto> i)"
    proof
      fix k
      show "abs_set s1 k = ((abs_set s)(set_next s \<mapsto> i)) k"
        using members_okD(1) [OF M, of k] erase_eqD(2) [OF s1(3)]
        by (cases "gm_get (set_members s) k") (auto simp: abs_set_def s1(2))
    qed
    moreover have "abs_set s (set_next s) = None"
      using members_okD(4) [OF M, of "set_next s"] by (cases "gm_get (set_members s) (set_next s)") (auto simp: abs_set_def)
    ultimately show ?thesis using abs_add [OF _ i, of "abs_set s" "set_next s"] by simp
  next
    case (TDelete iid)
    then obtain a where a: "gm_get (set_members s) iid = Some a" using ad by (auto elim: gm_hasE)
    obtain s1 where s1: "handleDelete iid s = (s1, None)" "set_members s1 = gm_del iid (set_members s)"
      "set_store s1 = (set_store s)(a := (set_store s a)\<lparr>inst_id := 0, inst_parent := False\<rparr>)"
      by (rule handleDelete_known [OF inv a])
    have "abs_set s1 = (abs_set s)(iid := None)" by (auto simp: abs_set_def s1(2,3) fun_eq_iff intro!: option.map_cong)
    moreover have "s' = s1" using r s1(1) by (simp add: txn_func_def TDelete)
    ultimately show ?thesis using abs_delete [of "abs_set s" iid] a by (simp add: abs_set_def [of s iid])
  qed (use r ad ev in \<open>auto simp: txn_func_def abs_skip\<close>)
qed

lemma handleError_abs: "handleError e s = Ret s' \<Longrightarrow> abs_set s' = abs_set s \<and> set_spec s' = set_spec s"
  by (auto simp: handleError_eq abs_set_def fun_eq_iff split: if_splits)

lemma step_abs:
  assumes run: "run_inv s" and st: "set_step s s'" and nx: "set_next s + 1 < 2 ^ 64"
  shows "abs_step (set_spec s) (abs_set s) (abs_set s')"
  using st
proof (cases rule: set_step.cases)
  case (input xs ys t)
  have "abs_set s' = abs_set s" unfolding input(1) by (rule abs_set_cong) simp_all
  then show ?thesis by (simp add: abs_skip)
next
  case (process t ts)
  let ?s = "s\<lparr>set_transactions := ts\<rparr>"
  have run': "run_inv ?s" using run process(1) by (simp add: run_inv_def)
  have ad: "admissible t ?s" using inadmissible_panics [of t ?s] process(2) by auto
  from process(2) obtain s1 err where f: "txn_func t ?s = Ret (s1, err)" and e: "(case err of None \<Rightarrow> Ret s1 | Some e \<Rightarrow> handleError e s1) = Ret s'"
    by (auto simp: run_txn_def andthen_Ret_iff)
  have "abs_step (set_spec s) (abs_set ?s) (abs_set s1)" using txn_abs [OF run' ad _ f] nx by simp
  moreover have "abs_set ?s = abs_set s" by (rule abs_set_cong) simp_all
  moreover have "abs_set s' = abs_set s1" using e handleError_abs by (cases err) auto
  ultimately show ?thesis by simp
qed

section \<open>An example\<close>

text \<open>
  A machine with a time limit: \<open>wait\<close> (0) gives up after two ticks, \<open>up\<close> (1) is left on signal 2,
  \<open>down\<close> (2) comes back up on signal 1.
\<close>

definition ex_state :: "Index \<Rightarrow> (Signal \<times> Index) list \<Rightarrow> Tick \<Rightarrow> Signal \<Rightarrow> (unit, unit) State" where
  "ex_state i ts ttl sig = \<lparr>st_Index = i, st_Transitions = ts, st_Actions = [], st_Errors = [],
     st_TTL = \<lparr>exp_TTL = ttl, exp_Raise = sig\<rparr>, st_Visit = \<lparr>lim_Value = 0, lim_Raise = 0\<rparr>\<rparr>"

definition ex_spec :: "(unit, unit) Spec" where
  "ex_spec = fst (Define (ex_state 0 [(1, 1), (2, 2)] 2 2) [ex_state 1 [(2, 2)] 0 0, ex_state 2 [(1, 1)] 0 0])"

lemma ex_spec_defined:
  "Define (ex_state 0 [(1, 1), (2, 2)] 2 2) [ex_state 1 [(2, 2)] 0 0, ex_state 2 [(1, 1)] 0 0] = (ex_spec, None)"
  by (simp add: ex_spec_def ex_state_def compile_defs gm_has_def)

lemma ex_spec_ok: "spec_ok ex_spec"
  using Define_spec_ok [OF ex_spec_defined [unfolded Define_def]] by simp

text \<open>
  A run: process what is on the channel, then put the next input there; for a given number of steps
  and only along steps of the set.
\<close>

fun input_ok :: "('d, 'w) Spec \<Rightarrow> 'd txn \<Rightarrow> bool" where
  "input_ok spec (TRaise _) = False"
| "input_ok spec (TEvent ev) = gm_has (sp_signals spec) (ev_signal ev)"
| "input_ok spec _ = True"

fun drive :: "nat \<Rightarrow> 'd txn list \<Rightarrow> ('d, 'w) fset \<Rightarrow> ('d, 'w) fset outcome" where
  "drive 0 ins s = Ret s"
| "drive (Suc n) ins s = (if 2 ^ 64 \<le> int (set_next s) + 1 then Blocks else (case set_transactions s of
     t # ts \<Rightarrow> andthen (run_txn t (s\<lparr>set_transactions := ts\<rparr>)) (drive n ins)
   | [] \<Rightarrow> (case ins of [] \<Rightarrow> Ret s
       | i # ins \<Rightarrow> if input_ok (set_spec s) i \<and> 0 < opt_BufferSize (set_options s)
           then drive n ins (s\<lparr>set_transactions := [i]\<rparr>) else Blocks)))"

lemma drive_reachable:
  assumes "reachable s" "drive n ins s = Ret s'"
  shows "reachable s'"
  using assms
proof (induction n ins s rule: drive.induct)
  case (2 n ins s)
  show ?case
  proof (cases "set_transactions s")
    case (Cons t ts)
    with 2(4) obtain s1 where s1: "run_txn t (s\<lparr>set_transactions := ts\<rparr>) = Ret s1" "drive n ins s1 = Ret s'" and nx: "set_next s + 1 < 2 ^ 64"
      by (auto simp: andthen_Ret_iff split: if_splits)
    have "reachable s1" using 2(3) set_step.process [OF Cons s1(1)] nx by (rule reachable.step)
    moreover have "\<not> 2 ^ 64 \<le> int (set_next s) + 1" using nx by simp
    ultimately show ?thesis using 2(2) Cons s1(2) by blast
  next
    case Nil
    show ?thesis
    proof (cases ins)
      case (Cons i rest)
      with Nil 2(4) have d: "drive n rest (s\<lparr>set_transactions := [i]\<rparr>) = Ret s'" and nx: "set_next s + 1 < 2 ^ 64"
        and ok: "input_ok (set_spec s) i" "0 < opt_BufferSize (set_options s)" by (auto split: if_splits)
      have "set_step s (s\<lparr>set_transactions := [] @ i # []\<rparr>)"
        using Nil ok by (intro set_step.input) auto
      then have "reachable (s\<lparr>set_transactions := [i]\<rparr>)" using 2(3) nx by (auto intro: reachable.step)
      moreover have "\<not> 2 ^ 64 \<le> int (set_next s) + 1" using nx by simp
      ultimately show ?thesis using 2(1) [OF _ Nil Cons] d ok by blast
    qed (use Nil 2(3,4) in \<open>auto split: if_splits\<close>)
  qed
qed simp

definition ex_run :: "unit txn list \<Rightarrow> (unit, unit) fset outcome" where
  "ex_run ins = andthen (NewSet ex_spec None ()) (drive 30 ins)"

lemma ex_run_reachable: "ex_run ins = Ret s \<Longrightarrow> reachable s"
  by (auto simp: ex_run_def andthen_Ret_iff intro: drive_reachable reachable.start [OF _ ex_spec_ok])

end
