(* ===== verification/Fsm_Correct.thy ===== *)
theory Fsm_Correct
  imports Fsm_Run
begin

text \<open>
  The correctness of the state machine library \<open>pkg/fsm\<close>: the theorems about the set of instances,
  each with an example run on which it applies.
\<close>

section \<open>Reachable sets\<close>

text \<open>
  (C2) From its creation on, and under every interleaving of the goroutine that accepts requests
  with the one that processes them, the set keeps its invariant: members are stored under their own
  ids, are in states of the spec, the index by state is exactly the partition of the members by
  state, the queue's back pointers are right and the transaction channel is within its capacity.
\<close>

theorem reachable_set_inv:
  "reachable s \<Longrightarrow> set_inv s \<and> int (length (set_transactions s)) \<le> opt_BufferSize (set_options s)"
  using reachable_run_inv by (auto simp: run_inv_def)

theorem reachable_set_inv_witness:
  "\<exists>s. ex_run [TAdd 0, TAdd 1, TClock, TDelete 1, TClock] = Ret s \<and> set_members s = [(0, 0)] \<and> set_now s = 2 \<and> set_inv s"
proof -
  have "returns (\<lambda>s. set_members s = [(0, 0)] \<and> set_now s = 2) (ex_run [TAdd 0, TAdd 1, TClock, TDelete 1, TClock])" by code_simp
  then obtain s where "ex_run [TAdd 0, TAdd 1, TClock, TDelete 1, TClock] = Ret s" "set_members s = [(0, 0)]" "set_now s = 2"
    by (auto elim: returnsE)
  with reachable_set_inv [OF ex_run_reachable] show ?thesis by blast
qed

text \<open>
  (C1) Every step of the set is a step of the abstract machine its clients see, a map from ids to
  states: it changes nothing, adds an unused id in a state of the spec, forgets an id, or moves one
  instance along a transition or an error transition of the spec.
\<close>

theorem set_step_refines:
  assumes "reachable s" "set_step s s'" "set_next s + 1 < 2 ^ 64"
  shows "abs_step (set_spec s) (abs_set s) (abs_set s')"
  using step_abs [OF reachable_run_inv [OF assms(1)] assms(2,3)] .

theorem set_step_refines_witness:
  "\<exists>(s :: (unit, unit) fset) s'. reachable s \<and> set_step s s' \<and> abs_set s 0 = Some 0 \<and> abs_set s' 0 = Some 2 \<and>
     abs_step (set_spec s) (abs_set s) (abs_set s')"
proof -
  let ?ev = "\<lparr>ev_instance = 0, ev_signal = 2, ev_data = None\<rparr> :: unit event"
  have "returns (\<lambda>s. abs_set s 0 = Some 0 \<and> set_next s = 1 \<and> set_transactions s = [] \<and> 0 < opt_BufferSize (set_options s) \<and> gm_has (sp_signals (set_spec s)) 2 \<and>
      returns (\<lambda>s'. abs_set s' 0 = Some 2) (run_txn (TEvent ?ev) (s\<lparr>set_transactions := []\<rparr>))) (ex_run [TAdd 0])" by code_simp
  then obtain s s' where s: "ex_run [TAdd 0] = Ret s" "abs_set s 0 = Some 0" "set_next s = 1" "set_transactions s = []"
    "0 < opt_BufferSize (set_options s)" "gm_has (sp_signals (set_spec s)) 2"
    and s': "run_txn (TEvent ?ev) (s\<lparr>set_transactions := []\<rparr>) = Ret s'" "abs_set s' 0 = Some 2" by (auto elim!: returnsE)
  let ?s = "s\<lparr>set_transactions := [] @ TEvent ?ev # []\<rparr>"
  have "set_step s ?s" using s by (intro set_step.input) auto
  then have r: "reachable ?s" by (rule reachable.step [OF ex_run_reachable [OF s(1)]]) (simp add: s(3))
  have st: "set_step ?s s'" by (rule set_step.process [of _ "TEvent ?ev" "[]"]) (use s' in simp_all)
  have "abs_step (set_spec ?s) (abs_set ?s) (abs_set s')" by (rule set_step_refines [OF r st]) (simp add: s(3))
  moreover have "abs_set ?s 0 = Some 0" using s(2) by (simp add: abs_set_def)
  ultimately show ?thesis using r st s'(2) by blast
qed

section \<open>Transactions\<close>

text \<open>
  (C6) A transaction brings the process down exactly when it adds an instance in a state outside
  the spec, or deletes or signals an instance that is not in the set: the error reported then cannot
  be formatted. Nothing else in a handler panics: no write to a nil map, no index out of range.
\<close>

theorem run_txn_panics_iff:
  assumes "reachable s" "set_next s + 1 < 2 ^ 64"
  shows "run_txn t s = Panics \<longleftrightarrow> (case t of
     TAdd i \<Rightarrow> \<not> gm_has (sp_states (set_spec s)) i
   | TDelete iid \<Rightarrow> \<not> gm_has (set_members s) iid
   | TEvent ev \<Rightarrow> \<not> gm_has (set_members s) (ev_instance ev)
   | TRaise ev \<Rightarrow> \<not> gm_has (set_members s) (ev_instance ev)
   | _ \<Rightarrow> False)"
proof -
  have "run_txn t s = Panics \<longleftrightarrow> \<not> admissible t s"
    using safe_run_txn [OF reachable_run_inv [OF assms(1)] _ assms(2), of t] inadmissible_panics [of t s] by auto
  then show ?thesis by (cases t) simp_all
qed

theorem run_txn_panics_iff_witness:
  "\<exists>s. ex_run [TAdd 0] = Ret s \<and> run_txn (TDelete 7) s = Panics \<and> run_txn (TAdd 5) s = Panics \<and> run_txn (TDelete 0) s \<noteq> Panics"
proof -
  have "returns (\<lambda>s. set_members s = [(0, 0)] \<and> set_next s = 1 \<and> \<not> gm_has (sp_states (set_spec s)) 5) (ex_run [TAdd 0])" by code_simp
  then obtain s where s: "ex_run [TAdd 0] = Ret s" "set_members s = [(0, 0)]" "set_next s = 1" "\<not> gm_has (sp_states (set_spec s)) 5"
    by (auto elim: returnsE)
  have "set_next s + 1 < 2 ^ 64" using s(3) by simp
  note P = run_txn_panics_iff [OF ex_run_reachable [OF s(1)] this]
  show ?thesis using s P [of "TDelete 7"] P [of "TAdd 5"] P [of "TDelete 0"] by (auto simp: gm_has_def)
qed

text \<open>
  (C9) Adding in a state of the spec always succeeds: the caller gets an id that was not in use, and
  the new instance is in the initial state with the deadline of that state. Nobody else changes.
\<close>

theorem add_correct:
  assumes "reachable s" "set_next s + 1 < 2 ^ 64" "gm_has (sp_states (set_spec s)) i"
  shows "\<exists>s'. run_txn (TAdd i) s = Ret s' \<and> set_replies s' = set_replies s @ [set_next s] \<and> abs_set s (set_next s) = None \<and>
    abs_set s' = (abs_set s)(set_next s \<mapsto> i) \<and>
    inst_deadline (set_store s' (set_fresh s)) = (if 0 < ttl_of (set_spec s) i then wrap64 (set_now s + ttl_of (set_spec s) i) else 0)"
proof -
  have inv: "set_inv s" using assms(1) by (intro run_invD reachable_run_inv)
  obtain s' where s': "handleAdd i s = Ret (s', None)" "set_members s' = gm_put (set_next s) (set_fresh s) (set_members s)"
    "set_replies s' = set_replies s @ [set_next s]"
    "erase (set_store s') = erase ((set_store s)(set_fresh s := instance_update i (set_now s) (ttl_of (set_spec s) i) (new_instance (set_next s) i)))"
    by (rule handleAdd_known [OF inv assms(3,2)])
  note E = erase_eqD [OF s'(4)] and M = set_invD(2) [OF inv]
  have "abs_set s' k = ((abs_set s)(set_next s \<mapsto> i)) k" for k
    using members_okD(1) [OF M, of k] E(2) by (cases "gm_get (set_members s) k") (auto simp: abs_set_def s'(2))
  moreover have "abs_set s (set_next s) = None"
    using members_okD(4) [OF M, of "set_next s"] by (cases "gm_get (set_members s) (set_next s)") (auto simp: abs_set_def)
  ultimately show ?thesis using s'(1,3) E(1) by (auto simp: run_txn_def txn_func_def)
qed

theorem add_correct_witness:
  "\<exists>s s'. ex_run [TAdd 0] = Ret s \<and> run_txn (TAdd 0) s = Ret s' \<and> set_replies s' = [0, 1] \<and> abs_set s' 1 = Some 0"
proof -
  have "returns (\<lambda>s. set_replies s = [0] \<and> set_next s = 1 \<and> gm_has (sp_states (set_spec s)) 0) (ex_run [TAdd 0])" by code_simp
  then obtain s where s: "ex_run [TAdd 0] = Ret s" "set_replies s = [0]" "set_next s = 1" "gm_has (sp_states (set_spec s)) 0"
    by (auto elim: returnsE)
  have "set_next s + 1 < 2 ^ 64" using s(3) by simp
  from add_correct [OF ex_run_reachable [OF s(1)] this s(4)] show ?thesis using s by auto
qed

text \<open>
  (C5) An event for a member moves it, and nobody else, to the state the spec asks for: the target
  of the transition; the same state when the transition is missing or flapping is detected; the
  error target when the action fails and there is one.
\<close>

theorem event_correct:
  assumes "reachable s" "gm_get (set_members s) (ev_instance ev) = Some a" "run_txn (TEvent ev) s = Ret s'"
  shows "abs_set s' = (abs_set s)(ev_instance ev \<mapsto> event_dest s a ev)"
proof -
  from assms(3) obtain s1 err where f: "handleEvent ev s = Ret (s1, err)" and e: "(case err of None \<Rightarrow> Ret s1 | Some e \<Rightarrow> handleError e s1) = Ret s'"
    by (auto simp: run_txn_def txn_func_def andthen_Ret_iff)
  note run = reachable_run_inv [OF assms(1)]
  have "abs_set s1 = (abs_set s)(ev_instance ev \<mapsto> event_dest s a ev)"
    using handleEvent_moved [OF run assms(2) f]
    by (intro abs_set_move [OF set_invD(2) [OF run_invD [OF run]] assms(2)]) (auto simp: event_moved_def)
  moreover have "abs_set s' = abs_set s1" using e handleError_abs by (cases err) auto
  ultimately show ?thesis by simp
qed

theorem event_correct_witness:
  "\<exists>s s'. ex_run [TAdd 0] = Ret s \<and> run_txn (TEvent \<lparr>ev_instance = 0, ev_signal = 1, ev_data = None\<rparr>) s = Ret s' \<and> abs_set s' = (abs_set s)(0 \<mapsto> 1)"
proof -
  let ?ev = "\<lparr>ev_instance = 0, ev_signal = 1, ev_data = None\<rparr> :: unit event"
  have "returns (\<lambda>s. gm_get (set_members s) 0 = Some 0 \<and> event_dest s 0 ?ev = 1 \<and> returns (\<lambda>s'. True) (run_txn (TEvent ?ev) s)) (ex_run [TAdd 0])"
    by code_simp
  then obtain s s' where s: "ex_run [TAdd 0] = Ret s" "gm_get (set_members s) (ev_instance ?ev) = Some 0" "run_txn (TEvent ?ev) s = Ret s'" "event_dest s 0 ?ev = 1"
    by (auto elim!: returnsE)
  from event_correct [OF ex_run_reachable [OF s(1)] s(2,3)] show ?thesis using s by auto
qed

text \<open>
  An event that makes its member land in a state counts the visit, and gives the member the
  deadline of that state, or none.
\<close>

theorem event_lands:
  assumes "reachable s" "gm_get (set_members s) (ev_instance ev) = Some a" "handleEvent ev s = Ret (s', err)"
    "transition (set_spec s) (inst_state (set_store s a)) (ev_signal ev) = Inr (nxt, action)"
    "snd (flap_check (set_spec s) (inst_state (set_store s a)) nxt (inst_flaps (set_store s a))) = None"
  shows "err = None \<and>
    gm_get0 0 (inst_visits (set_store s' a)) (event_dest s a ev) = wrap64 (gm_get0 0 (inst_visits (set_store s a)) (event_dest s a ev) + 1) \<and>
    inst_deadline (set_store s' a) = (if 0 < ttl_of (set_spec s) (event_dest s a ev)
      then wrap64 (set_now s + ttl_of (set_spec s) (event_dest s a ev)) else 0)"
proof -
  obtain h where "flap_check (set_spec s) (inst_state (set_store s a)) nxt (inst_flaps (set_store s a)) = (h, None)"
    using assms(5) by (metis prod.collapse)
  from handleEvent_lands [OF reachable_run_inv [OF assms(1)] assms(2-4) this] show ?thesis
    by (simp add: event_landed_def)
qed

definition transition_is :: "('d, 'w) fset \<Rightarrow> Signal \<Rightarrow> Index \<Rightarrow> bool" where
  "transition_is s signal nxt = (case transition (set_spec s) (inst_state (set_store s 0)) signal of Inl _ \<Rightarrow> False | Inr r \<Rightarrow> fst r = nxt)"

theorem event_lands_witness:
  "\<exists>s s'. ex_run [TAdd 0, TClock] = Ret s \<and> handleEvent \<lparr>ev_instance = 0, ev_signal = 1, ev_data = None\<rparr> s = Ret (s', None) \<and>
     gm_get0 0 (inst_visits (set_store s' 0)) 1 = 1 \<and> inst_deadline (set_store s 0) = 2 \<and> inst_deadline (set_store s' 0) = 0"
proof -
  let ?ev = "\<lparr>ev_instance = 0, ev_signal = 1, ev_data = None\<rparr> :: unit event"
  have "returns (\<lambda>s. gm_get (set_members s) 0 = Some 0 \<and> event_dest s 0 ?ev = 1 \<and> inst_deadline (set_store s 0) = 2 \<and>
      transition_is s 1 1 \<and> gm_get0 0 (inst_visits (set_store s 0)) 1 = 0 \<and> \<not> 0 < ttl_of (set_spec s) 1 \<and>
      snd (flap_check (set_spec s) (inst_state (set_store s 0)) 1 (inst_flaps (set_store s 0))) = None \<and>
      returns (\<lambda>(s', err). err = None) (handleEvent ?ev s)) (ex_run [TAdd 0, TClock])"
    by code_simp
  then obtain s s' where s: "ex_run [TAdd 0, TClock] = Ret s" "gm_get (set_members s) (ev_instance ?ev) = Some 0" "event_dest s 0 ?ev = 1"
    "inst_deadline (set_store s 0) = 2" "transition_is s 1 1"
    "gm_get0 0 (inst_visits (set_store s 0)) 1 = 0" "\<not> 0 < ttl_of (set_spec s) 1"
    "snd (flap_check (set_spec s) (inst_state (set_store s 0)) 1 (inst_flaps (set_store s 0))) = None"
    "handleEvent ?ev s = Ret (s', None)"
    by (auto elim!: returnsE)
  obtain action where "transition (set_spec s) (inst_state (set_store s 0)) (ev_signal ?ev) = Inr (1, action)"
    using s(5) by (cases "transition (set_spec s) (inst_state (set_store s 0)) 1") (auto simp: transition_is_def)
  from event_lands [OF ex_run_reachable [OF s(1)] s(2,9) this s(8)] show ?thesis using s by (auto simp: wrap64_def)
qed

section \<open>The clock\<close>

text \<open>
  (C3) When the queue is a heap, a clock tick fires exactly the instances whose deadline has passed,
  in the order of their deadlines: each one whose state has a time limit gets that state's signal on
  the transaction channel and leaves the queue. The tick never panics, and it fails to return only
  when more instances fire than the channel has room for.
\<close>

theorem tick_fires:
  assumes "reachable s" "q_heap (set_deadlines s, set_store s)" "set_now s + 1 < 2 ^ 63" "0 \<le> set_now s"
  shows "case handleClockTick s of
     Ret (s', err) \<Rightarrow> err = None \<and> set_now s' = set_now s + 1 \<and> abs_set s' = abs_set s \<and>
       (\<exists>xs. distinct xs \<and> set xs = {a \<in> set (set_deadlines s). inst_deadline (set_store s a) \<le> set_now s + 1} \<and>
         sorted (map (\<lambda>a. inst_deadline (set_store s a)) xs) \<and>
         set (set_deadlines s') = set (set_deadlines s) - set xs \<and>
         set_transactions s' = set_transactions s @
           map (tick_event (set_spec s) (set_store s)) (filter (fires (set_spec s) (set_store s)) xs))
   | Blocks \<Rightarrow> opt_BufferSize (set_options s) < int (length (set_transactions s) +
       card {a \<in> set (set_deadlines s). inst_deadline (set_store s a) \<le> set_now s + 1 \<and> fires (set_spec s) (set_store s) a})
   | Panics \<Rightarrow> False"
proof -
  have t: "tick_post (set_tick s) (handleClockTick s)" using reachable_run_inv [OF assms(1)] by (rule handleClockTick_post)
  have now: "set_now (set_tick s) = set_now s + 1" using assms(3,4) by (simp add: set_tick_def wrap64_id)
  have fr: "set_deadlines (set_tick s) = set_deadlines s" "set_store (set_tick s) = set_store s" "set_spec (set_tick s) = set_spec s"
    "set_options (set_tick s) = set_options s" "set_transactions (set_tick s) = set_transactions s" "set_members (set_tick s) = set_members s"
    by (simp_all add: set_tick_def)
  show ?thesis
  proof (cases "handleClockTick s")
    case (Ret r)
    obtain s' err where r: "r = (s', err)" by fastforce
    from t Ret r obtain xs where "err = None" "drained (set_tick s) xs" and dn: "tick_done (set_tick s) xs s'" by (auto simp: tick_post_def)
    moreover have "abs_set s' = abs_set s" using dn by (intro abs_set_cong) (auto simp: tick_done_def fr)
    ultimately show ?thesis using assms(2) dn
      by (auto simp: Ret r drained_def tick_done_def tick_raises_def now fr intro!: exI [of _ xs])
  qed (use t in \<open>auto simp: tick_post_def due_def now fr\<close>)
qed

theorem tick_fires_witness:
  "\<exists>s s' xs. ex_run [TAdd 0, TAdd 0, TClock] = Ret s \<and> handleClockTick s = Ret (s', None) \<and> set_now s' = 2 \<and>
     set xs = {0, 1} \<and> set_transactions s' = map (tick_event (set_spec s) (set_store s)) (filter (fires (set_spec s) (set_store s)) xs)"
proof -
  have "returns (\<lambda>s. set_deadlines s = [0, 1] \<and> inst_deadline (set_store s 0) = 2 \<and> inst_deadline (set_store s 1) = 2 \<and>
     set_now s = 1 \<and> set_transactions s = [] \<and> returns (\<lambda>_. True) (handleClockTick s)) (ex_run [TAdd 0, TAdd 0, TClock])" by code_simp
  then obtain s s' err where s: "ex_run [TAdd 0, TAdd 0, TClock] = Ret s" "set_deadlines s = [0, 1]" "inst_deadline (set_store s 0) = 2" "inst_deadline (set_store s 1) = 2"
    "set_now s = 1" "set_transactions s = []" "handleClockTick s = Ret (s', err)" by (auto elim!: returnsE)
  have k: "q_keys (set_deadlines s, set_store s) = [2, 2]" by (simp add: q_keys_def s(2-4) del: One_nat_def)
  have heap: "q_heap (set_deadlines s, set_store s)" unfolding k by (auto simp: heap_ord_def s(2) less_Suc_eq)
  have "{a \<in> set (set_deadlines s). inst_deadline (set_store s a) \<le> set_now s + 1} = {0, 1}" using s by auto
  with tick_fires [OF ex_run_reachable [OF s(1)] heap] s(1,5-7) show ?thesis by auto
qed

section \<open>Counting\<close>

text \<open>
  \<open>CountByState\<close> and \<open>Size\<close> report the number of instances in the given state, and of all
  instances, of the abstract machine.
\<close>

theorem counts_correct:
  assumes "reachable s"
  shows "CountByState st s = card {iid. abs_set s iid = Some st} \<and> Set_Size s = card (dom (abs_set s))"
proof -
  have inv: "set_inv s" using assms by (intro run_invD reachable_run_inv)
  note M = set_invD(2) [OF inv] and B = set_invD(3) [OF inv]
  have card: "length m = card (dom (gm_get m))" if "gm_ok m" for m :: "(ID, addr) gomap"
    using that by (metis distinct_card dom_map_of_conv_image_fst gm_ok_def length_map list.set_map)
  have "CountByState st s = card {iid. abs_set s iid = Some st}"
  proof (cases "gm_get (set_bystate s) st")
    case None
    then have "\<not> gm_has (sp_states (set_spec s)) st" using bystate_ok_has [OF B, of st] by (simp add: gm_has_def)
    then have "{iid. abs_set s iid = Some st} = {}" using members_okD(5) [OF M] by (auto simp: abs_set_def)
    then show ?thesis by (simp add: CountByState_def None)
  next
    case (Some m)
    have "dom (gm_get m) = {iid. abs_set s iid = Some st}"
      by (auto simp: abs_set_def dom_def bystate_okD(2) [OF B Some])
    then show ?thesis using card [OF bystate_okD(1) [OF B Some]] by (simp add: CountByState_def Some)
  qed
  moreover have "dom (abs_set s) = dom (gm_get (set_members s))" by (auto simp: abs_set_def dom_def)
  ultimately show ?thesis using card [OF members_ok_gm_ok [OF M]] by (simp add: Set_Size_def)
qed

theorem counts_correct_witness:
  "\<exists>s. ex_run [TAdd 0, TAdd 1, TAdd 0] = Ret s \<and> card {iid. abs_set s iid = Some 0} = 2 \<and> card (dom (abs_set s)) = 3"
proof -
  have "returns (\<lambda>s. CountByState 0 s = 2 \<and> Set_Size s = 3) (ex_run [TAdd 0, TAdd 1, TAdd 0])" by code_simp
  then obtain s where s: "ex_run [TAdd 0, TAdd 1, TAdd 0] = Ret s" "CountByState 0 s = 2" "Set_Size s = 3" by (auto elim: returnsE)
  from counts_correct [OF ex_run_reachable [OF s(1)], of 0] s show ?thesis by auto
qed

section \<open>Behaviours of the clock that the heap order hides\<close>




text \<open>
  A tick on which more instances expire than the channel has room for never returns: the
  goroutine that sends is the one that receives.
\<close>

theorem tick_blocks:
  "returns (\<lambda>s. blocks (handleClockTick s))
     (andthen (NewSet ex_spec (Some ((DefaultOptions [])\<lparr>opt_BufferSize := 1\<rparr>)) ()) (drive 30 [TAdd 0, TAdd 0, TClock]))"
  by code_simp

end
