(* ===== verification/Fsm_Fifo.thy ===== *)
theory Fsm_Fifo
  imports Prelude
begin

text \<open>
  The circular FIFO of \<open>pkg/fsm/fifo.go\<close>, which grows by its initial size when it is full, and the
  contract of a queue it implements. A slot holds \<open>None\<close> (a nil pointer) until it is written.
\<close>

section \<open>The code\<close>

record 'e fifo =
  ff_nodes :: "'e option list"
  ff_size :: nat
  ff_head :: nat
  ff_tail :: nat
  ff_count :: nat

definition newFifo :: "nat \<Rightarrow> 'e fifo" where
  "newFifo sz = \<lparr>ff_nodes = replicate sz None, ff_size = sz, ff_head = 0, ff_tail = 0, ff_count = 0\<rparr>"

definition fifo_Len :: "'e fifo \<Rightarrow> nat" where
  "fifo_Len q = ff_count q"

text \<open>\<open>copy(dst[at:], src)\<close> for a source that fits.\<close>

definition copy_at :: "nat \<Rightarrow> 'a list \<Rightarrow> 'a list \<Rightarrow> 'a list" where
  "copy_at k src dst = take k dst @ src @ drop (k + length src) dst"

definition fifo_grow :: "'e fifo \<Rightarrow> 'e fifo" where
  "fifo_grow q = (let
     nodes = replicate (length (ff_nodes q) + ff_size q) None;
     nodes = copy_at 0 (drop (ff_head q) (ff_nodes q)) nodes;
     nodes = copy_at (length (ff_nodes q) - ff_head q) (take (ff_head q) (ff_nodes q)) nodes
   in q\<lparr>ff_head := 0, ff_tail := length (ff_nodes q), ff_nodes := nodes\<rparr>)"

text \<open>A write outside the slice panics: a FIFO of size 0 has no slot to write to.\<close>

definition fifo_push :: "'e \<Rightarrow> 'e fifo \<Rightarrow> 'e fifo outcome" where
  "fifo_push n q = (let
     q = (if ff_head q = ff_tail q \<and> 0 < ff_count q then fifo_grow q else q)
   in if length (ff_nodes q) \<le> ff_tail q then Panics
      else Ret (q\<lparr>ff_nodes := (ff_nodes q)[ff_tail q := Some n],
             ff_tail := (ff_tail q + 1) mod length (ff_nodes q), ff_count := ff_count q + 1\<rparr>))"

definition fifo_pop :: "'e fifo \<Rightarrow> 'e option \<times> 'e fifo" where
  "fifo_pop q = (if ff_count q = 0 then (None, q)
     else (ff_nodes q ! ff_head q, q\<lparr>ff_head := (ff_head q + 1) mod length (ff_nodes q), ff_count := ff_count q - 1\<rparr>))"

section \<open>The contract\<close>

text \<open>A queue seen through the list \<open>view q\<close> of what is waiting, first to come out first.\<close>

fun push_all :: "('e \<Rightarrow> 'q \<Rightarrow> 'q outcome) \<Rightarrow> 'e list \<Rightarrow> 'q \<Rightarrow> 'q outcome" where
  "push_all push [] q = Ret q"
| "push_all push (x # xs) q = andthen (push x q) (push_all push xs)"

fun pop_n :: "('q \<Rightarrow> 'e option \<times> 'q) \<Rightarrow> nat \<Rightarrow> 'q \<Rightarrow> 'e option list \<times> 'q" where
  "pop_n pop 0 q = ([], q)"
| "pop_n pop (Suc n) q = (case pop q of (x, q) \<Rightarrow> case pop_n pop n q of (xs, q) \<Rightarrow> (x # xs, q))"

locale queue_contract =
  fixes empty :: "'q" and push :: "'e \<Rightarrow> 'q \<Rightarrow> 'q outcome" and pop :: "'q \<Rightarrow> 'e option \<times> 'q"
    and wf :: "'q \<Rightarrow> bool" and view :: "'q \<Rightarrow> 'e list"
  assumes wf_empty: "wf empty" and view_empty: "view empty = []"
    and push_view: "wf q \<Longrightarrow> \<exists>q'. push x q = Ret q' \<and> wf q' \<and> view q' = view q @ [x]"
    and pop_nil: "wf q \<Longrightarrow> view q = [] \<Longrightarrow> pop q = (None, q)"
    and pop_view: "wf q \<Longrightarrow> view q = x # xs \<Longrightarrow> \<exists>q'. pop q = (Some x, q') \<and> wf q' \<and> view q' = xs"
begin

lemma push_all_view: "wf q \<Longrightarrow> \<exists>q'. push_all push xs q = Ret q' \<and> wf q' \<and> view q' = view q @ xs"
proof (induction xs arbitrary: q)
  case (Cons x xs)
  from push_view [OF Cons.prems, of x] obtain q1 where q1: "push x q = Ret q1" "wf q1" "view q1 = view q @ [x]" by blast
  from Cons.IH [OF q1(2)] show ?case by (auto simp: q1)
qed simp

lemma pop_n_view: "wf q \<Longrightarrow> view q = xs @ ys \<Longrightarrow> \<exists>q'. pop_n pop (length xs) q = (map Some xs, q') \<and> wf q' \<and> view q' = ys"
proof (induction xs arbitrary: q)
  case (Cons x xs)
  from pop_view [OF Cons.prems(1), of x "xs @ ys"] Cons.prems(2) obtain q1 where q1: "pop q = (Some x, q1)" "wf q1" "view q1 = xs @ ys" by auto
  from Cons.IH [OF q1(2,3)] show ?case by (auto simp: q1)
qed simp

text \<open>What is pushed comes out, in order, and then nothing.\<close>

lemma fifo_order: "\<exists>q' q''. push_all push xs empty = Ret q' \<and> pop_n pop (length xs) q' = (map Some xs, q'') \<and> pop q'' = (None, q'')"
proof -
  from push_all_view [OF wf_empty, of xs] obtain q' where q': "push_all push xs empty = Ret q'" "wf q'" "view q' = xs @ []"
    by (auto simp: view_empty)
  from pop_n_view [OF q'(2,3)] obtain q'' where "pop_n pop (length xs) q' = (map Some xs, q'')" "wf q''" "view q'' = []" by blast
  with q'(1) pop_nil show ?thesis by blast
qed

end

section \<open>The circular buffer implements it\<close>

definition fifo_view :: "'e fifo \<Rightarrow> 'e list" where
  "fifo_view q = map (\<lambda>i. the (ff_nodes q ! ((ff_head q + i) mod length (ff_nodes q)))) [0..<ff_count q]"

definition fifo_wf :: "'e fifo \<Rightarrow> bool" where
  "fifo_wf q \<longleftrightarrow> 0 < ff_size q \<and> 0 < length (ff_nodes q) \<and> ff_head q < length (ff_nodes q) \<and> ff_count q \<le> length (ff_nodes q) \<and>
     ff_tail q = (ff_head q + ff_count q) mod length (ff_nodes q) \<and>
     (\<forall>i < ff_count q. ff_nodes q ! ((ff_head q + i) mod length (ff_nodes q)) \<noteq> None)"

lemma copy_at_nth:
  "k + length src \<le> length dst \<Longrightarrow> i < length dst \<Longrightarrow> copy_at k src dst ! i = (if k \<le> i \<and> i < k + length src then src ! (i - k) else dst ! i)"
  by (auto simp: copy_at_def nth_append)

lemma length_copy_at: "k + length src \<le> length dst \<Longrightarrow> length (copy_at k src dst) = length dst"
  by (simp add: copy_at_def)

text \<open>Growing unrolls the ring: slot \<open>i\<close> of the new slice is slot \<open>head + i\<close> of the ring.\<close>

lemma grow_nodes:
  assumes "ff_head q < length (ff_nodes q)"
  shows "length (ff_nodes (fifo_grow q)) = length (ff_nodes q) + ff_size q"
    and "i < length (ff_nodes q) \<Longrightarrow> ff_nodes (fifo_grow q) ! i = ff_nodes q ! ((ff_head q + i) mod length (ff_nodes q))"
proof -
  show "length (ff_nodes (fifo_grow q)) = length (ff_nodes q) + ff_size q"
    using assms by (simp add: fifo_grow_def length_copy_at)
  assume i: "i < length (ff_nodes q)"
  show "ff_nodes (fifo_grow q) ! i = ff_nodes q ! ((ff_head q + i) mod length (ff_nodes q))"
  proof (cases "i < length (ff_nodes q) - ff_head q")
    case True
    then show ?thesis using assms i by (simp add: fifo_grow_def copy_at_nth length_copy_at)
  next
    case False
    then have "(ff_head q + i) mod length (ff_nodes q) = i - (length (ff_nodes q) - ff_head q)"
      using i assms by (simp add: le_mod_geq)
    then show ?thesis using assms i False by (simp add: fifo_grow_def copy_at_nth length_copy_at)
  qed
qed

lemma grow_wf:
  assumes "fifo_wf q" "ff_head q = ff_tail q" "0 < ff_count q"
  shows "fifo_wf (fifo_grow q)" "fifo_view (fifo_grow q) = fifo_view q" "ff_count (fifo_grow q) < length (ff_nodes (fifo_grow q))"
proof -
  let ?n = "length (ff_nodes q)"
  have w: "0 < ff_size q" "0 < ?n" "ff_head q < ?n" "ff_count q \<le> ?n" using assms(1) by (auto simp: fifo_wf_def)
  have cnt: "ff_count q = ?n"
  proof (rule ccontr)
    assume "ff_count q \<noteq> ?n"
    with w assms have "(ff_head q + ff_count q) mod ?n \<noteq> ff_head q"
      by (cases "ff_head q + ff_count q < ?n") (auto simp: le_mod_geq mod_less)
    with assms show False by (simp add: fifo_wf_def)
  qed
  note g = grow_nodes [OF w(3)]
  have fr: "ff_head (fifo_grow q) = 0" "ff_count (fifo_grow q) = ff_count q" "ff_size (fifo_grow q) = ff_size q" "ff_tail (fifo_grow q) = ?n"
    by (simp_all add: fifo_grow_def Let_def)
  show "fifo_wf (fifo_grow q)" using assms(1) w cnt g by (auto simp: fifo_wf_def fr)
  show "fifo_view (fifo_grow q) = fifo_view q" using w cnt by (auto simp: fifo_view_def fr g)
  show "ff_count (fifo_grow q) < length (ff_nodes (fifo_grow q))" using w cnt g(1) by (simp add: fr)
qed

lemma push_room:
  fixes x
  assumes w: "fifo_wf q" and room: "ff_count q < length (ff_nodes q)"
  defines "q' \<equiv> q\<lparr>ff_nodes := (ff_nodes q)[ff_tail q := Some x], ff_tail := (ff_tail q + 1) mod length (ff_nodes q), ff_count := ff_count q + 1\<rparr>"
  shows "fifo_wf q'" "fifo_view q' = fifo_view q @ [x]"
proof -
  let ?n = "length (ff_nodes q)"
  have n: "0 < ?n" "ff_head q < ?n" "ff_tail q = (ff_head q + ff_count q) mod ?n" "0 < ff_size q" using w by (auto simp: fifo_wf_def)
  have inj: "(ff_head q + i) mod ?n \<noteq> ff_tail q" if "i < ff_count q" for i
    using that room n by (cases "ff_head q + i < ?n"; cases "ff_head q + ff_count q < ?n") (simp_all add: le_mod_geq)
  have t: "ff_tail q < ?n" using n by simp
  have nth: "ff_nodes q' ! ((ff_head q + i) mod ?n) = (if i = ff_count q then Some x else ff_nodes q ! ((ff_head q + i) mod ?n))" if "i \<le> ff_count q" for i
    using that inj [of i] t n(3) by (cases "i = ff_count q") (auto simp: q'_def)
  show "fifo_wf q'" using w room nth n by (auto simp: fifo_wf_def q'_def less_Suc_eq_le mod_Suc_eq)
  show "fifo_view q' = fifo_view q @ [x]" using nth by (auto simp: fifo_view_def) (auto simp: q'_def)
qed

lemma fifo_view_Nil: "fifo_view q = [] \<longleftrightarrow> ff_count q = 0"
  by (auto simp: fifo_view_def)

lemma pop_view_Cons:
  assumes w: "fifo_wf q" and v: "fifo_view q = x # xs"
  shows "\<exists>q'. fifo_pop q = (Some x, q') \<and> fifo_wf q' \<and> fifo_view q' = xs"
proof -
  let ?n = "length (ff_nodes q)"
  obtain c where c: "ff_count q = Suc c" using v by (cases "ff_count q") (auto simp: fifo_view_def)
  have n: "0 < ?n" "ff_head q < ?n" "ff_count q \<le> ?n" using w by (auto simp: fifo_wf_def)
  have shift: "((ff_head q + 1) mod ?n + i) mod ?n = (ff_head q + Suc i) mod ?n" for i by (simp add: mod_simps)
  have "[0..<Suc c] = 0 # map Suc [0..<c]" by (simp add: upt_conv_Cons map_Suc_upt)
  then have xs: "x = the (ff_nodes q ! ff_head q)" "xs = map (\<lambda>i. the (ff_nodes q ! ((ff_head q + Suc i) mod ?n))) [0..<c]"
    using v n by (auto simp: fifo_view_def c comp_def)
  have "ff_nodes q ! ((ff_head q + 0) mod ?n) \<noteq> None" using w c unfolding fifo_wf_def by (metis zero_less_Suc)
  then have "ff_nodes q ! ff_head q = Some x" using xs(1) n by auto
  moreover have "fifo_wf (q\<lparr>ff_head := (ff_head q + 1) mod ?n, ff_count := ff_count q - 1\<rparr>)"
    using w c shift unfolding fifo_wf_def by auto
  moreover have "fifo_view (q\<lparr>ff_head := (ff_head q + 1) mod ?n, ff_count := ff_count q - 1\<rparr>) = xs"
    using shift by (simp add: fifo_view_def c xs(2))
  ultimately show ?thesis by (simp add: fifo_pop_def c)
qed

lemma push_view_snoc:
  assumes w: "fifo_wf q"
  shows "\<exists>q'. fifo_push x q = Ret q' \<and> fifo_wf q' \<and> fifo_view q' = fifo_view q @ [x]"
proof -
  define q1 where "q1 = (if ff_head q = ff_tail q \<and> 0 < ff_count q then fifo_grow q else q)"
  have "fifo_wf q1 \<and> fifo_view q1 = fifo_view q \<and> ff_count q1 < length (ff_nodes q1)"
  proof (cases "ff_head q = ff_tail q \<and> 0 < ff_count q")
    case True
    then show ?thesis using grow_wf [OF w] by (simp add: q1_def)
  next
    case False
    have "ff_count q \<noteq> length (ff_nodes q)"
    proof
      assume "ff_count q = length (ff_nodes q)"
      with w have "ff_tail q = ff_head q" "0 < ff_count q" by (simp_all add: fifo_wf_def)
      with False show False by simp
    qed
    moreover have "ff_count q \<le> length (ff_nodes q)" using w by (simp add: fifo_wf_def)
    moreover have "q1 = q" using False by (auto simp: q1_def)
    ultimately show ?thesis using w by simp
  qed
  then have q1: "fifo_wf q1" "fifo_view q1 = fifo_view q" "ff_count q1 < length (ff_nodes q1)" by auto
  have "ff_tail q1 < length (ff_nodes q1)" using q1(1) by (simp add: fifo_wf_def)
  with push_room [OF q1(1,3), of x] q1(2) show ?thesis unfolding fifo_push_def q1_def [symmetric] Let_def by simp
qed

text \<open>The contract holds for every positive initial size.\<close>

interpretation ring: queue_contract "newFifo (Suc n)" fifo_push fifo_pop fifo_wf fifo_view for n
proof
  show "fifo_wf (newFifo (Suc n))" by (simp add: newFifo_def fifo_wf_def)
  show "fifo_view (newFifo (Suc n)) = []" by (simp add: newFifo_def fifo_view_def)
  show "\<exists>q'. fifo_push x q = Ret q' \<and> fifo_wf q' \<and> fifo_view q' = fifo_view q @ [x]" if "fifo_wf q" for q :: "'a fifo" and x
    using that by (rule push_view_snoc)
  show "fifo_pop q = (None, q)" if "fifo_wf q" "fifo_view q = []" for q :: "'a fifo"
    using that by (simp add: fifo_view_Nil fifo_pop_def)
  show "\<exists>q'. fifo_pop q = (Some x, q') \<and> fifo_wf q' \<and> fifo_view q' = xs" if "fifo_wf q" "fifo_view q = x # xs" for q :: "'a fifo" and x xs
    using that by (rule pop_view_Cons)
qed

text \<open>
  The circular buffer is a queue whatever its initial size: after any number of pushes the
  elements come out in the order they went in, across wrap-arounds and growth, and then it is empty.
\<close>

lemma fifo_in_order:
  "\<exists>q' q''. push_all fifo_push xs (newFifo (Suc n)) = Ret q' \<and> pop_n fifo_pop (length xs) q' = (map Some xs, q'') \<and>
     fifo_pop q'' = (None, q'')"
  by (rule ring.fifo_order)

text \<open>
  (C8) On any state the buffer can be in, pushing appends to what is waiting and popping takes the
  first of it; the number of elements is what \<open>Len\<close> says.
\<close>

theorem fifo_refines_list:
  assumes "fifo_wf q"
  shows "(\<exists>q'. fifo_push x q = Ret q' \<and> fifo_wf q' \<and> fifo_view q' = fifo_view q @ [x] \<and> fifo_Len q' = fifo_Len q + 1) \<and>
    (case fifo_view q of [] \<Rightarrow> fifo_pop q = (None, q)
      | y # ys \<Rightarrow> \<exists>q'. fifo_pop q = (Some y, q') \<and> fifo_wf q' \<and> fifo_view q' = ys)"
proof -
  have len: "fifo_Len q = length (fifo_view q)" for q :: "'a fifo" by (simp add: fifo_Len_def fifo_view_def)
  from ring.push_view [OF assms, of x] have "\<exists>q'. fifo_push x q = Ret q' \<and> fifo_wf q' \<and> fifo_view q' = fifo_view q @ [x] \<and> fifo_Len q' = fifo_Len q + 1"
    by (auto simp: len)
  then show ?thesis using ring.pop_nil [OF assms] ring.pop_view [OF assms] by (auto split: list.splits)
qed

theorem fifo_refines_list_witness:
  "\<exists>q'. fifo_push (CHR ''b'') \<lparr>ff_nodes = [Some CHR ''a''], ff_size = 1, ff_head = 0, ff_tail = 0, ff_count = 1\<rparr> = Ret q' \<and> fifo_view q' = ''ab''"
proof -
  let ?q = "\<lparr>ff_nodes = [Some CHR ''a''], ff_size = 1, ff_head = 0, ff_tail = 0, ff_count = 1\<rparr>"
  have w: "fifo_wf ?q" and v: "fifo_view ?q = ''a''" by (simp_all add: fifo_wf_def fifo_view_def)
  from fifo_refines_list [OF w, of "CHR ''b''"] v show ?thesis by auto
qed

end
