(* ===== verification/Kv_Store.thy ===== *)
theory Kv_Store
  imports Prelude
begin

text \<open>
  The key-value stores of \<open>pkg/store\<close>: the interface \<open>store.KV\<close>, \<open>store.Visit\<close> over it
  (\<open>store.go\<close>), and the store in memory (\<open>mem/mem.go\<close>). A key reaches the store as \<open>%v\<close> prints it;
  the bytes of an entry are of type \<open>'b\<close>.
\<close>

section \<open>The interface\<close>

record 'b Pair =
  pair_Key :: string
  pair_Value :: 'b

record ('s, 'b) KV =
  kv_Write :: "string \<Rightarrow> 'b \<Rightarrow> 's \<Rightarrow> string option \<times> 's"
  kv_Key :: "string \<Rightarrow> 's \<Rightarrow> string"
  kv_Read :: "string \<Rightarrow> 's \<Rightarrow> string + 'b"
  kv_Exists :: "string \<Rightarrow> 's \<Rightarrow> string + bool"
  kv_Delete :: "string \<Rightarrow> 's \<Rightarrow> string option \<times> 's"
  kv_Entries :: "'s \<Rightarrow> string + 'b Pair list"

section \<open>Visiting the entries\<close>

definition hasDifferentTags :: "tags \<Rightarrow> tags \<Rightarrow> bool" where
  "hasDifferentTags expected actual =
     (if actual = [] then True
      else list_ex (\<lambda>(k, v). case gm_get actual k of Some a \<Rightarrow> a \<noteq> v | None \<Rightarrow> False) expected)"

text \<open>
  The loop over the channel of entries. With the error and the client's state it returns what it left
  in the channel: the goroutine that feeds it is stuck for as long as that is not empty.
\<close>

fun visit_entries :: "tags \<Rightarrow> ('o \<Rightarrow> tags) option \<Rightarrow> ('b \<Rightarrow> string + 'o) \<Rightarrow> ('o \<Rightarrow> 'a \<Rightarrow> (string + bool) \<times> 'a) \<Rightarrow>
    'b Pair list \<Rightarrow> 'a \<Rightarrow> string option \<times> 'a \<times> 'b Pair list" where
  "visit_entries tags getTags decode visit [] acc = (None, acc, [])"
| "visit_entries tags getTags decode visit (entry # entries) acc =
     (case decode (pair_Value entry) of
        Inl err \<Rightarrow> (Some err, acc, entries)
      | Inr object \<Rightarrow>
          if (case getTags of None \<Rightarrow> False | Some f \<Rightarrow> 0 < length tags \<and> hasDifferentTags tags (f object))
          then visit_entries tags getTags decode visit entries acc
          else (case visit object acc of
              (Inl err, acc) \<Rightarrow> (Some err, acc, entries)
            | (Inr continued, acc) \<Rightarrow>
                if \<not> continued then (None, acc, entries) else visit_entries tags getTags decode visit entries acc))"

definition Visit :: "('s, 'b) KV \<Rightarrow> tags \<Rightarrow> ('o \<Rightarrow> tags) option \<Rightarrow> ('b \<Rightarrow> string + 'o) \<Rightarrow> ('o \<Rightarrow> 'a \<Rightarrow> (string + bool) \<times> 'a) \<Rightarrow>
    's \<Rightarrow> 'a \<Rightarrow> string option \<times> 'a \<times> 'b Pair list" where
  "Visit kv tags getTags decode visit st acc = (case kv_Entries kv st of
     Inl err \<Rightarrow> (Some err, acc, [])
   | Inr entries \<Rightarrow> visit_entries tags getTags decode visit entries acc)"

text \<open>The visitor of the simulators: it collects every object.\<close>

definition collecting :: "'o \<Rightarrow> 'o list \<Rightarrow> (string + bool) \<times> 'o list" where
  "collecting v matches = (Inr True, matches @ [v])"

section \<open>The store in memory\<close>

record 'b Mem =
  mem_prefix :: string
  mem_store :: "(string, 'b) gomap"

definition Mem_NewStore :: "string \<Rightarrow> 'b Mem" where
  "Mem_NewStore prefix = \<lparr>mem_prefix = prefix, mem_store = []\<rparr>"

definition Mem_Key :: "string \<Rightarrow> 'b Mem \<Rightarrow> string" where
  "Mem_Key key s = mem_prefix s @ ''-'' @ key"

definition Mem_Write :: "string \<Rightarrow> 'b \<Rightarrow> 'b Mem \<Rightarrow> string option \<times> 'b Mem" where
  "Mem_Write key object s = (None, s\<lparr>mem_store := gm_put (Mem_Key key s) object (mem_store s)\<rparr>)"

definition Mem_Exists :: "string \<Rightarrow> 'b Mem \<Rightarrow> string + bool" where
  "Mem_Exists key s = Inr (gm_has (mem_store s) (Mem_Key key s))"

definition Mem_Read :: "string \<Rightarrow> 'b Mem \<Rightarrow> string + 'b" where
  "Mem_Read key s = (case Mem_Exists key s of
     Inl err \<Rightarrow> Inl err
   | Inr ex \<Rightarrow>
       if \<not> ex then Inl (''not found '' @ key)
       else (case gm_get (mem_store s) (Mem_Key key s) of Some v \<Rightarrow> Inr v | None \<Rightarrow> Inl []))"

definition Mem_Delete :: "string \<Rightarrow> 'b Mem \<Rightarrow> string option \<times> 'b Mem" where
  "Mem_Delete key s = (case Mem_Exists key s of
     Inl err \<Rightarrow> (Some err, s)
   | Inr ex \<Rightarrow>
       if \<not> ex then (Some (''not found '' @ key), s)
       else (None, s\<lparr>mem_store := gm_del (Mem_Key key s) (mem_store s)\<rparr>))"

text \<open>\<open>strings.Split(k, "-")\<close>.\<close>

fun split_on :: "char \<Rightarrow> string \<Rightarrow> string list" where
  "split_on sep [] = [[]]"
| "split_on sep (c # cs) = (if c = sep then [] # split_on sep cs
     else (case split_on sep cs of [] \<Rightarrow> [[c]] | w # ws \<Rightarrow> (c # w) # ws))"

text \<open>Every key of the map has a dash, so the element 1 exists. \<open>order\<close> is the order of the \<open>range\<close> loop.\<close>

definition Mem_Entries :: "((string \<times> 'b) list \<Rightarrow> (string \<times> 'b) list) \<Rightarrow> 'b Mem \<Rightarrow> string + 'b Pair list" where
  "Mem_Entries order s = Inr (map (\<lambda>(k, v). \<lparr>pair_Key = split_on (CHR ''-'') k ! 1, pair_Value = v\<rparr>) (in_order order (mem_store s)))"

definition Mem_KV :: "((string \<times> 'b) list \<Rightarrow> (string \<times> 'b) list) \<Rightarrow> ('b Mem, 'b) KV" where
  "Mem_KV order = \<lparr>kv_Write = Mem_Write, kv_Key = Mem_Key, kv_Read = Mem_Read, kv_Exists = Mem_Exists, kv_Delete = Mem_Delete,
     kv_Entries = Mem_Entries order\<rparr>"

section \<open>The contract of a store\<close>

text \<open>A store is a finite map from keys to bytes; an operation fails only on a missing key.\<close>

locale kv_contract =
  fixes kv :: "('s, 'b) KV" and ok :: "'s \<Rightarrow> bool" and get :: "'s \<Rightarrow> string \<Rightarrow> 'b option"
  assumes finite_get: "ok st \<Longrightarrow> finite (dom (get st))"
    and Write: "ok st \<Longrightarrow> \<exists>st'. kv_Write kv k b st = (None, st') \<and> ok st' \<and> get st' = (get st)(k \<mapsto> b)"
    and Read: "ok st \<Longrightarrow> get st k = Some b \<Longrightarrow> kv_Read kv k st = Inr b"
    and Exists: "ok st \<Longrightarrow> kv_Exists kv k st = Inr (get st k \<noteq> None)"
    and Delete: "ok st \<Longrightarrow> get st k \<noteq> None \<Longrightarrow> \<exists>st'. kv_Delete kv k st = (None, st') \<and> ok st' \<and> get st' = (get st)(k := None)"
    and Delete_missing: "ok st \<Longrightarrow> get st k = None \<Longrightarrow> \<exists>err. kv_Delete kv k st = (Some err, st)"
    and Entries: "ok st \<Longrightarrow> \<exists>ps ks. kv_Entries kv st = Inr ps \<and> distinct ks \<and> set ks = dom (get st) \<and>
      map (\<lambda>p. Some (pair_Value p)) ps = map (get st) ks"
begin

lemma Write_E:
  assumes "ok st"
  obtains st' where "kv_Write kv k b st = (None, st')" "ok st'" "get st' = (get st)(k \<mapsto> b)"
  using Write [OF assms] by blast

lemma Delete_E:
  assumes "ok st" "get st k \<noteq> None"
  obtains st' where "kv_Delete kv k st = (None, st')" "ok st'" "get st' = (get st)(k := None)"
  using Delete [OF assms] by blast

text \<open>
  A visit that collects: if every stored entry decodes, it finds the objects with the right tags, one
  for each key, and drains the channel.
\<close>

lemma visit_entries_collects:
  assumes "map (\<lambda>p. Some (pair_Value p)) ps = map (get st) ks" "\<forall>k \<in> set ks. \<exists>b d. get st k = Some b \<and> decode b = Inr d \<and> obj k = d"
  shows "visit_entries tags (Some f) decode collecting ps acc =
    (None, acc @ filter (\<lambda>d. \<not> (0 < length tags \<and> hasDifferentTags tags (f d))) (map obj ks), [])"
  using assms
proof (induction ps arbitrary: ks acc)
  case (Cons p ps)
  then obtain k ks' where ks: "ks = k # ks'" "Some (pair_Value p) = get st k" "map (\<lambda>p. Some (pair_Value p)) ps = map (get st) ks'" by (cases ks) auto
  have "decode (pair_Value p) = Inr (obj k)" using Cons.prems(2) ks by auto
  then show ?case using Cons.IH [OF ks(3)] Cons.prems(2) ks(1) by (auto simp: collecting_def)
qed simp

lemma Visit_collects:
  assumes "ok st" "\<forall>k \<in> dom (get st). \<exists>b. get st k = Some b \<and> decode b = Inr (obj k)"
  shows "\<exists>ks. distinct ks \<and> set ks = dom (get st) \<and> Visit kv tags (Some f) decode collecting st [] =
    (None, filter (\<lambda>d. \<not> (0 < length tags \<and> hasDifferentTags tags (f d))) (map obj ks), [])"
proof -
  obtain ps ks where p: "kv_Entries kv st = Inr ps" "distinct ks" "set ks = dom (get st)" "map (\<lambda>p. Some (pair_Value p)) ps = map (get st) ks"
    using Entries [OF assms(1)] by blast
  then show ?thesis using visit_entries_collects [of ps st ks decode obj tags f "[]"] assms(2) by (auto simp: Visit_def)
qed

text \<open>A visit that asks for no tags collects everything.\<close>

lemma visit_entries_all:
  assumes "map (\<lambda>p. Some (pair_Value p)) ps = map (get st) ks" "\<forall>k \<in> set ks. \<exists>b. get st k = Some b \<and> decode b = Inr (obj k)"
  shows "visit_entries tags None decode collecting ps acc = (None, acc @ map obj ks, [])"
  using assms
proof (induction ps arbitrary: ks acc)
  case (Cons p ps)
  then obtain k ks' where ks: "ks = k # ks'" "Some (pair_Value p) = get st k" "map (\<lambda>p. Some (pair_Value p)) ps = map (get st) ks'" by (cases ks) auto
  have "decode (pair_Value p) = Inr (obj k)" using Cons.prems(2) ks by auto
  then show ?case using Cons.IH [OF ks(3)] Cons.prems(2) ks(1) by (auto simp: collecting_def)
qed simp

lemma Visit_all:
  assumes "ok st" "\<forall>k \<in> dom (get st). \<exists>b. get st k = Some b \<and> decode b = Inr (obj k)"
  shows "\<exists>ks. distinct ks \<and> set ks = dom (get st) \<and> Visit kv tags None decode collecting st [] = (None, map obj ks, [])"
proof -
  obtain ps ks where p: "kv_Entries kv st = Inr ps" "distinct ks" "set ks = dom (get st)" "map (\<lambda>p. Some (pair_Value p)) ps = map (get st) ks"
    using Entries [OF assms(1)] by blast
  then show ?thesis using visit_entries_all [of ps st ks decode obj tags "[]"] assms(2) by (auto simp: Visit_def)
qed

end

text \<open>The store in memory meets the contract, whatever the order of the \<open>range\<close> loop.\<close>

definition mem_get :: "'b Mem \<Rightarrow> string \<Rightarrow> 'b option" where
  "mem_get s key = gm_get (mem_store s) (Mem_Key key s)"

definition mem_ok :: "'b Mem \<Rightarrow> bool" where
  "mem_ok s \<longleftrightarrow> gm_ok (mem_store s) \<and> (\<forall>k \<in> fst ` set (mem_store s). \<exists>key. k = Mem_Key key s)"

lemma Mem_Key_inject [simp]: "Mem_Key k s = Mem_Key k' s \<longleftrightarrow> k = k'"
  by (simp add: Mem_Key_def)

lemma Mem_Key_store [simp]: "Mem_Key k (s\<lparr>mem_store := m\<rparr>) = Mem_Key k s"
  by (simp add: Mem_Key_def)

lemma mem_ok_new [simp]: "mem_ok (Mem_NewStore p)" "mem_get (Mem_NewStore p) = Map.empty"
  by (simp_all add: mem_ok_def Mem_NewStore_def mem_get_def fun_eq_iff)

lemma mem_ok_put: "mem_ok s \<Longrightarrow> mem_ok (s\<lparr>mem_store := gm_put (Mem_Key k s) v (mem_store s)\<rparr>)"
  by (auto simp: mem_ok_def gm_keys_put)

lemma mem_ok_del: "mem_ok s \<Longrightarrow> mem_ok (s\<lparr>mem_store := gm_del (Mem_Key k s) (mem_store s)\<rparr>)"
  unfolding mem_ok_def Mem_Key_store using dom_delete_subset [of "Mem_Key k s" "mem_store s"] gm_ok_del
  by (metis Mem.select_convs(2) Mem.surjective Mem.update_convs(2) subsetD)

lemma mem_entries:
  assumes "mem_ok s"
  shows "\<exists>ks. distinct ks \<and> set ks = dom (mem_get s) \<and> map (\<lambda>p. Some (snd p)) (in_order order (mem_store s)) = map (mem_get s) ks"
proof -
  let ?es = "in_order order (mem_store s)"
  have m: "mset ?es = mset (mem_store s)" by (simp add: in_order_def)
  define key where "key k = (SOME key. k = Mem_Key key s)" for k
  have key: "Mem_Key (key k) s = k" if "(k, v) \<in> set ?es" for k v
    using that mset_eq_setD [OF m] assms unfolding key_def mem_ok_def by (metis (mono_tags, lifting) fst_conv imageI someI_ex)
  have v: "mem_get s (key k) = Some v" if "(k, v) \<in> set ?es" for k v
    using that key [OF that] mset_eq_setD [OF m] assms by (simp add: mem_get_def mem_ok_def gm_mem_iff)
  have "distinct (map fst ?es)" using m assms by (metis gm_ok_def mem_ok_def mset_eq_imp_distinct_iff mset_map)
  moreover have "inj_on key (set (map fst ?es))" by (rule inj_onI) (use key in \<open>auto; metis\<close>)
  ultimately have "distinct (map (key \<circ> fst) ?es)" using distinct_map [of key "map fst ?es"] by simp
  moreover have "set (map (key \<circ> fst) ?es) = dom (mem_get s)"
  proof (intro set_eqI iffI)
    fix k assume "k \<in> dom (mem_get s)"
    then obtain b where b: "(Mem_Key k s, b) \<in> set ?es" using mset_eq_setD [OF m] assms by (auto simp: mem_get_def mem_ok_def gm_mem_iff)
    then have "key (Mem_Key k s) = k" using key [OF b] by simp
    then show "k \<in> set (map (key \<circ> fst) ?es)" using b by force
  qed (use v in auto)
  moreover have "map (\<lambda>p. Some (snd p)) ?es = map (mem_get s) (map (key \<circ> fst) ?es)" using v by (auto simp: prod.case_eq_if)
  ultimately show ?thesis by blast
qed

interpretation mem: kv_contract "Mem_KV order" mem_ok mem_get for order :: "(string \<times> 'b) list \<Rightarrow> (string \<times> 'b) list"
proof unfold_locales
  fix st :: "'b Mem" and k b assume ok: "mem_ok st"
  have "dom (mem_get st) \<subseteq> (\<lambda>k. drop (length (mem_prefix st) + 1) k) ` fst ` set (mem_store st)"
    by (force simp: mem_get_def Mem_Key_def dest!: map_of_SomeD)
  then show "finite (dom (mem_get st))" by (rule finite_subset) simp
  show "\<exists>st'. kv_Write (Mem_KV order) k b st = (None, st') \<and> mem_ok st' \<and> mem_get st' = (mem_get st)(k \<mapsto> b)"
    using mem_ok_put [OF ok] by (simp add: Mem_KV_def Mem_Write_def mem_get_def fun_eq_iff)
  show "kv_Read (Mem_KV order) k st = Inr b" if "mem_get st k = Some b"
    using that by (simp add: Mem_KV_def Mem_Read_def Mem_Exists_def mem_get_def gm_has_def)
  show "kv_Exists (Mem_KV order) k st = Inr (mem_get st k \<noteq> None)"
    by (simp add: Mem_KV_def Mem_Exists_def mem_get_def gm_has_def)
  show "\<exists>st'. kv_Delete (Mem_KV order) k st = (None, st') \<and> mem_ok st' \<and> mem_get st' = (mem_get st)(k := None)" if "mem_get st k \<noteq> None"
    using that mem_ok_del [OF ok] by (auto simp: Mem_KV_def Mem_Delete_def Mem_Exists_def mem_get_def gm_has_def fun_eq_iff)
  show "\<exists>err. kv_Delete (Mem_KV order) k st = (Some err, st)" if "mem_get st k = None"
    using that by (simp add: Mem_KV_def Mem_Delete_def Mem_Exists_def mem_get_def gm_has_def)
  show "\<exists>ps ks. kv_Entries (Mem_KV order) st = Inr ps \<and> distinct ks \<and> set ks = dom (mem_get st) \<and> map (\<lambda>p. Some (pair_Value p)) ps = map (mem_get st) ks"
    using mem_entries [OF ok, of order] by (auto simp: Mem_KV_def Mem_Entries_def comp_def prod.case_eq_if)
qed

end
