(* ===== verification/Load_Balancer.thy ===== *)
theory Load_Balancer
  imports Kv_Store
begin

text \<open>
  L4 load balancers: the interface and the routes of \<open>pkg/spi/loadbalancer\<close>, the simulated load
  balancer of \<open>pkg/run/v0/simulator/l4.go\<close> over a key-value store, and the contract of a load
  balancer, which the simulator meets. Ports are Go's \<open>int\<close>; the operations' results are texts that are
  only logged, so an operation returns its error and the new state.
\<close>

section \<open>Protocols\<close>

text \<open>A protocol is a string; \<open>ToUpper\<close> is written for ASCII text.\<close>

type_synonym Protocol = string

definition HTTP :: Protocol where "HTTP = ''HTTP''"
definition HTTPS :: Protocol where "HTTPS = ''HTTPS''"
definition TCP :: Protocol where "TCP = ''TCP''"
definition SSL :: Protocol where "SSL = ''SSL''"
definition UDP :: Protocol where "UDP = ''UDP''"
definition Invalid :: Protocol where "Invalid = ''''"

definition upper_char :: "char \<Rightarrow> char" where
  "upper_char c = (let n = (of_char c :: nat) in if 97 \<le> n \<and> n \<le> 122 then char_of (n - 32) else c)"

definition ToUpper :: "string \<Rightarrow> string" where
  "ToUpper s = map upper_char s"

definition protocols :: "Protocol list" where
  "protocols = [HTTP, HTTPS, TCP, SSL, UDP]"

definition ProtocolFromString :: "string \<Rightarrow> Protocol" where
  "ProtocolFromString protocol = (case find (\<lambda>p. p = ToUpper protocol) protocols of Some p \<Rightarrow> p | None \<Rightarrow> Invalid)"

text \<open>\<open>strings.Trim\<close> with one character to cut.\<close>

definition Trim :: "char \<Rightarrow> string \<Rightarrow> string" where
  "Trim c s = rev (dropWhile (\<lambda>x. x = c) (rev (dropWhile (\<lambda>x. x = c) s)))"

definition quote :: char where "quote = CHR 0x22"

definition Protocol_MarshalJSON :: "Protocol \<Rightarrow> string" where
  "Protocol_MarshalJSON p = [quote] @ p @ [quote]"

definition Protocol_UnmarshalJSON :: "string \<Rightarrow> string + Protocol" where
  "Protocol_UnmarshalJSON buff = (let parsed = ProtocolFromString (Trim quote buff) in
     if parsed = Invalid then Inl (''not valid protocol '' @ buff) else Inr parsed)"

definition Protocol_Valid :: "Protocol \<Rightarrow> bool" where
  "Protocol_Valid p \<longleftrightarrow> ProtocolFromString p \<noteq> Invalid"

section \<open>Routes\<close>

record Route =
  ro_Port :: int
  ro_Protocol :: Protocol
  ro_LoadBalancerPort :: int
  ro_LoadBalancerProtocol :: Protocol
  ro_Certificate :: "string option"
  ro_HealthMonitorPath :: "string option"

definition Route_Validate :: "Route \<Rightarrow> string option" where
  "Route_Validate r =
     (if ro_Port r = 0 then Some ''no port''
      else if ro_LoadBalancerPort r = 0 then Some ''no loadbalancer port''
      else if \<not> Protocol_Valid (ro_Protocol r) then Some (''bad protocol: '' @ ro_Protocol r)
      else if \<not> Protocol_Valid (ro_LoadBalancerProtocol r) then Some (''bad loadbalancer protocol: '' @ ro_LoadBalancerProtocol r)
      else if ro_LoadBalancerProtocol r = HTTPS \<and> ro_Certificate r = None then Some ''HTTPS but no certificate''
      else None)"

text \<open>Durations are nanoseconds.\<close>

record HealthCheck =
  hc_BackendPort :: int
  hc_Healthy :: int
  hc_Unhealthy :: int
  hc_Interval :: int
  hc_Timeout :: int

section \<open>The interface\<close>

record 'l L4 =
  l4_Name :: "'l \<Rightarrow> string"
  l4_Routes :: "'l \<Rightarrow> string + Route list"
  l4_Publish :: "Route \<Rightarrow> 'l \<Rightarrow> string option \<times> 'l"
  l4_Unpublish :: "int \<Rightarrow> 'l \<Rightarrow> string option \<times> 'l"
  l4_ConfigureHealthCheck :: "HealthCheck \<Rightarrow> 'l \<Rightarrow> string option \<times> 'l"
  l4_RegisterBackends :: "string list \<Rightarrow> 'l \<Rightarrow> string option \<times> 'l"
  l4_DeregisterBackends :: "string list \<Rightarrow> 'l \<Rightarrow> string option \<times> 'l"
  l4_Backends :: "'l \<Rightarrow> string + string list"

section \<open>The simulator\<close>

record 's l4Simulator =
  ls_name :: string
  ls_routes :: 's
  ls_backends :: 's
  ls_healthchecks :: 's

text \<open>
  What a simulator is built with: its stores, and the YAML encoder and decoder of what it keeps there
  (\<open>mustEncode\<close> of plain structures and strings does not fail).
\<close>

record ('s, 'b) l4_env =
  le_kv :: "('s, 'b) KV"
  le_newStore :: "string \<Rightarrow> 's"
  le_encode_route :: "Route \<Rightarrow> 'b"
  le_encode_check :: "HealthCheck \<Rightarrow> 'b"
  le_encode_id :: "string \<Rightarrow> 'b"
  le_decode_route :: "'b \<Rightarrow> string + Route"
  le_decode_id :: "'b \<Rightarrow> string + string"

definition NewL4 :: "('s, 'b) l4_env \<Rightarrow> string \<Rightarrow> 's l4Simulator" where
  "NewL4 env name = \<lparr>ls_name = name, ls_routes = le_newStore env ''route'', ls_backends = le_newStore env ''backend'',
     ls_healthchecks = le_newStore env ''healthcheck''\<rparr>"

definition sl_Routes :: "('s, 'b) l4_env \<Rightarrow> 's l4Simulator \<Rightarrow> string + Route list" where
  "sl_Routes env l = (case Visit (le_kv env) [] None (le_decode_route env) collecting (ls_routes l) [] of
     (Some err, _) \<Rightarrow> Inl err
   | (None, out, _) \<Rightarrow> Inr out)"

definition sl_Publish :: "('s, 'b) l4_env \<Rightarrow> Route \<Rightarrow> 's l4Simulator \<Rightarrow> string option \<times> 's l4Simulator" where
  "sl_Publish env route l = (case kv_Exists (le_kv env) (show_int (ro_LoadBalancerPort route)) (ls_routes l) of
     Inl err \<Rightarrow> (Some err, l)
   | Inr ex \<Rightarrow>
       if ex then (Some (''duplicate port '' @ show_int (ro_LoadBalancerPort route)), l)
       else (case kv_Write (le_kv env) (show_int (ro_LoadBalancerPort route)) (le_encode_route env route) (ls_routes l) of
         (err, st) \<Rightarrow> (err, l\<lparr>ls_routes := st\<rparr>)))"

definition sl_Unpublish :: "('s, 'b) l4_env \<Rightarrow> int \<Rightarrow> 's l4Simulator \<Rightarrow> string option \<times> 's l4Simulator" where
  "sl_Unpublish env extPort l = (case kv_Exists (le_kv env) (show_int extPort) (ls_routes l) of
     Inl err \<Rightarrow> (Some err, l)
   | Inr ex \<Rightarrow>
       if \<not> ex then (Some (''unknown port '' @ show_int extPort), l)
       else (case kv_Delete (le_kv env) (show_int extPort) (ls_routes l) of (err, st) \<Rightarrow> (err, l\<lparr>ls_routes := st\<rparr>)))"

definition sl_ConfigureHealthCheck :: "('s, 'b) l4_env \<Rightarrow> HealthCheck \<Rightarrow> 's l4Simulator \<Rightarrow> string option \<times> 's l4Simulator" where
  "sl_ConfigureHealthCheck env hc l =
     (case kv_Write (le_kv env) (show_int (hc_BackendPort hc)) (le_encode_check env hc) (ls_routes l) of
        (err, st) \<Rightarrow> (err, l\<lparr>ls_routes := st\<rparr>))"

fun sl_RegisterBackends :: "('s, 'b) l4_env \<Rightarrow> string list \<Rightarrow> 's l4Simulator \<Rightarrow> string option \<times> 's l4Simulator" where
  "sl_RegisterBackends env [] l = (None, l)"
| "sl_RegisterBackends env (iid # ids) l = (case kv_Write (le_kv env) iid (le_encode_id env iid) (ls_backends l) of
     (Some err, st) \<Rightarrow> (Some err, l\<lparr>ls_backends := st\<rparr>)
   | (None, st) \<Rightarrow> sl_RegisterBackends env ids (l\<lparr>ls_backends := st\<rparr>))"

fun sl_DeregisterBackends :: "('s, 'b) l4_env \<Rightarrow> string list \<Rightarrow> 's l4Simulator \<Rightarrow> string option \<times> 's l4Simulator" where
  "sl_DeregisterBackends env [] l = (None, l)"
| "sl_DeregisterBackends env (iid # ids) l =
     sl_DeregisterBackends env ids (l\<lparr>ls_backends := snd (kv_Delete (le_kv env) iid (ls_backends l))\<rparr>)"

definition sl_Backends :: "('s, 'b) l4_env \<Rightarrow> 's l4Simulator \<Rightarrow> string + string list" where
  "sl_Backends env l = (case Visit (le_kv env) [] None (le_decode_id env) collecting (ls_backends l) [] of
     (Some err, _) \<Rightarrow> Inl err
   | (None, out, _) \<Rightarrow> Inr out)"

definition sim_L4 :: "('s, 'b) l4_env \<Rightarrow> 's l4Simulator L4" where
  "sim_L4 env = \<lparr>l4_Name = ls_name, l4_Routes = sl_Routes env, l4_Publish = sl_Publish env, l4_Unpublish = sl_Unpublish env,
     l4_ConfigureHealthCheck = sl_ConfigureHealthCheck env, l4_RegisterBackends = sl_RegisterBackends env,
     l4_DeregisterBackends = sl_DeregisterBackends env, l4_Backends = sl_Backends env\<rparr>"

lemma sim_L4_simps [simp]:
  "l4_Name (sim_L4 env) = ls_name" "l4_Routes (sim_L4 env) = sl_Routes env" "l4_Publish (sim_L4 env) = sl_Publish env"
  "l4_Unpublish (sim_L4 env) = sl_Unpublish env" "l4_ConfigureHealthCheck (sim_L4 env) = sl_ConfigureHealthCheck env"
  "l4_RegisterBackends (sim_L4 env) = sl_RegisterBackends env" "l4_DeregisterBackends (sim_L4 env) = sl_DeregisterBackends env"
  "l4_Backends (sim_L4 env) = sl_Backends env"
  by (simp_all add: sim_L4_def)

section \<open>The contract\<close>

text \<open>
  A load balancer holds at most one route for each of its ports, and a set of backends. Publishing on
  a port that is taken and unpublishing one that is free are errors that change nothing.
\<close>

definition by_port :: "Route list \<Rightarrow> (int, Route) gomap" where
  "by_port rs = map (\<lambda>r. (ro_LoadBalancerPort r, r)) rs"

lemma by_port_simps [simp]:
  "by_port [] = []" "by_port (r # rs) = (ro_LoadBalancerPort r, r) # by_port rs" "map fst (by_port rs) = map ro_LoadBalancerPort rs"
  by (simp_all add: by_port_def comp_def)

lemma by_port_None: "gm_get (by_port rs) p = None \<longleftrightarrow> p \<notin> ro_LoadBalancerPort ` set rs"
  by (auto simp: by_port_def map_of_eq_None_iff image_image)

lemma by_port_Some: "distinct (map ro_LoadBalancerPort rs) \<Longrightarrow> gm_get (by_port rs) p = Some r \<longleftrightarrow> r \<in> set rs \<and> ro_LoadBalancerPort r = p"
  by (subst map_of_eq_Some_iff) (auto simp: by_port_def comp_def)

locale l4_contract =
  fixes l4 :: "'l L4" and ok :: "'l \<Rightarrow> bool" and rt :: "'l \<Rightarrow> int \<Rightarrow> Route option" and be :: "'l \<Rightarrow> string set"
  assumes Routes: "ok l \<Longrightarrow> \<exists>rs. l4_Routes l4 l = Inr rs \<and> distinct (map ro_LoadBalancerPort rs) \<and> rt l = gm_get (by_port rs)"
    and Publish: "ok l \<Longrightarrow> rt l (ro_LoadBalancerPort r) = None \<Longrightarrow>
      \<exists>l'. l4_Publish l4 r l = (None, l') \<and> ok l' \<and> rt l' = (rt l)(ro_LoadBalancerPort r \<mapsto> r) \<and> be l' = be l"
    and Publish_taken: "ok l \<Longrightarrow> rt l (ro_LoadBalancerPort r) \<noteq> None \<Longrightarrow> \<exists>err. l4_Publish l4 r l = (Some err, l)"
    and Unpublish: "ok l \<Longrightarrow> rt l p \<noteq> None \<Longrightarrow>
      \<exists>l'. l4_Unpublish l4 p l = (None, l') \<and> ok l' \<and> rt l' = (rt l)(p := None) \<and> be l' = be l"
    and Unpublish_free: "ok l \<Longrightarrow> rt l p = None \<Longrightarrow> \<exists>err. l4_Unpublish l4 p l = (Some err, l)"
    and Backends: "ok l \<Longrightarrow> \<exists>ids. l4_Backends l4 l = Inr ids \<and> set ids = be l"
    and RegisterBackends: "ok l \<Longrightarrow> \<exists>l'. l4_RegisterBackends l4 ids l = (None, l') \<and> ok l' \<and> rt l' = rt l \<and> be l' = be l \<union> set ids"
    and DeregisterBackends: "ok l \<Longrightarrow> \<exists>l'. l4_DeregisterBackends l4 ids l = (None, l') \<and> ok l' \<and> rt l' = rt l \<and> be l' = be l - set ids"

section \<open>The simulator meets the contract\<close>

lemma option_eqI: "(\<And>r. x = Some r \<longleftrightarrow> y = Some r) \<Longrightarrow> x = y"
  by (cases x; cases y) auto

definition sl_ok :: "('s, 'b) l4_env \<Rightarrow> ('s \<Rightarrow> bool) \<Rightarrow> ('s \<Rightarrow> string \<Rightarrow> 'b option) \<Rightarrow> 's l4Simulator \<Rightarrow> bool" where
  "sl_ok env ok get l \<longleftrightarrow> ok (ls_routes l) \<and> ok (ls_backends l) \<and>
     (\<forall>k b. get (ls_routes l) k = Some b \<longrightarrow> (\<exists>r. k = show_int (ro_LoadBalancerPort r) \<and> b = le_encode_route env r)) \<and>
     (\<forall>k b. get (ls_backends l) k = Some b \<longrightarrow> b = le_encode_id env k)"

definition sl_route :: "('s, 'b) l4_env \<Rightarrow> ('s \<Rightarrow> string \<Rightarrow> 'b option) \<Rightarrow> 's l4Simulator \<Rightarrow> int \<Rightarrow> Route option" where
  "sl_route env get l p = (case get (ls_routes l) (show_int p) of
     None \<Rightarrow> None | Some b \<Rightarrow> (case le_decode_route env b of Inl _ \<Rightarrow> None | Inr r \<Rightarrow> Some r))"

definition sl_ids :: "('s \<Rightarrow> string \<Rightarrow> 'b option) \<Rightarrow> 's l4Simulator \<Rightarrow> string set" where
  "sl_ids get l = dom (get (ls_backends l))"

locale sim_l4 = kv_contract "le_kv env" ok get
  for env :: "('s, 'b) l4_env" and ok get +
  assumes route_codec: "le_decode_route env (le_encode_route env r) = Inr r"
    and id_codec: "le_decode_id env (le_encode_id env i) = Inr i"
begin

lemma sl_routes_get:
  assumes "sl_ok env ok get l"
  shows "get (ls_routes l) (show_int p) = None \<longleftrightarrow> sl_route env get l p = None"
    and "sl_route env get l p = Some r \<longleftrightarrow> get (ls_routes l) (show_int p) = Some (le_encode_route env r) \<and> ro_LoadBalancerPort r = p"
proof -
  have "\<exists>r. get (ls_routes l) (show_int p) = Some (le_encode_route env r) \<and> ro_LoadBalancerPort r = p" if "get (ls_routes l) (show_int p) = Some b" for b
    using assms that unfolding sl_ok_def by (metis show_int_inject)
  then show "get (ls_routes l) (show_int p) = None \<longleftrightarrow> sl_route env get l p = None"
    and "sl_route env get l p = Some r \<longleftrightarrow> get (ls_routes l) (show_int p) = Some (le_encode_route env r) \<and> ro_LoadBalancerPort r = p"
    by (cases "get (ls_routes l) (show_int p)"; force simp: sl_route_def route_codec)+
qed

lemma sl_Routes_ok:
  assumes ok: "sl_ok env ok get l"
  shows "\<exists>rs. sl_Routes env l = Inr rs \<and> distinct (map ro_LoadBalancerPort rs) \<and> sl_route env get l = gm_get (by_port rs)"
proof -
  let ?g = "get (ls_routes l)"
  have "\<exists>r. k = show_int (ro_LoadBalancerPort r) \<and> ?g k = Some (le_encode_route env r)" if "k \<in> dom ?g" for k
    using ok that unfolding sl_ok_def by (metis domD)
  then obtain obj where obj: "k = show_int (ro_LoadBalancerPort (obj k))" "?g k = Some (le_encode_route env (obj k))" if "k \<in> dom ?g" for k by metis
  then obtain ks where ks: "distinct ks" "set ks = dom ?g" "Visit (le_kv env) [] None (le_decode_route env) collecting (ls_routes l) [] = (None, map obj ks, [])"
    using Visit_all [of "ls_routes l" "le_decode_route env" obj "[]"] ok route_codec unfolding sl_ok_def by metis
  have d: "distinct (map ro_LoadBalancerPort (map obj ks))"
    unfolding map_map distinct_map using ks(1,2) obj(1) by (metis (no_types, lifting) comp_apply inj_onI)
  have "sl_route env get l p = Some r \<longleftrightarrow> gm_get (by_port (map obj ks)) p = Some r" for p r
  proof -
    have "?g (show_int p) = Some (le_encode_route env r) \<longleftrightarrow> obj (show_int p) = r \<and> show_int p \<in> dom ?g"
      using obj(2) [of "show_int p"] route_codec by (metis domI option.inject sum.inject(2))
    moreover have "r \<in> obj ` dom ?g \<and> ro_LoadBalancerPort r = p \<longleftrightarrow> obj (show_int p) = r \<and> show_int p \<in> dom ?g \<and> ro_LoadBalancerPort r = p"
      by (auto simp del: domIff simp flip: obj(1) [OF domI])
    ultimately show ?thesis unfolding sl_routes_get(2) [OF ok] by_port_Some [OF d] using ks(2) by auto
  qed
  then have "sl_route env get l = gm_get (by_port (map obj ks))" by (intro ext option_eqI)
  then show ?thesis using ks d by (auto simp: sl_Routes_def)
qed

lemma sl_Publish_ok:
  assumes ok: "sl_ok env ok get l" and free: "sl_route env get l (ro_LoadBalancerPort r) = None"
  shows "\<exists>l'. sl_Publish env r l = (None, l') \<and> sl_ok env ok get l' \<and>
    sl_route env get l' = (sl_route env get l)(ro_LoadBalancerPort r \<mapsto> r) \<and> sl_ids get l' = sl_ids get l"
proof -
  let ?p = "ro_LoadBalancerPort r"
  have k: "ok (ls_routes l)" using ok by (simp add: sl_ok_def)
  obtain st where st: "kv_Write (le_kv env) (show_int ?p) (le_encode_route env r) (ls_routes l) = (None, st)" "ok st"
    "get st = (get (ls_routes l))(show_int ?p \<mapsto> le_encode_route env r)" using Write_E [OF k] .
  have "sl_ok env ok get (l\<lparr>ls_routes := st\<rparr>)" using ok st(2,3) unfolding sl_ok_def by auto
  moreover have "sl_route env get (l\<lparr>ls_routes := st\<rparr>) = (sl_route env get l)(?p \<mapsto> r)"
    by (auto simp: sl_route_def st(3) route_codec fun_eq_iff)
  ultimately show ?thesis using st(1) free
    by (simp add: sl_Publish_def Exists [OF k] sl_routes_get(1) [OF ok] sl_ids_def)
qed

lemma sl_Unpublish_ok:
  assumes ok: "sl_ok env ok get l" and taken: "sl_route env get l p \<noteq> None"
  shows "\<exists>l'. sl_Unpublish env p l = (None, l') \<and> sl_ok env ok get l' \<and>
    sl_route env get l' = (sl_route env get l)(p := None) \<and> sl_ids get l' = sl_ids get l"
proof -
  have k: "ok (ls_routes l)" using ok by (simp add: sl_ok_def)
  have has: "get (ls_routes l) (show_int p) \<noteq> None" using taken sl_routes_get(1) [OF ok] by simp
  obtain st where st: "kv_Delete (le_kv env) (show_int p) (ls_routes l) = (None, st)" "ok st"
    "get st = (get (ls_routes l))(show_int p := None)" using Delete_E [OF k has] .
  have "sl_ok env ok get (l\<lparr>ls_routes := st\<rparr>)" using ok st(2,3) unfolding sl_ok_def by auto
  moreover have "sl_route env get (l\<lparr>ls_routes := st\<rparr>) = (sl_route env get l)(p := None)"
    by (auto simp: sl_route_def st(3) fun_eq_iff)
  ultimately show ?thesis using st(1) has by (simp add: sl_Unpublish_def Exists [OF k] sl_ids_def)
qed

lemma sl_Backends_ok:
  assumes ok: "sl_ok env ok get l"
  shows "\<exists>ids. sl_Backends env l = Inr ids \<and> set ids = sl_ids get l"
proof -
  have "\<forall>k \<in> dom (get (ls_backends l)). \<exists>b. get (ls_backends l) k = Some b \<and> le_decode_id env b = Inr k"
    using ok id_codec unfolding sl_ok_def by (metis domD)
  then obtain ks where "set ks = dom (get (ls_backends l))"
      "Visit (le_kv env) [] None (le_decode_id env) collecting (ls_backends l) [] = (None, map (\<lambda>k. k) ks, [])"
    using Visit_all [of "ls_backends l" "le_decode_id env" "\<lambda>k. k" "[]"] ok unfolding sl_ok_def by blast
  then show ?thesis by (simp add: sl_Backends_def sl_ids_def)
qed

lemma sl_RegisterBackends_ok:
  "sl_ok env ok get l \<Longrightarrow> \<exists>l'. sl_RegisterBackends env ids l = (None, l') \<and> sl_ok env ok get l' \<and>
     sl_route env get l' = sl_route env get l \<and> sl_ids get l' = sl_ids get l \<union> set ids"
proof (induction ids arbitrary: l)
  case (Cons i ids)
  then have "ok (ls_backends l)" by (simp add: sl_ok_def)
  then obtain st where st: "kv_Write (le_kv env) i (le_encode_id env i) (ls_backends l) = (None, st)" "ok st"
    "get st = (get (ls_backends l))(i \<mapsto> le_encode_id env i)" by (rule Write_E)
  let ?l = "l\<lparr>ls_backends := st\<rparr>"
  have "sl_ok env ok get ?l" using Cons.prems st(2,3) unfolding sl_ok_def by auto
  from Cons.IH [OF this] show ?case using st(1,3) by (auto simp: sl_ids_def sl_route_def [abs_def])
qed simp

lemma sl_DeregisterBackends_ok:
  "sl_ok env ok get l \<Longrightarrow> \<exists>l'. sl_DeregisterBackends env ids l = (None, l') \<and> sl_ok env ok get l' \<and>
     sl_route env get l' = sl_route env get l \<and> sl_ids get l' = sl_ids get l - set ids"
proof (induction ids arbitrary: l)
  case (Cons i ids)
  then have k: "ok (ls_backends l)" by (simp add: sl_ok_def)
  define st where "st = snd (kv_Delete (le_kv env) i (ls_backends l))"
  have st: "ok st" "get st = (get (ls_backends l))(i := None)"
    using Delete [OF k, of i] Delete_missing [OF k, of i] k unfolding st_def by (cases "get (ls_backends l) i"; force)+
  let ?l = "l\<lparr>ls_backends := st\<rparr>"
  have "sl_ok env ok get ?l" using Cons.prems st unfolding sl_ok_def by auto
  from Cons.IH [OF this] show ?case using st(2) by (auto simp: sl_ids_def sl_route_def [abs_def] simp flip: st_def)
qed simp

end

sublocale sim_l4 \<subseteq> lb: l4_contract "sim_L4 env" "sl_ok env ok get" "sl_route env get" "sl_ids get"
proof unfold_locales
  fix l :: "'s l4Simulator" and r :: Route and p ids assume ok: "sl_ok env ok get l"
  have k: "ok (ls_routes l)" using ok by (simp add: sl_ok_def)
  show "\<exists>err. l4_Publish (sim_L4 env) r l = (Some err, l)" if "sl_route env get l (ro_LoadBalancerPort r) \<noteq> None"
    using that by (simp add: sl_Publish_def Exists [OF k] sl_routes_get(1) [OF ok])
  show "\<exists>err. l4_Unpublish (sim_L4 env) p l = (Some err, l)" if "sl_route env get l p = None"
    using that by (simp add: sl_Unpublish_def Exists [OF k] sl_routes_get(1) [OF ok])
qed (simp_all add: sl_Routes_ok sl_Publish_ok sl_Unpublish_ok sl_Backends_ok sl_RegisterBackends_ok sl_DeregisterBackends_ok)

text \<open>
  The simulator over stores in memory, with entries that keep what was encoded: the JSON decoder gives
  the zero route for an object that has none of a route's fields, and an error for a string.
\<close>

datatype l4_value = V_route Route | V_check HealthCheck | V_id string

definition zero_route :: Route where
  "zero_route = \<lparr>ro_Port = 0, ro_Protocol = [], ro_LoadBalancerPort = 0, ro_LoadBalancerProtocol = [], ro_Certificate = None, ro_HealthMonitorPath = None\<rparr>"

definition mem_l4 :: "((string \<times> l4_value) list \<Rightarrow> (string \<times> l4_value) list) \<Rightarrow> (l4_value Mem, l4_value) l4_env" where
  "mem_l4 order = \<lparr>le_kv = Mem_KV order, le_newStore = Mem_NewStore, le_encode_route = V_route, le_encode_check = V_check, le_encode_id = V_id,
     le_decode_route = (\<lambda>v. case v of V_route r \<Rightarrow> Inr r | V_check _ \<Rightarrow> Inr zero_route | V_id _ \<Rightarrow> Inl ''cannot unmarshal string''),
     le_decode_id = (\<lambda>v. case v of V_id i \<Rightarrow> Inr i | _ \<Rightarrow> Inl ''cannot unmarshal object'')\<rparr>"

interpretation mem_lb: sim_l4 "mem_l4 order" mem_ok mem_get for order
  by (simp add: sim_l4_def sim_l4_axioms_def mem_l4_def mem.kv_contract_axioms)

end
