(* ===== verification/Ingress_Routes.thy ===== *)
theory Ingress_Routes
  imports Load_Balancer
begin

text \<open>
  How the ingress controller brings the routes of one load balancer to the desired ones
  (\<open>pkg/controller/ingress/l4.go\<close>), proved over the contract of a load balancer and then of the
  simulated one.
\<close>

section \<open>The operations\<close>

datatype operation = createOp | changeOp | noop

text \<open>A nil string pointer reads as the empty string.\<close>

definition str_of :: "string option \<Rightarrow> string" where
  "str_of p = (case p of Some s \<Rightarrow> s | None \<Rightarrow> '''')"

definition route_match :: "Route \<Rightarrow> Route \<Rightarrow> bool" where
  "route_match route desired \<longleftrightarrow> ro_LoadBalancerPort route = ro_LoadBalancerPort desired \<and> ro_Protocol route = ro_Protocol desired \<and>
     ro_LoadBalancerProtocol route = ro_LoadBalancerProtocol desired"

definition route_differs :: "Route \<Rightarrow> Route \<Rightarrow> bool" where
  "route_differs route desired \<longleftrightarrow> ro_Port route \<noteq> ro_Port desired \<or> str_of (ro_Certificate route) \<noteq> str_of (ro_Certificate desired) \<or>
     str_of (ro_HealthMonitorPath route) \<noteq> str_of (ro_HealthMonitorPath desired)"

text \<open>The loop over the routes returns at the first match, which it takes out of the slice.\<close>

fun getRouteOperation :: "Route list \<Rightarrow> Route \<Rightarrow> operation \<times> Route list" where
  "getRouteOperation [] desired = (createOp, [])"
| "getRouteOperation (route # routes) desired =
     (if route_match route desired then (if route_differs route desired then changeOp else noop, routes)
      else (case getRouteOperation routes desired of (op, rest) \<Rightarrow> (op, route # rest)))"

text \<open>The lists \<open>toCreate\<close>, \<open>toChange\<close>, and the routes that are left.\<close>

fun plan_routes :: "Route list \<Rightarrow> Route list \<Rightarrow> Route list \<times> Route list \<times> Route list" where
  "plan_routes [] routes = ([], [], routes)"
| "plan_routes (l # desired) routes = (case getRouteOperation routes l of (op, routes) \<Rightarrow>
     (case plan_routes desired routes of (toCreate, toChange, left) \<Rightarrow>
       (case op of createOp \<Rightarrow> (l # toCreate, toChange, left)
        | changeOp \<Rightarrow> (toCreate, l # toChange, left)
        | noop \<Rightarrow> (toCreate, toChange, left))))"

fun create_routes :: "'l L4 \<Rightarrow> Route list \<Rightarrow> 'l \<Rightarrow> string option \<times> 'l" where
  "create_routes elb [] s = (None, s)"
| "create_routes elb (l # ls) s = (case l4_Publish elb l s of
     (Some err, s) \<Rightarrow> (Some err, s)
   | (None, s) \<Rightarrow> create_routes elb ls s)"

fun change_routes :: "'l L4 \<Rightarrow> Route list \<Rightarrow> 'l \<Rightarrow> string option \<times> 'l" where
  "change_routes elb [] s = (None, s)"
| "change_routes elb (l # ls) s = (case l4_Unpublish elb (ro_LoadBalancerPort l) s of
     (Some err, s) \<Rightarrow> (Some err, s)
   | (None, s) \<Rightarrow> (case l4_Publish elb l s of
       (Some err, s) \<Rightarrow> (Some err, s)
     | (None, s) \<Rightarrow> change_routes elb ls s))"

fun remove_routes :: "'l L4 \<Rightarrow> Route list \<Rightarrow> 'l \<Rightarrow> string option \<times> 'l" where
  "remove_routes elb [] s = (None, s)"
| "remove_routes elb (l # ls) s = (case l4_Unpublish elb (ro_LoadBalancerPort l) s of
     (Some err, s) \<Rightarrow> (Some err, s)
   | (None, s) \<Rightarrow> remove_routes elb ls s)"

record IngressOptions =
  io_HardSync :: bool
  io_MatchByLabels :: bool
  io_SyncInterval :: int
  io_SourceKeySelector :: string

definition configureL4 :: "'l L4 \<Rightarrow> Route list \<Rightarrow> IngressOptions \<Rightarrow> 'l \<Rightarrow> string option \<times> 'l" where
  "configureL4 elb desired options s = (case l4_Routes elb s of
     Inl err \<Rightarrow> (Some err, s)
   | Inr routes \<Rightarrow> (case plan_routes desired routes of (toCreate, toChange, routes) \<Rightarrow>
       (case create_routes elb toCreate s of
          (Some err, s) \<Rightarrow> (Some err, s)
        | (None, s) \<Rightarrow> (case change_routes elb toChange s of
            (Some err, s) \<Rightarrow> (Some err, s)
          | (None, s) \<Rightarrow> remove_routes elb routes s))))"

section \<open>What is to be created, changed and removed\<close>

abbreviation lb_port :: "Route \<Rightarrow> int" where "lb_port \<equiv> ro_LoadBalancerPort"
abbreviation ports :: "Route list \<Rightarrow> int set" where "ports rs \<equiv> lb_port ` set rs"

text \<open>A route serves a desired one if they agree in everything, where a nil pointer is an empty string.\<close>

definition serves :: "Route \<Rightarrow> Route \<Rightarrow> bool" where
  "serves route desired \<longleftrightarrow> route_match route desired \<and> \<not> route_differs route desired"

lemma serves_refl [simp]: "serves r r"
  by (simp add: serves_def route_match_def route_differs_def)

text \<open>Two routes on one port of the load balancer whose protocols differ.\<close>

definition clash :: "Route \<Rightarrow> Route \<Rightarrow> bool" where
  "clash route desired \<longleftrightarrow> lb_port route = lb_port desired \<and> \<not> route_match route desired"

lemma getRouteOperation_eq:
  "distinct (map lb_port routes) \<Longrightarrow> \<forall>r \<in> set routes. \<not> clash r d \<Longrightarrow> getRouteOperation routes d =
     (case gm_get (by_port routes) (lb_port d) of None \<Rightarrow> createOp | Some r \<Rightarrow> if serves r d then noop else changeOp,
      filter (\<lambda>r. lb_port r \<noteq> lb_port d) routes)"
proof (induction routes)
  case (Cons r rs)
  have "filter (\<lambda>r. lb_port r \<noteq> lb_port d) rs = rs" if "lb_port r = lb_port d"
    using Cons.prems(1) that by (simp add: filter_id_conv image_iff) metis
  then show ?case using Cons by (auto simp: serves_def clash_def route_match_def)
qed simp

lemma plan_routes_eq:
  assumes "distinct (map lb_port desired)" "distinct (map lb_port routes)" "\<forall>d \<in> set desired. \<forall>r \<in> set routes. \<not> clash r d"
  shows "plan_routes desired routes =
    (filter (\<lambda>d. lb_port d \<notin> ports routes) desired,
     filter (\<lambda>d. \<exists>r \<in> set routes. lb_port r = lb_port d \<and> \<not> serves r d) desired,
     filter (\<lambda>r. lb_port r \<notin> ports desired) routes)"
  using assms
proof (induction desired arbitrary: routes)
  case (Cons d ds)
  let ?rs = "filter (\<lambda>r. lb_port r \<noteq> lb_port d) routes"
  have op: "getRouteOperation routes d = (case gm_get (by_port routes) (lb_port d) of None \<Rightarrow> createOp | Some r \<Rightarrow> if serves r d then noop else changeOp, ?rs)"
    using getRouteOperation_eq [of routes d] Cons.prems by auto
  have IH: "plan_routes ds ?rs = (filter (\<lambda>d. lb_port d \<notin> ports ?rs) ds, filter (\<lambda>d. \<exists>r \<in> set ?rs. lb_port r = lb_port d \<and> \<not> serves r d) ds,
      filter (\<lambda>r. lb_port r \<notin> ports ds) ?rs)"
    using Cons.IH [of ?rs] Cons.prems by (auto simp: distinct_map_filter)
  have "lb_port x \<noteq> lb_port d" if "x \<in> set ds" for x using Cons.prems(1) that by (auto simp: image_iff)
  then have same: "filter (\<lambda>d. lb_port d \<notin> ports ?rs) ds = filter (\<lambda>d. lb_port d \<notin> ports routes) ds"
    "filter (\<lambda>d. \<exists>r \<in> set ?rs. lb_port r = lb_port d \<and> \<not> serves r d) ds = filter (\<lambda>d. \<exists>r \<in> set routes. lb_port r = lb_port d \<and> \<not> serves r d) ds"
    by (intro filter_cong; simp add: image_iff; metis)+
  have left: "filter (\<lambda>r. lb_port r \<notin> ports ds) ?rs = filter (\<lambda>r. lb_port r \<notin> ports (d # ds)) routes" by (auto intro: filter_cong)
  note plan = IH [unfolded same left]
  show ?case
  proof (cases "gm_get (by_port routes) (lb_port d)")
    case None
    then have "lb_port d \<notin> ports routes" "\<not> (\<exists>r \<in> set routes. lb_port r = lb_port d \<and> \<not> serves r d)"
      by (auto simp: by_port_None image_iff)
    then show ?thesis using None by (simp add: op plan)
  next
    case (Some r)
    then have r: "r \<in> set routes" "lb_port r = lb_port d" using by_port_Some [OF Cons.prems(2)] by auto
    have "(\<exists>x \<in> set routes. lb_port x = lb_port d \<and> \<not> serves x d) \<longleftrightarrow> \<not> serves r d"
      using r by_port_Some [OF Cons.prems(2), of "lb_port d"] Some by fastforce
    moreover have "lb_port d \<in> ports routes" using imageI [OF r(1), of lb_port] r(2) by simp
    ultimately show ?thesis using Some by (simp add: op plan)
  qed
qed simp

lemma by_port_add: "lb_port d \<notin> ports ds \<Longrightarrow> m(lb_port d \<mapsto> d) ++ gm_get (by_port ds) = m ++ gm_get (by_port (d # ds))"
  by (auto simp: fun_eq_iff map_add_def by_port_None [symmetric] split: option.splits)

lemma by_port_filter:
  "distinct (map lb_port ds) \<Longrightarrow> gm_get (by_port (filter P ds)) p = (case gm_get (by_port ds) p of None \<Rightarrow> None | Some d \<Rightarrow> if P d then Some d else None)"
proof (induction ds)
  case (Cons d ds)
  then have "gm_get (by_port ds) (lb_port d) = None" by (simp add: by_port_None)
  then show ?case using Cons by auto
qed simp

text \<open>The load balancer with the routes \<open>m\<close> serves the desired routes and no others.\<close>

definition routed :: "(int \<Rightarrow> Route option) \<Rightarrow> Route list \<Rightarrow> bool" where
  "routed m desired \<longleftrightarrow> (\<forall>p. rel_option serves (m p) (gm_get (by_port desired) p))"

text \<open>No desired route is on the port of a route with other protocols.\<close>

definition compatible :: "(int \<Rightarrow> Route option) \<Rightarrow> Route list \<Rightarrow> bool" where
  "compatible m desired \<longleftrightarrow> list_all (\<lambda>d. case m (lb_port d) of None \<Rightarrow> True | Some r \<Rightarrow> \<not> clash r d) desired"

lemma compatible_iff: "compatible m desired \<longleftrightarrow> (\<forall>d \<in> set desired. \<forall>r. m (lb_port d) = Some r \<longrightarrow> \<not> clash r d)"
  by (auto simp: compatible_def list_all_iff split: option.splits)

text \<open>A desired route that matches none of the routes is to be created.\<close>

lemma getRouteOperation_subset: "set (snd (getRouteOperation routes d)) \<subseteq> set routes"
  by (induction routes) (auto split: prod.splits)

lemma getRouteOperation_create: "\<forall>r \<in> set routes. \<not> route_match r d \<Longrightarrow> fst (getRouteOperation routes d) = createOp"
  by (induction routes) (auto split: prod.splits)

lemma plan_routes_create:
  "d \<in> set desired \<Longrightarrow> \<forall>r \<in> set routes. \<not> route_match r d \<Longrightarrow> d \<in> set (fst (plan_routes desired routes))"
proof (induction desired arbitrary: routes)
  case (Cons x desired)
  obtain op rest where op: "getRouteOperation routes x = (op, rest)" by force
  then have "set rest \<subseteq> set routes" using getRouteOperation_subset [of routes x] by simp
  then have "d \<in> set desired \<Longrightarrow> d \<in> set (fst (plan_routes desired rest))" using Cons by blast
  moreover have "d = x \<Longrightarrow> op = createOp" using getRouteOperation_create [of routes x] Cons.prems(2) op by simp
  ultimately show ?case using op Cons.prems(1) by (auto split: prod.splits operation.splits)
qed simp

section \<open>Over the contract\<close>

context l4_contract
begin

lemma create_routes_ok:
  "ok s \<Longrightarrow> distinct (map lb_port ds) \<Longrightarrow> \<forall>d \<in> set ds. rt s (lb_port d) = None \<Longrightarrow>
     \<exists>s'. create_routes l4 ds s = (None, s') \<and> ok s' \<and> rt s' = rt s ++ gm_get (by_port ds) \<and> be s' = be s"
proof (induction ds arbitrary: s)
  case (Cons d ds)
  obtain s1 where s1: "l4_Publish l4 d s = (None, s1)" "ok s1" "rt s1 = (rt s)(lb_port d \<mapsto> d)" "be s1 = be s"
    using Publish [OF Cons.prems(1), of d] Cons.prems(3) by auto
  have "\<forall>x \<in> set ds. rt s1 (lb_port x) = None" using Cons.prems(2,3) s1(3) by (auto simp: image_iff)
  from Cons.IH [OF s1(2) _ this] Cons.prems(2) obtain s' where s': "create_routes l4 ds s1 = (None, s')" "ok s'" "rt s' = rt s1 ++ gm_get (by_port ds)" "be s' = be s1"
    by auto
  have "rt s' = rt s ++ gm_get (by_port (d # ds))"
    unfolding s'(3) s1(3) using Cons.prems(2) by (simp add: by_port_add)
  then show ?case using s1 s' by simp
qed simp

lemma change_routes_ok:
  "ok s \<Longrightarrow> distinct (map lb_port ds) \<Longrightarrow> \<forall>d \<in> set ds. rt s (lb_port d) \<noteq> None \<Longrightarrow>
     \<exists>s'. change_routes l4 ds s = (None, s') \<and> ok s' \<and> rt s' = rt s ++ gm_get (by_port ds) \<and> be s' = be s"
proof (induction ds arbitrary: s)
  case (Cons d ds)
  obtain s0 where s0: "l4_Unpublish l4 (lb_port d) s = (None, s0)" "ok s0" "rt s0 = (rt s)(lb_port d := None)" "be s0 = be s"
    using Unpublish [OF Cons.prems(1), of "lb_port d"] Cons.prems(3) by auto
  obtain s1 where s1: "l4_Publish l4 d s0 = (None, s1)" "ok s1" "rt s1 = (rt s)(lb_port d \<mapsto> d)" "be s1 = be s"
    using Publish [OF s0(2), of d] s0(3,4) by auto
  have "\<forall>x \<in> set ds. rt s1 (lb_port x) \<noteq> None" using Cons.prems(3) s1(3) by auto
  from Cons.IH [OF s1(2) _ this] Cons.prems(2) obtain s' where s': "change_routes l4 ds s1 = (None, s')" "ok s'" "rt s' = rt s1 ++ gm_get (by_port ds)" "be s' = be s1"
    by auto
  have "rt s' = rt s ++ gm_get (by_port (d # ds))"
    unfolding s'(3) s1(3) using Cons.prems(2) by (simp add: by_port_add)
  then show ?case using s0 s1 s' by simp
qed simp

lemma remove_routes_ok:
  "ok s \<Longrightarrow> distinct (map lb_port ds) \<Longrightarrow> \<forall>d \<in> set ds. rt s (lb_port d) \<noteq> None \<Longrightarrow>
     \<exists>s'. remove_routes l4 ds s = (None, s') \<and> ok s' \<and> rt s' = rt s |` (- ports ds) \<and> be s' = be s"
proof (induction ds arbitrary: s)
  case (Cons d ds)
  obtain s1 where s1: "l4_Unpublish l4 (lb_port d) s = (None, s1)" "ok s1" "rt s1 = (rt s)(lb_port d := None)" "be s1 = be s"
    using Unpublish [OF Cons.prems(1), of "lb_port d"] Cons.prems(3) by auto
  have "\<forall>x \<in> set ds. rt s1 (lb_port x) \<noteq> None" using Cons.prems(2,3) s1(3) by (auto simp: image_iff)
  from Cons.IH [OF s1(2) _ this] Cons.prems(2) obtain s' where s': "remove_routes l4 ds s1 = (None, s')" "ok s'" "rt s' = rt s1 |` (- ports ds)" "be s' = be s1"
    by auto
  have "rt s' = rt s |` (- ports (d # ds))" unfolding s'(3) s1(3) by (auto simp: restrict_map_def fun_eq_iff)
  then show ?case using s1 s' by simp
qed (simp add: restrict_map_def)

lemma configureL4_ok:
  assumes ok: "ok s" and desired: "distinct (map lb_port desired)" and clash: "compatible (rt s) desired"
  shows "\<exists>s'. configureL4 l4 desired opts s = (None, s') \<and> ok s' \<and> be s' = be s \<and> routed (rt s') desired"
proof -
  obtain rs where rs: "l4_Routes l4 s = Inr rs" "distinct (map lb_port rs)" "rt s = gm_get (by_port rs)" using Routes [OF ok] by blast
  let ?c = "filter (\<lambda>d. lb_port d \<notin> ports rs) desired" and ?ch = "filter (\<lambda>d. \<exists>r \<in> set rs. lb_port r = lb_port d \<and> \<not> serves r d) desired"
  let ?rm = "filter (\<lambda>r. lb_port r \<notin> ports desired) rs"
  have "\<forall>d \<in> set desired. \<forall>r \<in> set rs. \<not> clash r d" using clash rs(3) by_port_Some [OF rs(2)] unfolding compatible_iff by (metis clash_def)
  note plan = plan_routes_eq [OF desired rs(2) this]
  obtain s1 where s1: "create_routes l4 ?c s = (None, s1)" "ok s1" "rt s1 = rt s ++ gm_get (by_port ?c)" "be s1 = be s"
    using create_routes_ok [OF ok, of ?c] desired by (auto simp: rs(3) by_port_None distinct_map_filter)
  have "\<forall>d \<in> set ?ch. rt s1 (lb_port d) \<noteq> None" using s1(3) rs(3) by (auto simp: map_add_None by_port_None)
  then obtain s2 where s2: "change_routes l4 ?ch s1 = (None, s2)" "ok s2" "rt s2 = rt s1 ++ gm_get (by_port ?ch)" "be s2 = be s1"
    using change_routes_ok [OF s1(2), of ?ch] desired by (auto simp: distinct_map_filter)
  have "\<forall>d \<in> set ?rm. rt s2 (lb_port d) \<noteq> None" using s1(3) s2(3) rs(3) by (auto simp: map_add_None by_port_None)
  then obtain s3 where s3: "remove_routes l4 ?rm s2 = (None, s3)" "ok s3" "rt s3 = rt s2 |` (- ports ?rm)" "be s3 = be s2"
    using remove_routes_ok [OF s2(2), of ?rm] rs(2) by (auto simp: distinct_map_filter)
  have "rel_option serves (rt s3 p) (gm_get (by_port desired) p)" for p
  proof (cases "gm_get (by_port desired) p")
    case None
    then have "rt s2 p = rt s p" using s1(3) s2(3) by (simp add: by_port_filter [OF desired] map_add_def)
    moreover have "p \<in> ports ?rm" if "gm_get (by_port rs) p = Some r" for r
      using that None by (auto simp: by_port_Some [OF rs(2)] by_port_None)
    ultimately show ?thesis using s3(3) rs(3) None by (cases "rt s p") (auto simp: restrict_map_def)
  next
    case (Some d)
    then have d: "d \<in> set desired" "lb_port d = p" by (simp_all add: by_port_Some [OF desired])
    then have "p \<in> ports desired" using imageI [of d "set desired" lb_port] by simp
    then have "lb_port x \<noteq> p" if "x \<in> set ?rm" for x using that by force
    then have "p \<notin> ports ?rm" by blast
    then have "rt s3 p = rt s2 p" using s3(3) by simp
    moreover have "(p \<in> ports rs) = (rt s p \<noteq> None)" using rs(3) by (simp add: by_port_None)
    moreover have "(\<exists>r \<in> set rs. lb_port r = p \<and> \<not> serves r d) \<longleftrightarrow> (\<exists>r. rt s p = Some r \<and> \<not> serves r d)"
      unfolding rs(3) by_port_Some [OF rs(2)] by blast
    ultimately show ?thesis using Some s1(3) s2(3) d
      by (cases "rt s p") (auto simp: by_port_filter [OF desired] map_add_def)
  qed
  then show ?thesis using s1 s2 s3 by (simp add: configureL4_def rs(1) plan routed_def)
qed

lemma create_routes_taken:
  "ok s \<Longrightarrow> d \<in> set ds \<Longrightarrow> rt s (lb_port d) = Some r \<Longrightarrow>
     \<exists>err s'. create_routes l4 ds s = (Some err, s') \<and> ok s' \<and> rt s' (lb_port d) = Some r \<and> be s' = be s"
proof (induction ds arbitrary: s)
  case (Cons x ds)
  show ?case
  proof (cases "rt s (lb_port x)")
    case None
    obtain s1 where s1: "l4_Publish l4 x s = (None, s1)" "ok s1" "rt s1 = (rt s)(lb_port x \<mapsto> x)" "be s1 = be s"
      using Publish [OF Cons.prems(1) None] by blast
    have "lb_port x \<noteq> lb_port d" using None Cons.prems(3) by auto
    then have "d \<in> set ds" "rt s1 (lb_port d) = Some r" using Cons.prems(2,3) s1(3) by auto
    from Cons.IH [OF s1(2) this] show ?thesis using s1(1,4) by simp
  next
    case (Some r')
    then show ?thesis using Publish_taken [OF Cons.prems(1), of x] Cons.prems by auto
  qed
qed simp

text \<open>Whatever fails, the load balancer stays well-formed.\<close>

lemma publish_keeps: "l4_Publish l4 d s = (e, s') \<Longrightarrow> ok s \<Longrightarrow> ok s'"
  using Publish [of s d] Publish_taken [of s d] by (cases "rt s (lb_port d)") force+

lemma unpublish_keeps: "l4_Unpublish l4 p s = (e, s') \<Longrightarrow> ok s \<Longrightarrow> ok s'"
  using Unpublish [of s p] Unpublish_free [of s p] by (cases "rt s p") force+

lemma loops_keep:
  "create_routes l4 ds s = (e, s') \<Longrightarrow> ok s \<Longrightarrow> ok s'"
  "change_routes l4 ds s = (e, s') \<Longrightarrow> ok s \<Longrightarrow> ok s'"
  "remove_routes l4 ds s = (e, s') \<Longrightarrow> ok s \<Longrightarrow> ok s'"
  by (induction ds arbitrary: s) (auto split: prod.splits option.splits dest: publish_keeps unpublish_keeps)

lemma configure_keeps: "ok s \<Longrightarrow> ok (snd (configureL4 l4 desired opts s))"
  by (auto simp: configureL4_def split: sum.splits prod.splits option.splits dest: loops_keep)
    (metis loops_keep snd_conv surj_pair)

text \<open>A desired route that is to replace one with other protocols keeps being refused.\<close>

lemma configureL4_clash:
  assumes ok: "ok s" and d: "d \<in> set desired" and r: "rt s (lb_port d) = Some r" and clash: "clash r d"
  shows "\<exists>err s'. configureL4 l4 desired opts s = (Some err, s') \<and> ok s' \<and> rt s' (lb_port d) = Some r \<and> be s' = be s"
proof -
  obtain rs where rs: "l4_Routes l4 s = Inr rs" "distinct (map lb_port rs)" "rt s = gm_get (by_port rs)" using Routes [OF ok] by blast
  have "x = r" if "x \<in> set rs" "lb_port x = lb_port d" for x using that r rs(3) by_port_Some [OF rs(2), of "lb_port d"] by (metis option.inject)
  then have "\<forall>x \<in> set rs. \<not> route_match x d" using clash by (auto simp: clash_def route_match_def)
  then have "d \<in> set (fst (plan_routes desired rs))" by (rule plan_routes_create [OF d])
  from create_routes_taken [OF ok this r] show ?thesis by (auto simp: configureL4_def rs(1) split: prod.splits)
qed

end

section \<open>The simulated load balancer\<close>

text \<open>
  The simulator keeps a health check among the routes. While it is there, no configuration of routes
  succeeds: the health check reads as a route on port 0, which cannot be unpublished.
\<close>

context sim_l4
begin

lemmas configure_ok = lb.configureL4_ok
lemmas configure_clash = lb.configureL4_clash
lemmas configure_ok_kept = lb.configure_keeps
lemmas contract = lb.l4_contract_axioms

definition no_zero :: "'s l4Simulator \<Rightarrow> bool" where
  "no_zero l \<longleftrightarrow> ok (ls_routes l) \<and> get (ls_routes l) (show_int 0) = None"

lemma no_zero_Publish: "no_zero l \<Longrightarrow> lb_port d \<noteq> 0 \<Longrightarrow> no_zero (snd (sl_Publish env d l))"
  using Write [of "ls_routes l" "show_int (lb_port d)" "le_encode_route env d"]
  by (auto simp: no_zero_def sl_Publish_def Exists)

lemma no_zero_Unpublish: "no_zero l \<Longrightarrow> no_zero (snd (sl_Unpublish env p l)) \<and> (p = 0 \<longrightarrow> fst (sl_Unpublish env p l) \<noteq> None)"
  using Delete [of "ls_routes l" "show_int p"] by (auto simp: no_zero_def sl_Unpublish_def Exists)

lemma no_zero_create: "no_zero l \<Longrightarrow> 0 \<notin> ports ds \<Longrightarrow> no_zero (snd (create_routes (sim_L4 env) ds l))"
proof (induction ds arbitrary: l)
  case (Cons d ds)
  have "no_zero (snd (sl_Publish env d l))" using no_zero_Publish [OF Cons.prems(1), of d] Cons.prems(2) by auto
  then show ?case using Cons by (auto split: prod.splits option.splits)
qed simp

lemma no_zero_change: "no_zero l \<Longrightarrow> 0 \<notin> ports ds \<Longrightarrow> no_zero (snd (change_routes (sim_L4 env) ds l))"
proof (induction ds arbitrary: l)
  case (Cons d ds)
  have u: "no_zero (snd (sl_Unpublish env (lb_port d) l))" using no_zero_Unpublish [OF Cons.prems(1)] by simp
  have "no_zero (snd (sl_Publish env d (snd (sl_Unpublish env (lb_port d) l))))" using no_zero_Publish [OF u, of d] Cons.prems(2) by auto
  then show ?case using u Cons by (auto split: prod.splits option.splits)
qed simp

lemma zero_not_removed: "no_zero l \<Longrightarrow> 0 \<in> ports rs \<Longrightarrow> fst (remove_routes (sim_L4 env) rs l) \<noteq> None"
proof (induction rs arbitrary: l)
  case (Cons r rs)
  have "no_zero (snd (sl_Unpublish env (lb_port r) l))" "lb_port r = 0 \<longrightarrow> fst (sl_Unpublish env (lb_port r) l) \<noteq> None"
    using no_zero_Unpublish [OF Cons.prems(1)] by simp_all
  then show ?case using Cons by (auto split: prod.splits option.splits)
qed simp

lemma plan_keeps_zero: "r \<in> set routes \<Longrightarrow> lb_port r \<notin> ports desired \<Longrightarrow> r \<in> set (snd (snd (plan_routes desired routes))) \<and>
    set (fst (plan_routes desired routes)) \<subseteq> set desired \<and> set (fst (snd (plan_routes desired routes))) \<subseteq> set desired"
proof (induction desired arbitrary: routes)
  case (Cons d desired)
  have "r \<in> set (snd (getRouteOperation routes d))"
    using Cons.prems by (induction routes) (auto simp: route_match_def split: prod.splits)
  from Cons.IH [OF this] Cons.prems(2) show ?case by (auto split: prod.splits operation.splits)
qed simp

lemma configure_zero:
  assumes "no_zero l" "sl_Routes env l = Inr rs" "0 \<in> ports rs" "0 \<notin> ports desired"
  shows "fst (configureL4 (sim_L4 env) desired opts l) \<noteq> None"
proof -
  obtain c ch rm where plan: "plan_routes desired rs = (c, ch, rm)" by (metis prod_cases3)
  have sub: "set c \<subseteq> set desired" "set ch \<subseteq> set desired" "0 \<in> ports rm"
    using assms(3,4) plan_keeps_zero [of _ rs desired] plan by (force simp: image_iff)+
  have c: "no_zero (snd (create_routes (sim_L4 env) c l))" using no_zero_create [OF assms(1)] sub(1) assms(4) by blast
  have "no_zero (snd (change_routes (sim_L4 env) ch (snd (create_routes (sim_L4 env) c l))))" using no_zero_change [OF c] sub(2) assms(4) by blast
  from zero_not_removed [OF this sub(3)] show ?thesis
    by (auto simp: configureL4_def assms(2) plan split: prod.splits option.splits)
qed

lemma health_check_blocks:
  assumes l: "sl_ok env ok get l" "sl_route env get l 0 = None" and hc: "hc_BackendPort hc \<noteq> 0"
    and decode: "le_decode_route env (le_encode_check env hc) = Inr r0" "lb_port r0 = 0" and desired: "0 \<notin> ports desired"
  shows "fst (sl_ConfigureHealthCheck env hc l) = None \<and> fst (configureL4 (sim_L4 env) desired opts (snd (sl_ConfigureHealthCheck env hc l))) \<noteq> None"
proof -
  have k: "ok (ls_routes l)" using l by (simp add: sl_ok_def)
  let ?k = "show_int (hc_BackendPort hc)"
  obtain st where st: "kv_Write (le_kv env) ?k (le_encode_check env hc) (ls_routes l) = (None, st)" "ok st" "get st = (get (ls_routes l))(?k \<mapsto> le_encode_check env hc)"
    using Write_E [OF k] .
  define dec where "dec k = projr (le_decode_route env (the (get st k)))" for k
  have "le_decode_route env b = Inr (dec k)" if "get st k = Some b" for k b
  proof (cases "k = ?k")
    case False
    then have "get (ls_routes l) k = Some b" using that st(3) by simp
    then obtain r where "b = le_encode_route env r" using l(1) unfolding sl_ok_def by blast
    then show ?thesis using that by (simp add: dec_def route_codec)
  qed (use that decode(1) in \<open>simp add: dec_def st(3)\<close>)
  then have "\<forall>k \<in> dom (get st). \<exists>b. get st k = Some b \<and> le_decode_route env b = Inr (dec k)" by auto
  from Visit_all [OF st(2) this, of "[]"] obtain ks where ks: "set ks = dom (get st)"
    "Visit (le_kv env) [] None (le_decode_route env) collecting st [] = (None, map dec ks, [])" by blast
  have "dec ?k = r0" using decode(1) by (simp add: dec_def st(3))
  then have "r0 \<in> set (map dec ks)" using ks(1) st(3) by force
  then have "0 \<in> ports (map dec ks)" using decode(2) by force
  moreover have "no_zero (l\<lparr>ls_routes := st\<rparr>)" using st(2,3) l(2) hc sl_routes_get(1) [OF l(1), of 0] by (simp add: no_zero_def)
  ultimately show ?thesis using configure_zero [of "l\<lparr>ls_routes := st\<rparr>" "map dec ks" desired opts] desired ks(2) st(1)
    by (auto simp: sl_ConfigureHealthCheck_def sl_Routes_def)
qed

end

text \<open>
  A simulator over stores in memory whose entries decode to what was encoded, and its abstraction: the
  route of each port and the backends.
\<close>

definition l4_setup :: "(('b Mem), 'b) l4_env \<Rightarrow> ((string \<times> 'b) list \<Rightarrow> (string \<times> 'b) list) \<Rightarrow> bool" where
  "l4_setup env order \<longleftrightarrow> le_kv env = Mem_KV order \<and> le_newStore env = Mem_NewStore \<and>
     (\<forall>r. le_decode_route env (le_encode_route env r) = Inr r) \<and> (\<forall>i. le_decode_id env (le_encode_id env i) = Inr i)"

abbreviation lb_ok :: "('b Mem, 'b) l4_env \<Rightarrow> 'b Mem l4Simulator \<Rightarrow> bool" where "lb_ok env \<equiv> sl_ok env mem_ok mem_get"
abbreviation lb_routes :: "('b Mem, 'b) l4_env \<Rightarrow> 'b Mem l4Simulator \<Rightarrow> int \<Rightarrow> Route option" where "lb_routes env \<equiv> sl_route env mem_get"
abbreviation lb_backends :: "'b Mem l4Simulator \<Rightarrow> string set" where "lb_backends \<equiv> sl_ids mem_get"

lemma l4_setup_sim: "l4_setup env order \<Longrightarrow> sim_l4 env mem_ok mem_get"
  unfolding sim_l4_def sim_l4_axioms_def l4_setup_def using mem.kv_contract_axioms by metis

lemma mem_l4_setup [simp]: "l4_setup (mem_l4 order) order"
  by (simp add: l4_setup_def mem_l4_def)

lemma NewL4_ok: "l4_setup env order \<Longrightarrow> lb_ok env (NewL4 env name) \<and> lb_routes env (NewL4 env name) = Map.empty \<and> lb_backends (NewL4 env name) = {}"
  by (simp add: l4_setup_def sl_ok_def NewL4_def sl_route_def [abs_def] sl_ids_def)

end
