(* ===== verification/Plugin_Name.thy ===== *)
theory Plugin_Name
  imports Prelude
begin

text \<open>
  Plugin names, \<open>pkg/plugin/name.go\<close>: a lookup name, and after the first slash the type or the object
  that is meant there. \<open>Rel\<close>, which goes through \<open>path/filepath\<close>, is left out.
\<close>

type_synonym Name = string

text \<open>\<open>strings.Index\<close> and \<open>strings.LastIndex\<close> of one character; -1 if there is none.\<close>

fun str_Index :: "string \<Rightarrow> char \<Rightarrow> int" where
  "str_Index [] c = -1"
| "str_Index (x # xs) c = (if x = c then 0 else let i = str_Index xs c in if i = -1 then -1 else i + 1)"

definition str_LastIndex :: "string \<Rightarrow> char \<Rightarrow> int" where
  "str_LastIndex s c = (let i = str_Index (rev s) c in if i = -1 then -1 else int (length s) - 1 - i)"

definition slash :: char where "slash = CHR ''/''"

definition Name_Zero :: "Name \<Rightarrow> bool" where
  "Name_Zero n \<longleftrightarrow> length n = 0"

definition NamesFrom :: "string list \<Rightarrow> Name list" where
  "NamesFrom list = fold (\<lambda>v n. n @ [v]) list []"

definition NameFrom :: "string \<Rightarrow> string \<Rightarrow> Name" where
  "NameFrom lookup sub = (if sub \<noteq> '''' then lookup @ [slash] @ sub else lookup)"

definition GetLookupAndType :: "Name \<Rightarrow> string \<times> string" where
  "GetLookupAndType name = (let first = str_Index name slash in
     if 0 \<le> first then (take (nat first) name, drop (nat first + 1) name) else (name, ''''))"

definition Name_Lookup :: "Name \<Rightarrow> string" where
  "Name_Lookup n = fst (GetLookupAndType n)"

definition LookupOnly :: "Name \<Rightarrow> Name" where
  "LookupOnly n = fst (GetLookupAndType n) @ [slash]"

definition WithType :: "Name \<Rightarrow> string \<Rightarrow> Name" where
  "WithType n t = Name_Lookup n @ [slash] @ t"

definition Name_Sub :: "Name \<Rightarrow> string \<Rightarrow> Name" where
  "Name_Sub n v = WithType n v"

definition Name_Equal :: "Name \<Rightarrow> Name \<Rightarrow> bool" where
  "Name_Equal n other \<longleftrightarrow> n = other"

definition HasType :: "Name \<Rightarrow> bool" where
  "HasType n \<longleftrightarrow> snd (GetLookupAndType n) \<noteq> ''''"

definition Name_Type :: "Name \<Rightarrow> string" where
  "Name_Type n = snd (GetLookupAndType n)"

definition Name_IsEmpty :: "Name \<Rightarrow> bool" where
  "Name_IsEmpty n \<longleftrightarrow> n = ''''"

definition name_quote :: char where "name_quote = CHR 0x22"

definition Name_MarshalJSON :: "Name \<Rightarrow> string" where
  "Name_MarshalJSON n = [name_quote] @ n @ [name_quote]"

text \<open>The slice \<open>str[start+1 : last]\<close> panics if \<open>last\<close> is below \<open>start+1\<close>.\<close>

definition Name_UnmarshalJSON :: "string \<Rightarrow> (string + Name) outcome" where
  "Name_UnmarshalJSON data = (let start = str_Index data name_quote; last = str_LastIndex data name_quote in
     if start = 0 \<and> last = int (length data) - 1 then
       (if last < start + 1 then Panics else Ret (Inr (take (nat (last - (start + 1))) (drop (nat (start + 1)) data))))
     else Ret (Inl (''bad-format-for-name:'' @ data)))"

section \<open>Taking names apart\<close>

lemma str_Index_range: "str_Index s c = -1 \<and> c \<notin> set s \<or> 0 \<le> str_Index s c \<and> c \<in> set s"
  by (induction s) (auto simp: Let_def)

lemma str_Index_first: "c \<notin> set a \<Longrightarrow> str_Index (a @ c # b) c = int (length a)"
  by (induction a) (auto simp: Let_def)

lemma str_Index_none: "str_Index s c < 0 \<longleftrightarrow> c \<notin> set s"
  using str_Index_range [of s c] by linarith

lemma GetLookupAndType_split: "slash \<notin> set a \<Longrightarrow> GetLookupAndType (a @ slash # b) = (a, b)"
  by (simp add: GetLookupAndType_def str_Index_first nat_add_distrib)

lemma GetLookupAndType_plain: "slash \<notin> set a \<Longrightarrow> GetLookupAndType a = (a, '''')"
  using str_Index_none [of a slash] by (simp add: GetLookupAndType_def Let_def)

lemma GetLookupAndType_NameFrom: "slash \<notin> set a \<Longrightarrow> GetLookupAndType (NameFrom a b) = (a, b)"
  by (simp add: NameFrom_def GetLookupAndType_split GetLookupAndType_plain)

lemma Lookup_no_slash: "slash \<notin> set (Name_Lookup n)"
proof (cases "slash \<in> set n")
  case True
  then obtain a b where n: "n = a @ slash # b" "slash \<notin> set a" using split_list_first by metis
  then show ?thesis using GetLookupAndType_split [OF n(2), of b] by (simp add: Name_Lookup_def)
qed (simp add: Name_Lookup_def GetLookupAndType_plain)

lemma WithType_split: "GetLookupAndType (WithType n t) = (Name_Lookup n, t)"
  using GetLookupAndType_split [OF Lookup_no_slash] by (simp add: WithType_def)

text \<open>A name reads back, whatever it holds; the one text that panics is a single quote character.\<close>

lemma Name_roundtrip: "Name_UnmarshalJSON (Name_MarshalJSON n) = Ret (Inr n)"
  by (simp add: Name_UnmarshalJSON_def Name_MarshalJSON_def str_LastIndex_def Let_def)

lemma Name_UnmarshalJSON_panics: "Name_UnmarshalJSON data = Panics \<longleftrightarrow> data = [name_quote]"
proof
  assume "Name_UnmarshalJSON data = Panics"
  then have l: "str_Index data name_quote = 0" "str_LastIndex data name_quote = int (length data) - 1" "str_LastIndex data name_quote < 1"
    by (auto simp: Name_UnmarshalJSON_def Let_def split: if_splits)
  then obtain x xs where d: "data = x # xs" by (cases data) auto
  then show "data = [name_quote]" using l by (auto simp: Let_def split: if_splits)
qed (simp add: Name_UnmarshalJSON_def str_LastIndex_def)

end
