(* ===== verification/Mapset.thy ===== *)
theory Mapset
  imports Prelude
begin

text \<open>
  The sets of \<open>vendor/github.com/deckarep/golang-set\<close> that the controllers compute differences with: a
  Go map from the elements to empty structs.
\<close>

type_synonym 'a mapset = "('a, unit) gomap"

definition set_NewSet :: "'a mapset" where
  "set_NewSet = []"

definition set_Add :: "'a \<Rightarrow> 'a mapset \<Rightarrow> bool \<times> 'a mapset" where
  "set_Add i s = (\<not> gm_has s i, gm_put i () s)"

fun set_Contains :: "'a mapset \<Rightarrow> 'a list \<Rightarrow> bool" where
  "set_Contains s [] = True"
| "set_Contains s (val # vals) = (if \<not> gm_has s val then False else set_Contains s vals)"

definition set_Difference :: "'a mapset \<Rightarrow> 'a mapset \<Rightarrow> 'a mapset" where
  "set_Difference s other = fold (\<lambda>(elem, _) difference.
     if \<not> set_Contains other [elem] then snd (set_Add elem difference) else difference) s set_NewSet"

text \<open>\<open>Iter\<close> sends the elements in the order of a \<open>range\<close> loop over the map.\<close>

definition set_Iter :: "('a list \<Rightarrow> 'a list) \<Rightarrow> 'a mapset \<Rightarrow> 'a list" where
  "set_Iter order s = in_order order (map fst s)"

text \<open>The loop that adds the elements of a slice.\<close>

definition set_add_all :: "'a list \<Rightarrow> 'a mapset \<Rightarrow> 'a mapset" where
  "set_add_all xs s = fold (\<lambda>x s. snd (set_Add x s)) xs s"

definition elems :: "'a mapset \<Rightarrow> 'a set" where
  "elems s = fst ` set s"

lemma elems_NewSet [simp]: "elems set_NewSet = {}" "gm_ok set_NewSet"
  by (simp_all add: elems_def set_NewSet_def)

lemma elems_Add [simp]: "elems (snd (set_Add x s)) = insert x (elems s)" "gm_ok s \<Longrightarrow> gm_ok (snd (set_Add x s))"
  by (simp_all add: elems_def set_Add_def gm_keys_put)

lemma elems_add_all [simp]: "elems (set_add_all xs s) = elems s \<union> set xs" "gm_ok s \<Longrightarrow> gm_ok (set_add_all xs s)"
  by (induction xs arbitrary: s) (auto simp: set_add_all_def)

lemma set_Contains_iff: "set_Contains s xs \<longleftrightarrow> set xs \<subseteq> elems s"
  by (induction xs) (auto simp: gm_has_iff elems_def)

lemma elems_Difference_fold:
  "elems (fold (\<lambda>(e, _) d. if \<not> set_Contains other [e] then snd (set_Add e d) else d) s d) = elems d \<union> (elems s - elems other)"
  "gm_ok d \<Longrightarrow> gm_ok (fold (\<lambda>(e, _) d. if \<not> set_Contains other [e] then snd (set_Add e d) else d) s d)"
proof (induction s arbitrary: d)
  case (Cons p s)
  have e: "elems (p # s) = insert (fst p) (elems s)" by (simp add: elems_def)
  { case 1 show ?case using Cons.IH(1) by (simp add: case_prod_beta set_Contains_iff e del: set_Contains.simps) blast }
  { case 2 then show ?case using Cons.IH(2) by (simp add: case_prod_beta) }
qed (simp_all add: elems_def)

lemma elems_Difference [simp]: "elems (set_Difference s other) = elems s - elems other" "gm_ok (set_Difference s other)"
  unfolding set_Difference_def by (simp_all add: elems_Difference_fold del: set_Contains.simps)

lemma set_Iter [simp]: "set (set_Iter order s) = elems s" "gm_ok s \<Longrightarrow> distinct (set_Iter order s)"
  by (simp_all add: set_Iter_def elems_def gm_ok_def)

end
