(* ===== verification/Go_Sort.thy ===== *)
theory Go_Sort
  imports Prelude "HOL-Library.Char_ord" "HOL-Library.List_Lexorder" "HOL-Library.Product_Lexorder"
begin

text \<open>
  Go's \<open>sort.Sort\<close> over a \<open>Less\<close> function. It is not stable for long slices, so only what holds of
  every correct sort is used of it: the result is an ordered permutation, and there is just one when
  the keys differ. The executable model is the insertion sort that \<open>sort.Sort\<close> runs on short slices.
\<close>

fun go_insert :: "('a \<Rightarrow> 'a \<Rightarrow> bool) \<Rightarrow> 'a \<Rightarrow> 'a list \<Rightarrow> 'a list" where
  "go_insert lt x [] = [x]"
| "go_insert lt x (y # ys) = (if lt x y then x # y # ys else y # go_insert lt x ys)"

definition go_sort :: "('a \<Rightarrow> 'a \<Rightarrow> bool) \<Rightarrow> 'a list \<Rightarrow> 'a list" where
  "go_sort lt xs = fold (go_insert lt) xs []"

lemma mset_go_insert [simp]: "mset (go_insert lt x ys) = add_mset x (mset ys)"
  by (induction ys) auto

lemma set_go_insert [simp]: "set (go_insert lt x ys) = insert x (set ys)"
  by (metis mset_go_insert set_mset_add_mset_insert set_mset_mset)

lemma mset_go_sort [simp]: "mset (go_sort lt xs) = mset xs"
proof -
  have "mset (fold (go_insert lt) xs ys) = mset xs + mset ys" for ys by (induction xs arbitrary: ys) auto
  then show ?thesis by (simp add: go_sort_def)
qed

lemma set_go_sort [simp]: "set (go_sort lt xs) = set xs"
  by (metis mset_go_sort set_mset_mset)

lemma length_go_sort [simp]: "length (go_sort lt xs) = length xs"
  by (metis mset_go_sort size_mset)

lemma distinct_map_go_sort: "distinct (map f (go_sort lt xs)) \<longleftrightarrow> distinct (map f xs)"
  by (metis mset_go_sort mset_map mset_eq_imp_distinct_iff)

text \<open>The contract of \<open>Less\<close>: it compares by a key.\<close>

locale less_by_key =
  fixes lt :: "'a \<Rightarrow> 'a \<Rightarrow> bool" and key :: "'a \<Rightarrow> 'k :: linorder"
  assumes lt_key: "lt x y \<longleftrightarrow> key x < key y"
begin

lemma sorted_go_insert: "sorted (map key ys) \<Longrightarrow> sorted (map key (go_insert lt x ys))"
  by (induction ys) (auto simp: lt_key)

lemma sorted_go_sort: "sorted (map key (go_sort lt xs))"
proof -
  have "sorted (map key ys) \<Longrightarrow> sorted (map key (fold (go_insert lt) xs ys))" for ys
    by (induction xs arbitrary: ys) (auto intro: sorted_go_insert)
  then show ?thesis by (simp add: go_sort_def)
qed

text \<open>Any ordered permutation is the one computed here, when no two keys are equal.\<close>

lemma sort_unique:
  assumes "mset ys = mset xs" "sorted (map key ys)" "distinct (map key xs)"
  shows "ys = go_sort lt xs"
proof -
  let ?zs = "go_sort lt xs"
  have m: "mset (map key ys) = mset (map key ?zs)" using assms(1) by simp
  have "map key ys = map key ?zs"
    using m assms(2) sorted_go_sort [of xs] by (metis properties_for_sort)
  moreover have "inj_on key (set ys \<union> set ?zs)"
    using assms(1,3) by (metis Un_absorb distinct_map mset_go_sort set_mset_mset)
  ultimately show ?thesis by (rule map_inj_on)
qed

lemma take_least: "x \<in> set (take n (go_sort lt xs)) \<Longrightarrow> y \<in> set (drop n (go_sort lt xs)) \<Longrightarrow> key x \<le> key y"
  using sorted_go_sort [of xs] sorted_wrt_append [of "(\<le>)" "map key (take n (go_sort lt xs))" "map key (drop n (go_sort lt xs))"]
  by (metis append_take_drop_id imageI list.set_map map_append)

end

end
