(* ===== verification/Group_Scaled.thy ===== *)
theory Group_Scaled
  imports Prelude
begin

text \<open>
  The data of the group controller (\<open>pkg/spi/instance\<close>, \<open>pkg/spi/flavor\<close>, \<open>pkg/spi/group\<close>,
  \<open>pkg/controller/group/types\<close>) and the scaled group of \<open>pkg/controller/group/scaled.go\<close>. Instance
  and flavor plugins are programs of their own: they are arguments, functions over a state \<open>'w\<close> of the
  outside world. An opaque \<open>*types.Any\<close> is a value of type \<open>'p\<close>.
\<close>

section \<open>Data\<close>

type_synonym LogicalID = string
type_synonym InstanceID = string

definition LogicalIDTag :: string where "LogicalIDTag = ''infrakit.logical_id''"
definition GroupTag :: string where "GroupTag = ''infrakit.group''"
definition ConfigSHATag :: string where "ConfigSHATag = ''infrakit.config.hash''"
definition bootstrapConfigTag :: string where "bootstrapConfigTag = ''bootstrap''"

record 'p Description =
  de_ID :: InstanceID
  de_LogicalID :: "LogicalID option"
  de_Tags :: tags
  de_Properties :: "'p option"

record Attachment =
  at_ID :: string
  at_Type :: string

record 'p InstanceSpec =
  is_Properties :: 'p
  is_Tags :: tags
  is_Init :: string
  is_LogicalID :: "LogicalID option"
  is_Attachments :: "Attachment list"

record Context =
  ctx_Reason :: string

definition RollingUpdate :: Context where "RollingUpdate = \<lparr>ctx_Reason = ''rolling_update''\<rparr>"
definition Termination :: Context where "Termination = \<lparr>ctx_Reason = ''terminate''\<rparr>"

lemma context_neq [simp]: "RollingUpdate \<noteq> Termination" "Termination \<noteq> RollingUpdate"
  by (simp_all add: RollingUpdate_def Termination_def)

datatype Health = Unknown | Healthy | Unhealthy

record AllocationMethod =
  al_Size :: nat
  al_LogicalIDs :: "LogicalID list"

record GIndex =
  gi_Group :: string
  gi_Sequence :: nat

record Updating =
  up_Duration :: int
  up_Count :: int
  up_Skip :: "string option"

record 'p PluginSpec =
  ps_Plugin :: string
  ps_Properties :: 'p

record 'p GroupSpec =
  gs_Instance :: "'p PluginSpec"
  gs_Flavor :: "'p PluginSpec"
  gs_Allocation :: AllocationMethod
  gs_Updating :: Updating

text \<open>
  \<open>InstanceHash\<close> digests the instance and the flavor section of a spec, and nothing else of it. The
  digest itself (the stable JSON of both, SHA-1, lower case base 32) is the argument.
\<close>

definition InstanceHash :: "('p PluginSpec \<times> 'p PluginSpec \<Rightarrow> string) \<Rightarrow> 'p GroupSpec \<Rightarrow> string" where
  "InstanceHash digest c = digest (gs_Instance c, gs_Flavor c)"

record ('p, 'w) instance_plugin =
  ip_Validate :: "'p \<Rightarrow> 'w \<Rightarrow> string option"
  ip_Provision :: "'p InstanceSpec \<Rightarrow> 'w \<Rightarrow> (string + InstanceID) \<times> 'w"
  ip_Label :: "InstanceID \<Rightarrow> tags \<Rightarrow> 'w \<Rightarrow> string option \<times> 'w"
  ip_Destroy :: "InstanceID \<Rightarrow> Context \<Rightarrow> 'w \<Rightarrow> string option \<times> 'w"
  ip_DescribeInstances :: "tags \<Rightarrow> bool \<Rightarrow> 'w \<Rightarrow> (string + 'p Description list) \<times> 'w"

record ('p, 'w) flavor_plugin =
  fp_Validate :: "'p \<Rightarrow> AllocationMethod \<Rightarrow> 'w \<Rightarrow> string option"
  fp_Prepare :: "'p \<Rightarrow> 'p InstanceSpec \<Rightarrow> AllocationMethod \<Rightarrow> GIndex \<Rightarrow> 'w \<Rightarrow> (string + 'p InstanceSpec) \<times> 'w"
  fp_Healthy :: "'p \<Rightarrow> 'p Description \<Rightarrow> 'w \<Rightarrow> (string + Health) \<times> 'w"
  fp_Drain :: "'p \<Rightarrow> 'p Description \<Rightarrow> 'w \<Rightarrow> string option \<times> 'w"

record ('p, 'w) groupSettings =
  gset_self :: "LogicalID option"
  gset_instancePlugin :: "('p, 'w) instance_plugin"
  gset_flavorPlugin :: "('p, 'w) flavor_plugin"
  gset_config :: "'p GroupSpec"
  gset_digest :: "'p PluginSpec \<times> 'p PluginSpec \<Rightarrow> string"

abbreviation config_hash :: "('p, 'w) groupSettings \<Rightarrow> string" where
  "config_hash settings \<equiv> InstanceHash (gset_digest settings) (gset_config settings)"

record ('p, 'w) scaledGroup =
  sg_settings :: "('p, 'w) groupSettings"
  sg_memberTags :: tags

definition scaled_changeSettings :: "('p, 'w) groupSettings \<Rightarrow> ('p, 'w) scaledGroup \<Rightarrow> ('p, 'w) scaledGroup" where
  "scaled_changeSettings settings s = s\<lparr>sg_settings := settings\<rparr>"

definition isSelf :: "'p Description \<Rightarrow> ('p, 'w) groupSettings \<Rightarrow> bool" where
  "isSelf inst settings = (case gset_self settings of
     None \<Rightarrow> False
   | Some self \<Rightarrow>
       if de_LogicalID inst = Some self then True
       else (case gm_get (de_Tags inst) LogicalIDTag of Some v \<Rightarrow> self = v | None \<Rightarrow> False))"

section \<open>Operations of the scaled group\<close>

text \<open>\<open>for k, v := range m { out[k] = v }\<close>.\<close>

definition tags_into :: "tags \<Rightarrow> tags \<Rightarrow> tags" where
  "tags_into m out = fold (\<lambda>(k, v). gm_put k v) m out"

lemma tags_into_get: "gm_ok m \<Longrightarrow> gm_get (tags_into m out) k = (case gm_get m k of None \<Rightarrow> gm_get out k | Some v \<Rightarrow> Some v)"
  unfolding tags_into_def
proof (induction m arbitrary: out)
  case (Cons p m)
  then have "gm_ok m" "gm_get m (fst p) = None" by (auto simp: gm_ok_def map_of_eq_None_iff)
  then show ?case using Cons.IH by (cases p) (auto split: option.splits)
qed simp

lemma gm_ok_tags_into [simp]: "gm_ok out \<Longrightarrow> gm_ok (tags_into m out)"
  unfolding tags_into_def by (induction m arbitrary: out) auto

definition create_tags :: "('p, 'w) scaledGroup \<Rightarrow> LogicalID option \<Rightarrow> tags" where
  "create_tags s logicalID = (let
     tags = tags_into (sg_memberTags s) [];
     tags = (case logicalID of None \<Rightarrow> tags | Some l \<Rightarrow> gm_put LogicalIDTag l tags)
   in gm_put ConfigSHATag (config_hash (sg_settings s)) tags)"

text \<open>The id and the size come from the supervisor of the group, which changes its size over time.\<close>

definition CreateOne :: "string \<Rightarrow> nat \<Rightarrow> LogicalID option \<Rightarrow> ('p, 'w) scaledGroup \<Rightarrow> 'w \<Rightarrow> 'w" where
  "CreateOne sup_ID sup_Size logicalID s w = (let
     settings = sg_settings s;
     config = gset_config settings;
     spec = \<lparr>is_Properties = ps_Properties (gs_Instance config), is_Tags = create_tags s logicalID, is_Init = [],
       is_LogicalID = logicalID, is_Attachments = []\<rparr>;
     index = \<lparr>gi_Group = sup_ID, gi_Sequence = sup_Size\<rparr>
   in case fp_Prepare (gset_flavorPlugin settings) (ps_Properties (gs_Flavor config)) spec (gs_Allocation config) index w of
        (Inl err, w) \<Rightarrow> w
      | (Inr spec, w) \<Rightarrow> snd (ip_Provision (gset_instancePlugin settings) spec w))"

definition scaled_Health :: "'p Description \<Rightarrow> ('p, 'w) scaledGroup \<Rightarrow> 'w \<Rightarrow> Health \<times> 'w" where
  "scaled_Health inst s w = (let settings = sg_settings s in
     case fp_Healthy (gset_flavorPlugin settings) (ps_Properties (gs_Flavor (gset_config settings))) inst w of
       (Inl err, w) \<Rightarrow> (Unknown, w)
     | (Inr h, w) \<Rightarrow> (h, w))"

definition isSkipDrain :: "('p, 'w) scaledGroup \<Rightarrow> bool" where
  "isSkipDrain s = (case up_Skip (gs_Updating (gset_config (sg_settings s))) of None \<Rightarrow> False | Some v \<Rightarrow> ''drain'' = v)"

definition drain :: "'p Description \<Rightarrow> Context \<Rightarrow> ('p, 'w) scaledGroup \<Rightarrow> 'w \<Rightarrow> string option \<times> 'w" where
  "drain inst ctx s w = (let settings = sg_settings s in
     if ctx = RollingUpdate \<and> isSkipDrain s then (None, w)
     else (case fp_Drain (gset_flavorPlugin settings) (ps_Properties (gs_Flavor (gset_config settings))) inst w of
         (Some err, w) \<Rightarrow> (if ctx = RollingUpdate then Some err else None, w)
       | (None, w) \<Rightarrow> (None, w)))"

definition scaled_Destroy :: "'p Description \<Rightarrow> Context \<Rightarrow> ('p, 'w) scaledGroup \<Rightarrow> 'w \<Rightarrow> string option \<times> 'w" where
  "scaled_Destroy inst ctx s w = (case drain inst ctx s w of
     (Some err, w) \<Rightarrow> (Some err, w)
   | (None, w) \<Rightarrow>
       if ctx = RollingUpdate \<and> isSelf inst (sg_settings s) then (None, w)
       else ip_Destroy (gset_instancePlugin (sg_settings s)) (de_ID inst) ctx w)"

definition normalize :: "'p Description \<Rightarrow> 'p Description" where
  "normalize d = (case gm_get (de_Tags d) LogicalIDTag of
     Some l \<Rightarrow> if de_LogicalID d = None then d\<lparr>de_LogicalID := Some l\<rparr> else d
   | None \<Rightarrow> d)"

definition scaled_List :: "('p, 'w) scaledGroup \<Rightarrow> 'w \<Rightarrow> (string + 'p Description list) \<times> 'w" where
  "scaled_List s w = (case ip_DescribeInstances (gset_instancePlugin (sg_settings s)) (sg_memberTags s) True w of
     (Inl err, w) \<Rightarrow> (Inl err, w)
   | (Inr found, w) \<Rightarrow> (Inr (map normalize found), w))"

definition instanceNeedsLabel :: "'p Description \<Rightarrow> bool" where
  "instanceNeedsLabel inst \<longleftrightarrow> gm_get0 [] (de_Tags inst) ConfigSHATag = bootstrapConfigTag"

definition needsLabel :: "'p Description list \<Rightarrow> bool" where
  "needsLabel instances = list_ex instanceNeedsLabel instances"

fun label_each :: "('p, 'w) instance_plugin \<Rightarrow> tags \<Rightarrow> 'p Description list \<Rightarrow> 'w \<Rightarrow> string option \<times> 'w" where
  "label_each p tags [] w = (None, w)"
| "label_each p tags (inst # instances) w =
     (if instanceNeedsLabel inst then (case ip_Label p (de_ID inst) tags w of
          (Some err, w) \<Rightarrow> (Some err, w)
        | (None, w) \<Rightarrow> label_each p tags instances w)
      else label_each p tags instances w)"

definition scaled_Label :: "('p, 'w) scaledGroup \<Rightarrow> 'w \<Rightarrow> string option \<times> 'w" where
  "scaled_Label s w = (let p = gset_instancePlugin (sg_settings s) in
     case ip_DescribeInstances p (sg_memberTags s) False w of
       (Inl err, w) \<Rightarrow> (Some err, w)
     | (Inr instances, w) \<Rightarrow>
         label_each p (gm_put ConfigSHATag (config_hash (sg_settings s)) (tags_into (sg_memberTags s) [])) instances w)"

definition labelAndList :: "('p, 'w) scaledGroup \<Rightarrow> 'w \<Rightarrow> (string + 'p Description list) \<times> 'w" where
  "labelAndList s w = (case scaled_List s w of
     (Inl err, w) \<Rightarrow> (Inl err, w)
   | (Inr descriptions, w) \<Rightarrow>
       if \<not> needsLabel descriptions then (Inr descriptions, w)
       else (case scaled_Label s w of
           (Some err, w) \<Rightarrow> (Inl err, w)
         | (None, w) \<Rightarrow> scaled_List s w))"

end
