(* ===== verification/Descriptions.thy ===== *)
theory Descriptions
  imports Mapset Go_Sort Group_Scaled
begin

text \<open>
  Lists of instance descriptions indexed by a key, \<open>pkg/spi/instance/description.go\<close>, and what the
  controllers of \<open>pkg/controller\<close> ask of other plugins.
\<close>

text \<open>A client of a group plugin, of which the controllers call \<open>DescribeGroup\<close>; a rendered template.\<close>

type_synonym ('p, 'g) GroupClient = "string \<Rightarrow> 'g \<Rightarrow> (string + 'p Description list) \<times> 'g"
type_synonym 'p Template = "'p Description \<Rightarrow> string + string"

section \<open>Descriptions\<close>

definition Description_Compare :: "'p Description \<Rightarrow> 'p Description \<Rightarrow> int" where
  "Description_Compare d other = (if de_ID d < de_ID other then -1 else if de_ID other < de_ID d then 1 else 0)"

definition Descriptions_Less :: "'p Description \<Rightarrow> 'p Description \<Rightarrow> bool" where
  "Descriptions_Less d other \<longleftrightarrow> Description_Compare d other < 0"

type_synonym 'p KeyFunc = "'p Description \<Rightarrow> string + string"

record 'p DescriptionIndex =
  ix_Keys :: "string mapset"
  ix_Map :: "(string, 'p Description) gomap"

text \<open>The zero value of a description, for a key that is not in the map.\<close>

definition zero_description :: "'p Description" where
  "zero_description = \<lparr>de_ID = [], de_LogicalID = None, de_Tags = [], de_Properties = None\<rparr>"

definition Index_Select :: "(string list \<Rightarrow> string list) \<Rightarrow> 'p DescriptionIndex \<Rightarrow> string mapset \<Rightarrow> 'p Description list" where
  "Index_Select order i keys = go_sort Descriptions_Less (map (gm_get0 zero_description (ix_Map i)) (set_Iter order keys))"

definition Index_Descriptions :: "(string list \<Rightarrow> string list) \<Rightarrow> 'p DescriptionIndex \<Rightarrow> 'p Description list" where
  "Index_Descriptions order i = Index_Select order i (ix_Keys i)"

text \<open>The loop of \<open>Index\<close>: it goes on after an error, and returns the last one.\<close>

definition Descriptions_Index :: "'p Description list \<Rightarrow> 'p KeyFunc \<Rightarrow> 'p DescriptionIndex \<times> string option" where
  "Descriptions_Index list getKey = fold (\<lambda>n (i, e). case getKey n of
     Inl err \<Rightarrow> (i, Some err)
   | Inr key \<Rightarrow> (\<lparr>ix_Keys = snd (set_Add key (ix_Keys i)), ix_Map = gm_put key n (ix_Map i)\<rparr>, e))
     list (\<lparr>ix_Keys = set_NewSet, ix_Map = []\<rparr>, None)"

definition Descriptions_Difference :: "(string list \<Rightarrow> string list) \<Rightarrow> 'p Description list \<Rightarrow> 'p KeyFunc \<Rightarrow> 'p Description list \<Rightarrow> 'p KeyFunc \<Rightarrow> 'p Description list" where
  "Descriptions_Difference order list listKeyFunc other otherKeyFunc =
     (let thisIndex = fst (Descriptions_Index list listKeyFunc); thatIndex = fst (Descriptions_Index other otherKeyFunc)
      in Index_Select order thisIndex (set_Difference (ix_Keys thisIndex) (ix_Keys thatIndex)))"

section \<open>What an index holds\<close>

interpretation by_id: less_by_key Descriptions_Less de_ID
  by unfold_locales (auto simp: Descriptions_Less_def Description_Compare_def)

definition keys_of :: "'p KeyFunc \<Rightarrow> 'p Description list \<Rightarrow> string set" where
  "keys_of f ds = {k. \<exists>d \<in> set ds. f d = Inr k}"

text \<open>Each key of the list is there, with the last of its descriptions.\<close>

definition last_with :: "'p KeyFunc \<Rightarrow> 'p Description list \<Rightarrow> string \<Rightarrow> 'p Description option" where
  "last_with f ds k = List.find (\<lambda>d. f d = Inr k) (rev ds)"

lemma last_with_Some: "last_with f ds k = Some d \<Longrightarrow> d \<in> set ds \<and> f d = Inr k"
  by (auto simp: last_with_def find_Some_iff) (metis nth_mem length_rev set_rev)

lemma last_with_None: "last_with f ds k = None \<longleftrightarrow> k \<notin> keys_of f ds"
  by (auto simp: last_with_def find_None_iff keys_of_def)

lemma Descriptions_Index_holds:
  "elems (ix_Keys (fst (Descriptions_Index ds f))) = keys_of f ds"
  "gm_ok (ix_Keys (fst (Descriptions_Index ds f)))"
  "gm_get (ix_Map (fst (Descriptions_Index ds f))) k = last_with f ds k"
  "snd (Descriptions_Index ds f) = None \<longleftrightarrow> (\<forall>d \<in> set ds. \<exists>k. f d = Inr k)"
proof (induction ds rule: rev_induct)
  case (snoc d ds)
  { case 1 then show ?case using snoc by (cases "f d") (auto simp: Descriptions_Index_def case_prod_beta keys_of_def) }
  { case 2 then show ?case using snoc by (cases "f d") (auto simp: Descriptions_Index_def case_prod_beta) }
  { case 3 then show ?case using snoc by (cases "f d") (auto simp: Descriptions_Index_def case_prod_beta last_with_def) }
  { case 4 then show ?case using snoc by (cases "f d") (auto simp: Descriptions_Index_def case_prod_beta) }
qed (auto simp: Descriptions_Index_def keys_of_def last_with_def)

text \<open>A selection has one description for each key, the last one with it.\<close>

lemma Index_Select_holds:
  assumes "gm_ok keys" "elems keys \<subseteq> keys_of f ds"
  shows "set (Index_Select order (fst (Descriptions_Index ds f)) keys) = {d. \<exists>k \<in> elems keys. last_with f ds k = Some d}"
    and "length (Index_Select order (fst (Descriptions_Index ds f)) keys) = card (elems keys)"
proof -
  let ?i = "fst (Descriptions_Index ds f)"
  have "gm_get0 zero_description (ix_Map ?i) k = d \<longleftrightarrow> last_with f ds k = Some d" if "k \<in> elems keys" for k d
    using that assms(2) last_with_None [of f ds k] by (auto simp: gm_get0_def Descriptions_Index_holds(3) split: option.splits)
  then show "set (Index_Select order ?i keys) = {d. \<exists>k \<in> elems keys. last_with f ds k = Some d}"
    by (auto simp: Index_Select_def image_iff) metis
  have "distinct (set_Iter order keys)" using assms(1) by simp
  then show "length (Index_Select order ?i keys) = card (elems keys)"
    using distinct_card [of "set_Iter order keys"] by (simp add: Index_Select_def)
qed

end
