(* ===== verification/Ingress.thy ===== *)
theory Ingress
  imports Ingress_Routes Plugin_Name Descriptions
begin

text \<open>
  The ingress controller (\<open>pkg/controller/ingress\<close>): the properties it reads its desired state from
  (\<open>types/types.go\<close>, \<open>types/funcs.go\<close>) and its synchronisation of routes, backends and health checks
  (\<open>sync.go\<close>, \<open>managed.go\<close>). A load balancer is reached through an L4 object \<open>'a\<close>; \<open>'l\<close> is the state of one, and \<open>'g\<close> the
  world of the group plugins.
\<close>

section \<open>The properties\<close>

type_synonym Vhost = string

definition Group_ID :: "Name \<Rightarrow> string" where
  "Group_ID gs = snd (GetLookupAndType gs)"

record BackendSpec =
  bs_Groups :: "Name list"
  bs_Instances :: "InstanceID list"

record 'c IngressSpec =
  in_Vhost :: Vhost
  in_L4Plugin :: Name
  in_RouteSources :: "(string, 'c) gomap"
  in_Routes :: "Route list"
  in_Backends :: BackendSpec
  in_HealthChecks :: "HealthCheck list"

type_synonym 'c IngressProperties = "'c IngressSpec list"

definition IngressSpec_Validate :: "'c IngressSpec \<Rightarrow> string option" where
  "IngressSpec_Validate s = check Route_Validate (in_Routes s)"

text \<open>
  \<open>findL4\<close> gives an error, or an object that may be nil. It takes the number of the call as well: a
  call may return a new object each time.
\<close>

definition L4Func :: "'c IngressProperties \<Rightarrow> (nat \<Rightarrow> 'c IngressSpec \<Rightarrow> string + 'a option) \<Rightarrow> (Vhost, 'a) gomap" where
  "L4Func p findL4 = fold (\<lambda>(i, spec) result. case findL4 i spec of
     Inl err \<Rightarrow> result
   | Inr None \<Rightarrow> result
   | Inr (Some l4) \<Rightarrow> gm_put (in_Vhost spec) l4 result) (List.enumerate 0 p) []"

definition HealthChecks :: "'c IngressProperties \<Rightarrow> (Vhost, HealthCheck list) gomap" where
  "HealthChecks p = fold (\<lambda>spec result. gm_put (in_Vhost spec) (in_HealthChecks spec) result) p []"

definition Groups :: "'c IngressProperties \<Rightarrow> (Vhost, Name list) gomap" where
  "Groups p = fold (\<lambda>spec result.
     let result = (if \<not> gm_has result (in_Vhost spec) then gm_put (in_Vhost spec) [] result else result)
     in gm_put (in_Vhost spec) (gm_get0 [] result (in_Vhost spec) @ bs_Groups (in_Backends spec)) result) p []"

definition InstanceIDs :: "'c IngressProperties \<Rightarrow> (Vhost, InstanceID list) gomap" where
  "InstanceIDs p = fold (\<lambda>spec result. gm_put (in_Vhost spec) (bs_Instances (in_Backends spec)) result) p []"

text \<open>
  The registered handlers of route sources: each constructs a handler, or fails, and the handler gives
  routes by host, or fails.
\<close>

type_synonym ('c, 'g) RouteHandler = "'c \<Rightarrow> IngressOptions \<Rightarrow> 'g \<Rightarrow> string + (Vhost, Route list) gomap"

definition add_routes :: "(Vhost, Route list) gomap \<Rightarrow> (Vhost, Route list) gomap \<Rightarrow> (Vhost, Route list) gomap" where
  "add_routes vhostRoutes result = fold (\<lambda>(h, r) result. gm_put h (gm_get0 [] result h @ r) result) vhostRoutes result"

definition route_source :: "(string, string + ('c, 'g) RouteHandler) gomap \<Rightarrow> IngressOptions \<Rightarrow> 'g \<Rightarrow> (Vhost, Route list) gomap \<Rightarrow>
    string \<times> 'c \<Rightarrow> string + (Vhost, Route list) gomap" where
  "route_source handlers options g result kc = (case gm_get handlers (fst kc) of
     None \<Rightarrow> Inr result
   | Some (Inl err) \<Rightarrow> Inl err
   | Some (Inr handler) \<Rightarrow> (case handler (snd kc) options g of
       Inl err \<Rightarrow> Inr result
     | Inr vhostRoutes \<Rightarrow> Inr (add_routes vhostRoutes result)))"

definition IngressRoutes :: "(string, string + ('c, 'g) RouteHandler) gomap \<Rightarrow> 'c IngressProperties \<Rightarrow> IngressOptions \<Rightarrow> 'g \<Rightarrow>
    string + (Vhost, Route list) gomap" where
  "IngressRoutes handlers p options g = forM (\<lambda>result spec. case IngressSpec_Validate spec of
     Some err \<Rightarrow> Inl err
   | None \<Rightarrow> forM (route_source handlers options g) (gm_put (in_Vhost spec) (in_Routes spec) result) (in_RouteSources spec)) [] p"

section \<open>The managed object\<close>


text \<open>
  What the scope resolves: group plugins by name, L4 objects by name and number of the call, and
  templates; \<open>sc_lb\<close> is the load balancer that an object is a client of.
\<close>

record ('a, 'n, 'p, 'g) ingress_scope =
  sc_Group :: "Name \<Rightarrow> string + ('p, 'g) GroupClient"
  sc_L4 :: "nat \<Rightarrow> Name \<Rightarrow> string + 'a option"
  sc_lb :: "'a \<Rightarrow> 'n"
  sc_Template :: "string \<Rightarrow> string + 'p Template"

record ('a, 'p, 'g) ingress_managed =
  mg_l4s :: "'g \<Rightarrow> string + (Vhost, 'a) gomap"
  mg_routes :: "'g \<Rightarrow> string + (Vhost, Route list) gomap"
  mg_healthChecks :: "'g \<Rightarrow> string + (Vhost, HealthCheck list) gomap"
  mg_groups :: "'g \<Rightarrow> string + (Vhost, Name list) gomap"
  mg_instanceIDs :: "'g \<Rightarrow> string + (Vhost, InstanceID list) gomap"
  mg_options :: IngressOptions
  mg_groupClients :: "(Name, ('p, 'g) GroupClient) gomap"
  mg_template :: "'p Template option"

definition defaultBehaviors :: "('a, 'n, 'p, 'g) ingress_scope \<Rightarrow> (string, string + ('c, 'g) RouteHandler) gomap \<Rightarrow> 'c IngressProperties \<Rightarrow>
    IngressOptions \<Rightarrow> ('a, 'p, 'g) ingress_managed" where
  "defaultBehaviors sc handlers properties options = \<lparr>
     mg_l4s = (\<lambda>g. Inr (L4Func properties (\<lambda>i spec. sc_L4 sc i (in_L4Plugin spec)))),
     mg_routes = IngressRoutes handlers properties options,
     mg_healthChecks = (\<lambda>g. Inr (HealthChecks properties)),
     mg_groups = (\<lambda>g. Inr (Groups properties)),
     mg_instanceIDs = (\<lambda>g. Inr (InstanceIDs properties)),
     mg_options = options, mg_groupClients = [], mg_template = None\<rparr>"

definition groupPlugin :: "('a, 'n, 'p, 'g) ingress_scope \<Rightarrow> Name \<Rightarrow> ('a, 'p, 'g) ingress_managed \<Rightarrow>
    (string + ('p, 'g) GroupClient) \<times> ('a, 'p, 'g) ingress_managed" where
  "groupPlugin sc g c = (case gm_get (mg_groupClients c) g of
     Some found \<Rightarrow> (Inr found, c)
   | None \<Rightarrow> (case sc_Group sc g of
       Inl err \<Rightarrow> (Inl err, c)
     | Inr cl \<Rightarrow> (Inr cl, c\<lparr>mg_groupClients := gm_put g cl (mg_groupClients c)\<rparr>)))"

definition getSourceKeySelectorTemplate :: "('a, 'n, 'p, 'g) ingress_scope \<Rightarrow> ('a, 'p, 'g) ingress_managed \<Rightarrow>
    (string + 'p Template option) \<times> ('a, 'p, 'g) ingress_managed" where
  "getSourceKeySelectorTemplate sc c =
     (if io_SourceKeySelector (mg_options c) \<noteq> '''' \<and> mg_template c = None then
        (case sc_Template sc (io_SourceKeySelector (mg_options c)) of
           Inl err \<Rightarrow> (Inl err, c)
         | Inr t \<Rightarrow> (Inr (Some t), c\<lparr>mg_template := Some t\<rparr>))
      else (Inr (mg_template c), c))"

section \<open>Synchronising\<close>

text \<open>The state of every load balancer, and the world of the group plugins.\<close>

record ('n, 'l, 'g) ingress_world =
  iw_l4 :: "'n \<Rightarrow> 'l"
  iw_env :: 'g

text \<open>The desired values by load balancer, since several hosts may be aliases of one.\<close>

definition by_l4 :: "(Vhost, 'a) gomap \<Rightarrow> (Vhost, 'v list) gomap \<Rightarrow> ('a, 'v list) gomap" where
  "by_l4 elbs byVhost = fold (\<lambda>(vhost, elb) targets. gm_put elb (gm_get0 [] targets elb @ gm_get0 [] byVhost vhost) targets) elbs []"

definition at_l4 :: "'n \<Rightarrow> ('l \<Rightarrow> 'e \<times> 'l) \<Rightarrow> ('n, 'l, 'g) ingress_world \<Rightarrow> 'e \<times> ('n, 'l, 'g) ingress_world" where
  "at_l4 a f w = (case f (iw_l4 w a) of (e, l) \<Rightarrow> (e, w\<lparr>iw_l4 := (iw_l4 w)(a := l)\<rparr>))"

definition syncRoutesL4 :: "'l L4 \<Rightarrow> ('a, 'n, 'p, 'g) ingress_scope \<Rightarrow> (('a \<times> Route list) list \<Rightarrow> ('a \<times> Route list) list) \<Rightarrow> ('a, 'p, 'g) ingress_managed \<Rightarrow>
    ('n, 'l, 'g) ingress_world \<Rightarrow> string option \<times> ('n, 'l, 'g) ingress_world" where
  "syncRoutesL4 l4 sc order c w = (case mg_routes c (iw_env w) of
     Inl err \<Rightarrow> (Some err, w)
   | Inr routesByVhost \<Rightarrow> (case mg_l4s c (iw_env w) of
       Inl err \<Rightarrow> (Some err, w)
     | Inr elbs \<Rightarrow> (None, fold (\<lambda>(elb, routes) w. snd (at_l4 (sc_lb sc elb) (configureL4 l4 routes (mg_options c)) w))
         (in_order order (by_l4 elbs routesByVhost)) w)))"

text \<open>The nodes of one group: \<open>Inl\<close> is an early return of \<open>syncBackends\<close>.\<close>

fun instance_nodes :: "('a, 'n, 'p, 'g) ingress_scope \<Rightarrow> 'p Description list \<Rightarrow> InstanceID mapset \<Rightarrow> ('a, 'p, 'g) ingress_managed \<Rightarrow>
    (string + InstanceID mapset) \<times> ('a, 'p, 'g) ingress_managed" where
  "instance_nodes sc [] nodes c = (Inr nodes, c)"
| "instance_nodes sc (inst # insts) nodes c = (case getSourceKeySelectorTemplate sc c of
     (Inl err, c) \<Rightarrow> (Inl err, c)
   | (Inr None, c) \<Rightarrow> instance_nodes sc insts (snd (set_Add (de_ID inst) nodes)) c
   | (Inr (Some t), c) \<Rightarrow> (case t inst of
       Inl err \<Rightarrow> instance_nodes sc insts nodes c
     | Inr view \<Rightarrow> instance_nodes sc insts (snd (set_Add view nodes)) c))"

fun group_nodes :: "('a, 'n, 'p, 'g) ingress_scope \<Rightarrow> Name list \<Rightarrow> InstanceID mapset \<Rightarrow> ('a, 'p, 'g) ingress_managed \<Rightarrow> 'g \<Rightarrow>
    (string + InstanceID mapset) \<times> ('a, 'p, 'g) ingress_managed \<times> 'g" where
  "group_nodes sc [] nodes c e = (Inr nodes, c, e)"
| "group_nodes sc (g # gs) nodes c e = (case groupPlugin sc g c of
     (Inl err, c) \<Rightarrow> (Inl err, c, e)
   | (Inr plugin, c) \<Rightarrow> (case plugin (Group_ID g) e of
       (Inl err, e) \<Rightarrow> (Inl err, c, e)
     | (Inr desc, e) \<Rightarrow> (case instance_nodes sc desc nodes c of
         (Inl err, c) \<Rightarrow> (Inl err, c, e)
       | (Inr nodes, c) \<Rightarrow> group_nodes sc gs nodes c e)))"

text \<open>The changes to one load balancer; errors of the two calls are only logged.\<close>

definition update_backends :: "'l L4 \<Rightarrow> (InstanceID list \<Rightarrow> InstanceID list) \<Rightarrow> InstanceID mapset \<Rightarrow> InstanceID mapset \<Rightarrow> 'l \<Rightarrow> 'l" where
  "update_backends l4 order registered nodes l =
     (let l = snd (l4_DeregisterBackends l4 (set_Iter order (set_Difference registered nodes)) l)
      in snd (l4_RegisterBackends l4 (set_Iter order (set_Difference nodes registered)) l))"

fun sync_backends_each :: "'l L4 \<Rightarrow> (InstanceID list \<Rightarrow> InstanceID list) \<Rightarrow> ('a, 'n, 'p, 'g) ingress_scope \<Rightarrow> (Vhost, Name list) gomap \<Rightarrow>
    (Vhost \<times> 'a) list \<Rightarrow> ('a, 'p, 'g) ingress_managed \<Rightarrow> ('n, 'l, 'g) ingress_world \<Rightarrow>
    string option \<times> ('a, 'p, 'g) ingress_managed \<times> ('n, 'l, 'g) ingress_world" where
  "sync_backends_each l4 order sc groupsByVhost [] c w = (None, c, w)"
| "sync_backends_each l4 order sc groupsByVhost ((vhost, a) # rest) c w = (case gm_get groupsByVhost vhost of
     None \<Rightarrow> sync_backends_each l4 order sc groupsByVhost rest c w
   | Some groups \<Rightarrow> (case l4_Backends l4 (iw_l4 w (sc_lb sc a)) of
       Inl err \<Rightarrow> sync_backends_each l4 order sc groupsByVhost rest c w
     | Inr backends \<Rightarrow> (let
         registered = set_add_all backends set_NewSet;
         instanceIDs = (case mg_instanceIDs c (iw_env w) of Inl _ \<Rightarrow> [] | Inr m \<Rightarrow> m);
         nodes = set_add_all (gm_get0 [] instanceIDs vhost) set_NewSet
       in case group_nodes sc groups nodes c (iw_env w) of
            (Inl err, c, e) \<Rightarrow> (Some err, c, w\<lparr>iw_env := e\<rparr>)
          | (Inr nodes, c, e) \<Rightarrow> sync_backends_each l4 order sc groupsByVhost rest c
              (w\<lparr>iw_l4 := (iw_l4 w)(sc_lb sc a := update_backends l4 order registered nodes (iw_l4 w (sc_lb sc a))), iw_env := e\<rparr>))))"

definition syncBackends :: "'l L4 \<Rightarrow> (InstanceID list \<Rightarrow> InstanceID list) \<Rightarrow> ('a, 'n, 'p, 'g) ingress_scope \<Rightarrow> ('a, 'p, 'g) ingress_managed \<Rightarrow>
    ('n, 'l, 'g) ingress_world \<Rightarrow> string option \<times> ('a, 'p, 'g) ingress_managed \<times> ('n, 'l, 'g) ingress_world" where
  "syncBackends l4 order sc c w = (case mg_groups c (iw_env w) of
     Inl err \<Rightarrow> (Some err, c, w)
   | Inr groupsByVhost \<Rightarrow> (case mg_l4s c (iw_env w) of
       Inl err \<Rightarrow> (Some err, c, w)
     | Inr loadbalancersByVhost \<Rightarrow> sync_backends_each l4 order sc groupsByVhost loadbalancersByVhost c w))"

fun check_each :: "'l L4 \<Rightarrow> 'n \<Rightarrow> HealthCheck list \<Rightarrow> ('n, 'l, 'g) ingress_world \<Rightarrow> string option \<times> ('n, 'l, 'g) ingress_world" where
  "check_each l4 a [] w = (None, w)"
| "check_each l4 a (healthCheck # rest) w =
     (if 0 < hc_BackendPort healthCheck then (case at_l4 a (l4_ConfigureHealthCheck l4 healthCheck) w of
        (Some err, w) \<Rightarrow> (Some err, w)
      | (None, w) \<Rightarrow> check_each l4 a rest w)
      else check_each l4 a rest w)"

fun checks_each :: "'l L4 \<Rightarrow> ('a, 'n, 'p, 'g) ingress_scope \<Rightarrow> ('a \<times> HealthCheck list) list \<Rightarrow> ('n, 'l, 'g) ingress_world \<Rightarrow> string option \<times> ('n, 'l, 'g) ingress_world" where
  "checks_each l4 sc [] w = (None, w)"
| "checks_each l4 sc ((elb, healthChecks) # rest) w = (case check_each l4 (sc_lb sc elb) healthChecks w of
     (Some err, w) \<Rightarrow> (Some err, w)
   | (None, w) \<Rightarrow> checks_each l4 sc rest w)"

definition syncHealthChecks :: "'l L4 \<Rightarrow> ('a, 'n, 'p, 'g) ingress_scope \<Rightarrow> (('a \<times> HealthCheck list) list \<Rightarrow> ('a \<times> HealthCheck list) list) \<Rightarrow> ('a, 'p, 'g) ingress_managed \<Rightarrow>
    ('n, 'l, 'g) ingress_world \<Rightarrow> string option \<times> ('n, 'l, 'g) ingress_world" where
  "syncHealthChecks l4 sc order c w = (case mg_healthChecks c (iw_env w) of
     Inl err \<Rightarrow> (Some err, w)
   | Inr healthChecksByVhost \<Rightarrow> (case mg_l4s c (iw_env w) of
       Inl err \<Rightarrow> (Some err, w)
     | Inr elbs \<Rightarrow> checks_each l4 sc (in_order order (by_l4 elbs healthChecksByVhost)) w))"

end
