(* ===== verification/Ingress_Sync.thy ===== *)
theory Ingress_Sync
  imports Ingress
begin

text \<open>
  What a synchronisation of the ingress controller establishes, over the contract of the load
  balancers and of the group plugins it asks for members.
\<close>

section \<open>Routes\<close>

text \<open>The routes of all the hosts of one L4 object.\<close>

definition desired_at :: "(Vhost, 'a) gomap \<Rightarrow> (Vhost, 'v list) gomap \<Rightarrow> 'a \<Rightarrow> 'v list" where
  "desired_at elbs byVhost a = concat (map (\<lambda>(v, a'). if a' = a then gm_get0 [] byVhost v else []) elbs)"

lemma by_l4_fold:
  fixes t :: "('a, 'v list) gomap" and rv :: "(Vhost, 'v list) gomap"
  defines "f \<equiv> (\<lambda>(vhost :: Vhost, elb :: 'a) targets. gm_put elb (gm_get0 [] targets elb @ gm_get0 [] rv vhost) targets)"
  shows "gm_get0 [] (fold f elbs t) a = gm_get0 [] t a @ desired_at elbs rv a"
    and "gm_ok t \<Longrightarrow> gm_ok (fold f elbs t)" and "fst ` set (fold f elbs t) = fst ` set t \<union> snd ` set elbs"
proof -
  show "gm_get0 [] (fold f elbs t) a = gm_get0 [] t a @ desired_at elbs rv a"
    by (induction elbs arbitrary: t) (auto simp: f_def desired_at_def)
  show "gm_ok t \<Longrightarrow> gm_ok (fold f elbs t)" by (induction elbs arbitrary: t) (auto simp: f_def)
  show "fst ` set (fold f elbs t) = fst ` set t \<union> snd ` set elbs"
  proof (induction elbs arbitrary: t)
    case (Cons p elbs)
    then show ?case by (simp add: f_def case_prod_beta gm_keys_put)
  qed simp
qed

lemma by_l4_desired: "gm_ok (by_l4 elbs rv)" "fst ` set (by_l4 elbs rv) = snd ` set elbs"
  "(a, rs) \<in> set (by_l4 elbs rv) \<Longrightarrow> rs = desired_at elbs rv a"
proof -
  show ok: "gm_ok (by_l4 elbs rv)" and "fst ` set (by_l4 elbs rv) = snd ` set elbs"
    unfolding by_l4_def by (simp_all add: by_l4_fold(2,3))
  assume "(a, rs) \<in> set (by_l4 elbs rv)"
  then have "gm_get0 [] (by_l4 elbs rv) a = rs" using ok by (simp add: gm_get0_def gm_mem_iff)
  then show "rs = desired_at elbs rv a" unfolding by_l4_def by (simp add: by_l4_fold(1)) (simp add: gm_get0_def)
qed

lemma find_key: "distinct (map f xs) \<Longrightarrow> x \<in> set xs \<Longrightarrow> find (\<lambda>y. f y = f x) xs = Some x"
  by (induction xs) auto

text \<open>A loop that changes one load balancer after the other.\<close>

lemma at_l4_simps [simp]:
  "iw_l4 (snd (at_l4 a f w)) = (iw_l4 w)(a := snd (f (iw_l4 w a)))" "iw_env (snd (at_l4 a f w)) = iw_env w" "fst (at_l4 a f w) = fst (f (iw_l4 w a))"
  by (simp_all add: at_l4_def case_prod_beta)

lemma fold_at_l4:
  assumes "distinct (map lb xs)"
  shows "iw_l4 (fold (\<lambda>x w. snd (at_l4 (lb x) (f x) w)) xs w) n =
      (case find (\<lambda>x. lb x = n) xs of None \<Rightarrow> iw_l4 w n | Some x \<Rightarrow> snd (f x (iw_l4 w n)))"
    and "iw_env (fold (\<lambda>x w. snd (at_l4 (lb x) (f x) w)) xs w) = iw_env w"
  using assms
proof (induction xs arbitrary: w)
  case (Cons x xs)
  { case 1
    have "find (\<lambda>y. lb y = lb x) xs = None" using 1 by (simp add: find_None_iff image_iff) metis
    then show ?case using Cons.IH(1) [of "snd (at_l4 (lb x) (f x) w)"] 1 by (auto split: option.splits) }
  { case 2 then show ?case using Cons.IH(2) by simp }
qed simp_all

lemma syncRoutesL4_eq:
  assumes "mg_routes c (iw_env w) = Inr rv" "mg_l4s c (iw_env w) = Inr elbs" "inj_on (sc_lb sc) (snd ` set elbs)"
  obtains w' where "syncRoutesL4 l4 sc order c w = (None, w')" "iw_env w' = iw_env w"
    "\<And>n. n \<notin> sc_lb sc ` snd ` set elbs \<Longrightarrow> iw_l4 w' n = iw_l4 w n"
    "\<And>v a. (v, a) \<in> set elbs \<Longrightarrow> iw_l4 w' (sc_lb sc a) = snd (configureL4 l4 (desired_at elbs rv a) (mg_options c) (iw_l4 w (sc_lb sc a)))"
proof -
  define ts where "ts = in_order order (by_l4 elbs rv)"
  define lb where "lb p = sc_lb sc (fst p)" for p :: "'a \<times> Route list"
  have ts: "set ts = set (by_l4 elbs rv)" "distinct (map fst ts)"
    using by_l4_desired(1) [of elbs rv] unfolding ts_def gm_ok_def by (simp_all add: in_order_def) (metis mset_eq_setD, metis mset_eq_imp_distinct_iff mset_map)
  have "fst ` set ts = snd ` set elbs" using by_l4_desired(2) ts(1) by metis
  then have d: "distinct (map lb ts)" unfolding lb_def using ts(2) assms(3)
    by (metis (no_types, lifting) comp_def distinct_map image_set list.map_comp map_eq_conv)
  define w' where "w' = fold (\<lambda>p w. snd (at_l4 (lb p) (configureL4 l4 (snd p) (mg_options c)) w)) ts w"
  show thesis
  proof
    show "syncRoutesL4 l4 sc order c w = (None, w')"
      by (simp add: syncRoutesL4_def assms(1,2) w'_def ts_def lb_def case_prod_unfold)
    show "iw_env w' = iw_env w" unfolding w'_def by (rule fold_at_l4(2) [OF d])
    show "iw_l4 w' n = iw_l4 w n" if "n \<notin> sc_lb sc ` snd ` set elbs" for n
    proof -
      have "n \<notin> lb ` set ts" using that unfolding \<open>fst ` set ts = snd ` set elbs\<close> [symmetric] lb_def by force
      then have "find (\<lambda>p. lb p = n) ts = None" by (auto simp: find_None_iff)
      then show ?thesis unfolding w'_def by (simp add: fold_at_l4(1) [OF d])
    qed
    show "iw_l4 w' (sc_lb sc a) = snd (configureL4 l4 (desired_at elbs rv a) (mg_options c) (iw_l4 w (sc_lb sc a)))" if "(v, a) \<in> set elbs" for v a
    proof -
      have "a \<in> fst ` set ts" using that \<open>fst ` set ts = snd ` set elbs\<close> by force
      then obtain rs where rs: "(a, rs) \<in> set ts" by auto
      have "find (\<lambda>p. lb p = sc_lb sc a) ts = Some (a, rs)"
        using find_key [OF d rs] by (simp add: lb_def)
      moreover have "rs = desired_at elbs rv a" using rs ts(1) by (simp add: by_l4_desired(3))
      ultimately show ?thesis unfolding w'_def by (simp add: fold_at_l4(1) [OF d])
    qed
  qed
qed

section \<open>Backends\<close>

text \<open>The keys of the members of a group: their ids, or what a template renders of them.\<close>

definition node_ids :: "'p Template option \<Rightarrow> 'p Description list \<Rightarrow> InstanceID set" where
  "node_ids tpl ds = (case tpl of None \<Rightarrow> de_ID ` set ds | Some t \<Rightarrow> {v. \<exists>d \<in> set ds. t d = Inr v})"

text \<open>The template the options select, the caches of the object, and what a round leaves as it is.\<close>

definition template_of :: "('a, 'n, 'p, 'g) ingress_scope \<Rightarrow> IngressOptions \<Rightarrow> string + 'p Template option" where
  "template_of sc options = (if io_SourceKeySelector options = [] then Inr None
     else (case sc_Template sc (io_SourceKeySelector options) of Inl err \<Rightarrow> Inl err | Inr t \<Rightarrow> Inr (Some t)))"

definition caches_ok :: "('a, 'n, 'p, 'g) ingress_scope \<Rightarrow> ('a, 'p, 'g) ingress_managed \<Rightarrow> bool" where
  "caches_ok sc c \<longleftrightarrow> (\<forall>g cl. gm_get (mg_groupClients c) g = Some cl \<longrightarrow> sc_Group sc g = Inr cl) \<and>
     (mg_template c = None \<or> template_of sc (mg_options c) = Inr (mg_template c))"

definition config_of :: "('a, 'p, 'g) ingress_managed \<Rightarrow> ('a, 'p, 'g) ingress_managed" where
  "config_of c = c\<lparr>mg_groupClients := [], mg_template := None\<rparr>"

lemma config_of_simps [simp]:
  "config_of (c\<lparr>mg_groupClients := x\<rparr>) = config_of c" "config_of (c\<lparr>mg_template := y\<rparr>) = config_of c"
  by (simp_all add: config_of_def)

lemma config_of_eq:
  assumes "config_of c = config_of c'"
  shows "mg_l4s c = mg_l4s c'" "mg_routes c = mg_routes c'" "mg_healthChecks c = mg_healthChecks c'" "mg_groups c = mg_groups c'"
    "mg_instanceIDs c = mg_instanceIDs c'" "mg_options c = mg_options c'"
  using assms by (cases c; cases c'; simp add: config_of_def)+

lemma template_cached:
  assumes "caches_ok sc c" "template_of sc (mg_options c) = Inr tpl"
  obtains c' where "getSourceKeySelectorTemplate sc c = (Inr tpl, c')" "caches_ok sc c'" "config_of c' = config_of c"
proof (cases "io_SourceKeySelector (mg_options c) \<noteq> [] \<and> mg_template c = None")
  case True
  then obtain t where t: "sc_Template sc (io_SourceKeySelector (mg_options c)) = Inr t" "tpl = Some t"
    using assms(2) by (auto simp: template_of_def split: sum.splits)
  show thesis
    by (rule that [of "c\<lparr>mg_template := Some t\<rparr>"]) (use True t assms in \<open>auto simp: getSourceKeySelectorTemplate_def caches_ok_def\<close>)
next
  case False
  then have "mg_template c = tpl" using assms by (auto simp: caches_ok_def template_of_def)
  then show thesis using that [of c] False assms(1) by (auto simp: getSourceKeySelectorTemplate_def)
qed

lemma instance_nodes_ok:
  assumes "caches_ok sc c" "template_of sc (mg_options c) = Inr tpl"
  shows "\<exists>n c'. instance_nodes sc ds nodes c = (Inr n, c') \<and> elems n = elems nodes \<union> node_ids tpl ds \<and> caches_ok sc c' \<and> config_of c' = config_of c"
  using assms
proof (induction ds arbitrary: nodes c)
  case (Cons d ds)
  obtain c1 where c1: "getSourceKeySelectorTemplate sc c = (Inr tpl, c1)" "caches_ok sc c1" "config_of c1 = config_of c"
    by (rule template_cached [OF Cons.prems])
  have t: "template_of sc (mg_options c1) = Inr tpl" using Cons.prems(2) config_of_eq(6) [OF c1(3)] by simp
  note IH = Cons.IH [OF c1(2) t]
  show ?case
  proof (cases "case tpl of None \<Rightarrow> Some (de_ID d) | Some t \<Rightarrow> (case t d of Inl _ \<Rightarrow> None | Inr v \<Rightarrow> Some v)")
    case None
    then show ?thesis using IH [of nodes] c1 by (auto simp: node_ids_def split: option.splits sum.splits)
  next
    case (Some v)
    then show ?thesis using IH [of "snd (set_Add v nodes)"] c1 by (auto simp: node_ids_def split: option.splits sum.splits)
  qed
qed (auto simp: node_ids_def split: option.splits)

text \<open>
  What the controller relies on of the group plugins: in a world \<open>J\<close>, the groups \<open>G\<close> resolve, and
  describing one finds the members \<open>M\<close>, which does not change the world for that matter.
\<close>

locale ingress_env = l4_contract l4 ok rt be
  for l4 :: "'l L4" and ok rt be +
  fixes sc :: "('a, 'n, 'p, 'g) ingress_scope" and tpl :: "'p Template option" and J :: "'g \<Rightarrow> bool" and G :: "Name set" and M :: "Name \<Rightarrow> InstanceID set"
  assumes describes: "g \<in> G \<Longrightarrow> J e \<Longrightarrow> \<exists>cl ds e'. sc_Group sc g = Inr cl \<and> cl (Group_ID g) e = (Inr ds, e') \<and> J e' \<and> node_ids tpl ds = M g"
begin

lemma group_nodes_ok:
  assumes "set gs \<subseteq> G" "J e" "caches_ok sc c" "template_of sc (mg_options c) = Inr tpl"
  shows "\<exists>n c' e'. group_nodes sc gs nodes c e = (Inr n, c', e') \<and> elems n = elems nodes \<union> \<Union> (M ` set gs) \<and> J e' \<and> caches_ok sc c' \<and> config_of c' = config_of c"
  using assms
proof (induction gs arbitrary: nodes c e)
  case (Cons g gs)
  obtain cl ds e1 where d: "sc_Group sc g = Inr cl" "cl (Group_ID g) e = (Inr ds, e1)" "J e1" "node_ids tpl ds = M g"
    using describes [of g e] Cons.prems by auto
  obtain c1 where c1: "groupPlugin sc g c = (Inr cl, c1)" "caches_ok sc c1" "config_of c1 = config_of c"
    using Cons.prems(3) d(1) by (cases "gm_get (mg_groupClients c) g") (auto simp: groupPlugin_def caches_ok_def)
  have t1: "template_of sc (mg_options c1) = Inr tpl" using Cons.prems(4) config_of_eq(6) [OF c1(3)] by simp
  obtain n2 c2 where c2: "instance_nodes sc ds nodes c1 = (Inr n2, c2)" "elems n2 = elems nodes \<union> M g" "caches_ok sc c2" "config_of c2 = config_of c1"
    using instance_nodes_ok [OF c1(2) t1, of ds nodes] d(4) by auto
  have t2: "template_of sc (mg_options c2) = Inr tpl" using t1 config_of_eq(6) [OF c2(4)] by simp
  from Cons.IH [OF _ d(3) c2(3) t2, of n2] Cons.prems(1) show ?case
    using c1 c2 d(2) by (auto simp: Un_assoc)
qed simp

lemma update_backends_ok:
  assumes "ok l" "elems registered = be l"
  shows "ok (update_backends l4 order registered nodes l) \<and> rt (update_backends l4 order registered nodes l) = rt l \<and>
    be (update_backends l4 order registered nodes l) = elems nodes"
proof -
  let ?rm = "set_Iter order (set_Difference registered nodes)" and ?add = "set_Iter order (set_Difference nodes registered)"
  obtain l1 where l1: "l4_DeregisterBackends l4 ?rm l = (None, l1)" "ok l1" "rt l1 = rt l" "be l1 = be l - set ?rm"
    using DeregisterBackends [OF assms(1)] by blast
  obtain l2 where l2: "l4_RegisterBackends l4 ?add l1 = (None, l2)" "ok l2" "rt l2 = rt l1" "be l2 = be l1 \<union> set ?add"
    using RegisterBackends [OF l1(2)] by blast
  have "be l2 = elems nodes" using l1(4) l2(4) assms(2) by auto
  then show ?thesis using l1 l2 by (simp add: update_backends_def)
qed

text \<open>A load balancer after the loop: its backends are the nodes of its host, if that has groups.\<close>

definition synced :: "(Vhost, Name list) gomap \<Rightarrow> (Vhost, InstanceID list) gomap \<Rightarrow> Vhost \<Rightarrow> 'l \<Rightarrow> 'l \<Rightarrow> bool" where
  "synced gv ids v l l' \<longleftrightarrow> (case gm_get gv v of None \<Rightarrow> l' = l
     | Some gs \<Rightarrow> ok l' \<and> rt l' = rt l \<and> be l' = set (gm_get0 [] ids v) \<union> \<Union> (M ` set gs))"

lemma sync_backends_each_ok:
  assumes "distinct (map (sc_lb sc \<circ> snd) elbs)" "\<forall>p \<in> set elbs. ok (iw_l4 w (sc_lb sc (snd p)))"
    "\<forall>v gs. gm_get gv v = Some gs \<longrightarrow> set gs \<subseteq> G" "\<forall>e. J e \<longrightarrow> mg_instanceIDs c e = Inr ids"
    "J (iw_env w)" "caches_ok sc c" "template_of sc (mg_options c) = Inr tpl"
  shows "\<exists>c' w'. sync_backends_each l4 order sc gv elbs c w = (None, c', w') \<and> J (iw_env w') \<and> caches_ok sc c' \<and> config_of c' = config_of c \<and>
    (\<forall>n. n \<notin> (sc_lb sc \<circ> snd) ` set elbs \<longrightarrow> iw_l4 w' n = iw_l4 w n) \<and>
    (\<forall>(v, a) \<in> set elbs. synced gv ids v (iw_l4 w (sc_lb sc a)) (iw_l4 w' (sc_lb sc a)))"
  using assms
proof (induction elbs arbitrary: c w)
  case (Cons p elbs)
  obtain v a where p: "p = (v, a)" by force
  let ?n = "sc_lb sc a"
  have new: "?n \<notin> (sc_lb sc \<circ> snd) ` set elbs" and d: "distinct (map (sc_lb sc \<circ> snd) elbs)" using Cons.prems(1) p by (simp_all add: comp_def)
  show ?case
  proof (cases "gm_get gv v")
    case None
    have "\<forall>p \<in> set elbs. ok (iw_l4 w (sc_lb sc (snd p)))" using Cons.prems(2) by simp
    from Cons.IH [OF d this Cons.prems(3-7)] obtain c' w' where "sync_backends_each l4 order sc gv elbs c w = (None, c', w')"
      "J (iw_env w')" "caches_ok sc c'" "config_of c' = config_of c" "\<forall>n. n \<notin> (sc_lb sc \<circ> snd) ` set elbs \<longrightarrow> iw_l4 w' n = iw_l4 w n"
      "\<forall>(v, a) \<in> set elbs. synced gv ids v (iw_l4 w (sc_lb sc a)) (iw_l4 w' (sc_lb sc a))" by blast
    then show ?thesis using new None by (auto simp: p synced_def)
  next
    case (Some gs)
    have okn: "ok (iw_l4 w ?n)" using Cons.prems(2) p by simp
    obtain bs where bs: "l4_Backends l4 (iw_l4 w ?n) = Inr bs" "set bs = be (iw_l4 w ?n)" using Backends [OF okn] by blast
    define reg where "reg = set_add_all bs set_NewSet"
    have reg: "elems reg = be (iw_l4 w ?n)" by (simp add: reg_def bs(2))
    obtain n c1 e1 where n: "group_nodes sc gs (set_add_all (gm_get0 [] ids v) set_NewSet) c (iw_env w) = (Inr n, c1, e1)"
      "elems n = set (gm_get0 [] ids v) \<union> \<Union> (M ` set gs)" "J e1" "caches_ok sc c1" "config_of c1 = config_of c"
      using group_nodes_ok [of gs "iw_env w" c "set_add_all (gm_get0 [] ids v) set_NewSet"] Cons.prems(3,5-7) Some by auto
    define w1 where "w1 = w\<lparr>iw_l4 := (iw_l4 w)(?n := update_backends l4 order reg n (iw_l4 w ?n)), iw_env := e1\<rparr>"
    have s: "sync_backends_each l4 order sc gv (p # elbs) c w = sync_backends_each l4 order sc gv elbs c1 w1"
      using Some bs(1) n(1) Cons.prems(4,5) by (simp add: p reg_def w1_def Let_def)
    have w1: "iw_l4 w1 m = iw_l4 w m" if "m \<noteq> ?n" for m using that by (simp add: w1_def)
    have oks: "\<forall>p \<in> set elbs. ok (iw_l4 w1 (sc_lb sc (snd p)))" using Cons.prems(2) new w1 by (metis comp_apply image_eqI list.set_intros(2))
    have n1: "synced gv ids v (iw_l4 w ?n) (iw_l4 w1 ?n)"
      using update_backends_ok [OF okn reg, of order n] n(2) Some by (simp add: synced_def w1_def)
    have "\<forall>e. J e \<longrightarrow> mg_instanceIDs c1 e = Inr ids" "template_of sc (mg_options c1) = Inr tpl" "J (iw_env w1)"
      using Cons.prems(4,7) config_of_eq(5,6) [OF n(5)] n(3) by (simp_all add: w1_def)
    from Cons.IH [OF d oks Cons.prems(3) this(1,3) n(4) this(2)] obtain c' w' where w': "sync_backends_each l4 order sc gv elbs c1 w1 = (None, c', w')"
      "J (iw_env w')" "caches_ok sc c'" "config_of c' = config_of c1" "\<forall>n. n \<notin> (sc_lb sc \<circ> snd) ` set elbs \<longrightarrow> iw_l4 w' n = iw_l4 w1 n"
      "\<forall>(v, a) \<in> set elbs. synced gv ids v (iw_l4 w1 (sc_lb sc a)) (iw_l4 w' (sc_lb sc a))" by blast
    have "iw_l4 w1 (sc_lb sc a') = iw_l4 w (sc_lb sc a')" if "(v', a') \<in> set elbs" for v' a' using that new w1 by force
    moreover have "synced gv ids v (iw_l4 w ?n) (iw_l4 w' ?n)" using n1 w'(5) new by simp
    ultimately have "\<forall>(v, a) \<in> set (p # elbs). synced gv ids v (iw_l4 w (sc_lb sc a)) (iw_l4 w' (sc_lb sc a))" using w'(6) p by fastforce
    moreover have "\<forall>n. n \<notin> (sc_lb sc \<circ> snd) ` set (p # elbs) \<longrightarrow> iw_l4 w' n = iw_l4 w n" using w'(5) w1 p by simp
    ultimately show ?thesis using s w' n(5) by auto
  qed
qed simp

end

end
