(* ===== verification/Poller.thy ===== *)
theory Poller
  imports Prelude
begin

text \<open>
  The poller that drives the ingress and enrollment controllers,
  \<open>pkg/controller/internal/poll.go\<close>.
\<close>

record poller =
  po_ticker :: bool
  po_stopped :: bool
  po_running :: bool

text \<open>\<open>po_ticker\<close>: the ticker is not nil. \<open>po_stopped\<close>: the channel \<open>stop\<close> is closed.\<close>

definition Poll :: "bool \<Rightarrow> poller" where
  "Poll ticker = \<lparr>po_ticker = ticker, po_stopped = False, po_running = False\<rparr>"

text \<open>Closing a channel twice panics.\<close>

definition Poller_Stop :: "poller \<Rightarrow> poller outcome" where
  "Poller_Stop p = (if po_stopped p then Panics else Ret (p\<lparr>po_stopped := True\<rparr>))"

text \<open>
  What the \<open>select\<close> at the end of each round receives, and how a run of the loop ends: it has returned,
  it waits in that \<open>select\<close>, or it is stuck in sending an error that nobody receives.
\<close>

datatype poll_event = P_Stop | P_Done | P_Tick

datatype 'w poll_end = P_Returned 'w | P_Waiting 'w | P_Stuck 'w

text \<open>\<open>reader\<close>: some goroutine keeps calling \<open>Err\<close>. The channel of errors has no buffer.\<close>

fun poll_loop :: "bool \<Rightarrow> ('w \<Rightarrow> bool \<times> 'w) \<Rightarrow> ('w \<Rightarrow> string option \<times> 'w) \<Rightarrow> ('w \<Rightarrow> 'w) \<Rightarrow> poll_event list \<Rightarrow> 'w \<Rightarrow> 'w poll_end" where
  "poll_loop reader shouldRun work cleanup evs w = (case shouldRun w of (run, w) \<Rightarrow>
     (case (if run then work w else (None, w)) of (err, w) \<Rightarrow>
        if err \<noteq> None \<and> \<not> reader then P_Stuck w
        else (case evs of
            [] \<Rightarrow> P_Waiting w
          | P_Stop # _ \<Rightarrow> P_Returned (cleanup w)
          | P_Done # evs \<Rightarrow> if reader then poll_loop reader shouldRun work cleanup evs w else P_Stuck w
          | P_Tick # evs \<Rightarrow> poll_loop reader shouldRun work cleanup evs w)))"

declare poll_loop.simps [simp del]

definition Poller_Run :: "bool \<Rightarrow> ('w \<Rightarrow> bool \<times> 'w) \<Rightarrow> ('w \<Rightarrow> string option \<times> 'w) \<Rightarrow> ('w \<Rightarrow> 'w) \<Rightarrow> poll_event list \<Rightarrow> poller \<Rightarrow> 'w \<Rightarrow>
    (poller \<times> 'w poll_end) outcome" where
  "Poller_Run reader shouldRun work cleanup evs p w =
     (if \<not> po_ticker p then Panics
      else if po_running p then Ret (p, P_Returned w)
      else Ret (p\<lparr>po_running := True\<rparr>, poll_loop reader shouldRun work cleanup evs w))"

section \<open>Rounds\<close>

text \<open>One round of the loop, when its error is received or there is none.\<close>

definition poll_round :: "('w \<Rightarrow> bool \<times> 'w) \<Rightarrow> ('w \<Rightarrow> string option \<times> 'w) \<Rightarrow> 'w \<Rightarrow> 'w" where
  "poll_round shouldRun work w = (case shouldRun w of (run, w) \<Rightarrow> if run then snd (work w) else w)"

definition round_error :: "('w \<Rightarrow> bool \<times> 'w) \<Rightarrow> ('w \<Rightarrow> string option \<times> 'w) \<Rightarrow> 'w \<Rightarrow> bool" where
  "round_error shouldRun work w = (case shouldRun w of (run, w) \<Rightarrow> run \<and> fst (work w) \<noteq> None)"

lemma poll_loop_ticks:
  "(\<And>k. k \<le> n \<Longrightarrow> \<not> round_error shouldRun work ((poll_round shouldRun work ^^ k) w)) \<Longrightarrow>
     poll_loop reader shouldRun work cleanup (replicate n P_Tick) w = P_Waiting ((poll_round shouldRun work ^^ Suc n) w)"
proof (induction n arbitrary: w)
  case 0
  from 0 [of 0] show ?case by (subst poll_loop.simps) (auto simp: poll_round_def round_error_def split: prod.splits)
next
  case (Suc n)
  let ?r = "poll_round shouldRun work"
  have "\<not> round_error shouldRun work ((?r ^^ k) (?r w))" if "k \<le> n" for k
    using Suc.prems [of "Suc k"] that by (simp add: funpow_swap1)
  from Suc.IH [OF this] have "poll_loop reader shouldRun work cleanup (replicate n P_Tick) (?r w) = P_Waiting ((?r ^^ Suc (Suc n)) w)"
    by (simp add: funpow_swap1)
  moreover have "poll_loop reader shouldRun work cleanup (replicate (Suc n) P_Tick) w = poll_loop reader shouldRun work cleanup (replicate n P_Tick) (?r w)"
    using Suc.prems [of 0] by (subst poll_loop.simps) (auto simp: poll_round_def round_error_def split: prod.splits)
  ultimately show ?case by simp
qed

text \<open>Without a reader, an error of the work stops the loop for good, whatever it might receive.\<close>

lemma poll_error_stuck: "round_error shouldRun work w \<Longrightarrow> \<exists>w'. poll_loop False shouldRun work cleanup evs w = P_Stuck w'"
  by (subst poll_loop.simps) (auto simp: round_error_def split: prod.splits)

text \<open>
  The channel of errors has no buffer, and sending on it is the only case of its \<open>select\<close>. So when nobody
  calls \<open>Err\<close>, the first round whose work fails is the last: whatever is received, a stop included, the loop
  neither does another round nor returns. The hypotheses say that the poller has a ticker, is not
  running yet, and that its first round fails.
\<close>

theorem unread_error_blocks:
  assumes "po_ticker p" "\<not> po_running p" "round_error shouldRun work w"
  shows "\<exists>w'. Poller_Run False shouldRun work cleanup evs p w = Ret (p\<lparr>po_running := True\<rparr>, P_Stuck w')"
  using assms poll_error_stuck [OF assms(3)] by (simp add: Poller_Run_def)

theorem unread_error_blocks_witness:
  "\<exists>w'. Poller_Run False (\<lambda>w. (True, w)) (\<lambda>w. (Some ''no plugin'', Suc w)) (\<lambda>w. w) [P_Tick, P_Stop] (Poll True) 0 =
    Ret (Poll True\<lparr>po_running := True\<rparr>, P_Stuck w')"
  by (rule unread_error_blocks) (simp_all add: Poll_def round_error_def)

end
