(* ===== verification/Ingress_Fsm.thy ===== *)
theory Ingress_Fsm
  imports Ingress Poller Fsm_Set
begin

text \<open>
  The state machine of the ingress controller (\<open>pkg/controller/ingress/fsm.go\<close>), on the state machine
  library: its spec, the action that synchronises, and the poller that sends it signals.
\<close>

section \<open>The spec\<close>

definition waiting :: Index where "waiting = 0"
definition syncing :: Index where "syncing = 1"
definition follower :: Index where "follower = 2"

definition sig_start :: Signal where "sig_start = 0"
definition sig_sync :: Signal where "sig_sync = 1"
definition sig_lead :: Signal where "sig_lead = 2"
definition sig_follow :: Signal where "sig_follow = 3"

lemmas ingress_consts = waiting_def syncing_def follower_def sig_start_def sig_sync_def sig_lead_def sig_follow_def

text \<open>A state with transitions only.\<close>

definition plain_state :: "Index \<Rightarrow> (Signal, Index) gomap \<Rightarrow> ('d, 'w) State" where
  "plain_state i ts = \<lparr>st_Index = i, st_Transitions = ts, st_Actions = [], st_Errors = [],
     st_TTL = \<lparr>exp_TTL = 0, exp_Raise = 0\<rparr>, st_Visit = \<lparr>lim_Value = 0, lim_Raise = 0\<rparr>\<rparr>"

definition stateMachineSpec :: "('d, 'w) Spec" where
  "stateMachineSpec = fst (Define
     (plain_state waiting [(sig_start, syncing), (sig_sync, waiting), (sig_lead, waiting), (sig_follow, follower)])
     [plain_state syncing [(sig_sync, waiting), (sig_follow, follower), (sig_lead, syncing)],
      plain_state follower [(sig_lead, waiting), (sig_follow, follower)]])"

text \<open>The action: the three synchronisations, whose errors are only logged.\<close>

definition sync_action :: "'l L4 \<Rightarrow> ('a, 'n, 'p, 'g) ingress_scope \<Rightarrow> (('a \<times> Route list) list \<Rightarrow> ('a \<times> Route list) list) \<Rightarrow>
    (InstanceID list \<Rightarrow> InstanceID list) \<Rightarrow> (('a \<times> HealthCheck list) list \<Rightarrow> ('a \<times> HealthCheck list) list) \<Rightarrow>
    ('a, 'p, 'g) ingress_managed \<times> ('n, 'l, 'g) ingress_world \<Rightarrow> ('a, 'p, 'g) ingress_managed \<times> ('n, 'l, 'g) ingress_world" where
  "sync_action l4 sc order1 order2 order3 cw = (case cw of (c, w) \<Rightarrow>
     let w = snd (syncRoutesL4 l4 sc order1 c w) in
     case syncBackends l4 order2 sc c w of (_, c, w) \<Rightarrow> (c, snd (syncHealthChecks l4 sc order3 c w)))"

text \<open>
  \<open>init\<close>: the action, which returns no error, goes into the spec. The spec is a variable of the package, which
  the objects share; a set copies the struct, but not the maps in it.
\<close>

definition ingress_init :: "(unit, 'w) Spec \<Rightarrow> ('w \<Rightarrow> 'w) \<Rightarrow> (unit, 'w) Spec" where
  "ingress_init spec act = (case SetAction spec syncing sig_sync (Some (\<lambda>_ _ w. (False, act w))) of Inl _ \<Rightarrow> spec | Inr s \<Rightarrow> s)"

definition ingress_spec :: "('w \<Rightarrow> 'w) \<Rightarrow> (unit, 'w) Spec" where
  "ingress_spec act = ingress_init stateMachineSpec act"

text \<open>The set of the process with its one instance, in the state \<open>follower\<close>.\<close>

definition ingress_set :: "string \<Rightarrow> ('w \<Rightarrow> 'w) \<Rightarrow> 'w \<Rightarrow> (unit, 'w) fset outcome" where
  "ingress_set name act w = andthen (NewSet (ingress_spec act) (Some (DefaultOptions name)) w) (run_txn (TAdd follower))"

section \<open>The poller's functions\<close>

definition mustTrue :: "string + bool \<Rightarrow> bool" where
  "mustTrue v = (case v of Inl _ \<Rightarrow> False | Inr b \<Rightarrow> b)"

text \<open>\<open>Signal\<close> on the instance: the error for an unknown signal, or the set once the event is processed.\<close>

definition fsm_Signal :: "Signal \<Rightarrow> ('d, 'w) fset \<Rightarrow> string option \<times> ('d, 'w) fset outcome" where
  "fsm_Signal signal s = (case Set_Signal signal 0 None s of
     Inl e \<Rightarrow> (Some ''unknown signal'', Ret s)
   | Inr t \<Rightarrow> (None, run_txn t s))"

text \<open>\<open>answers\<close> are what \<open>isLeader\<close> will find, in the order of the polls.\<close>

type_synonym ('d, 'w) poll_state = "(string + bool) list \<times> ('d, 'w) fset outcome"

definition on_set :: "(('d, 'w) fset \<Rightarrow> string option \<times> ('d, 'w) fset outcome) \<Rightarrow> ('d, 'w) fset outcome \<Rightarrow> string option \<times> ('d, 'w) fset outcome" where
  "on_set f s = (case s of Ret s \<Rightarrow> f s | Blocks \<Rightarrow> (None, Blocks) | Panics \<Rightarrow> (None, Panics))"

definition ingress_shouldRun :: "('d, 'w) poll_state \<Rightarrow> bool \<times> ('d, 'w) poll_state" where
  "ingress_shouldRun ps = (case ps of (answers, s) \<Rightarrow>
     let answer = (case answers of [] \<Rightarrow> Inl ''cannot determine leader status'' | a # _ \<Rightarrow> a) in
     if mustTrue answer then (True, tl answers, snd (on_set (fsm_Signal sig_lead) s))
     else (False, tl answers, snd (on_set (fsm_Signal sig_follow) s)))"

definition ingress_work :: "('d, 'w) poll_state \<Rightarrow> string option \<times> ('d, 'w) poll_state" where
  "ingress_work ps = (case ps of (answers, s) \<Rightarrow>
     (case on_set (fsm_Signal sig_start) s of (_, s) \<Rightarrow>
       (case on_set (fsm_Signal sig_sync) s of (err, s) \<Rightarrow> (err, answers, s))))"

section \<open>How the machine moves\<close>

text \<open>Its only instance is in the state \<open>i\<close>, and the world is \<open>w\<close>.\<close>

definition ingress_at :: "('w \<Rightarrow> 'w) \<Rightarrow> Index \<Rightarrow> 'w \<Rightarrow> (unit, 'w) fset \<Rightarrow> bool" where
  "ingress_at act i w s \<longleftrightarrow> set_spec s = ingress_spec act \<and> set_members s = [(0, 0)] \<and> inst_state (set_store s 0) = i \<and> inst_id (set_store s 0) = 0 \<and>
     inst_index (set_store s 0) = -1 \<and> gm_has (set_bystate s) waiting \<and> gm_has (set_bystate s) syncing \<and> gm_has (set_bystate s) follower \<and> set_world s = w"

text \<open>The table of transitions, as a function.\<close>

fun ingress_next :: "Index \<Rightarrow> Signal \<Rightarrow> Index option" where
  "ingress_next i g =
     (if i = waiting then (if g = sig_start then Some syncing else if g = sig_sync \<or> g = sig_lead then Some waiting else if g = sig_follow then Some follower else None)
      else if i = syncing then (if g = sig_sync then Some waiting else if g = sig_lead then Some syncing else if g = sig_follow then Some follower else None)
      else if i = follower then (if g = sig_lead then Some waiting else if g = sig_follow then Some follower else None)
      else None)"

declare ingress_next.simps [simp del]

lemma stateMachineSpec_defined:
  "Define (plain_state waiting [(sig_start, syncing), (sig_sync, waiting), (sig_lead, waiting), (sig_follow, follower)])
     [plain_state syncing [(sig_sync, waiting), (sig_follow, follower), (sig_lead, syncing)],
      plain_state follower [(sig_lead, waiting), (sig_follow, follower)]] = (stateMachineSpec, None)"
  by (simp add: stateMachineSpec_def plain_state_def ingress_consts compile_defs gm_has_def)

lemma ingress_transition:
  assumes "i \<in> {waiting, syncing, follower}" "g \<in> {sig_start, sig_sync, sig_lead, sig_follow}"
  shows "transition (ingress_spec act) i g = (case ingress_next i g of
      None \<Rightarrow> Inl (ErrUnknownTransition None g i)
    | Some n \<Rightarrow> Inr (n, if i = syncing \<and> g = sig_sync then Some (\<lambda>_ _ w. (False, act w)) else None))"
  using assms by (auto simp: ingress_spec_def ingress_init_def SetAction_def stateMachineSpec_def plain_state_def ingress_consts compile_defs gm_has_def
      transition_def gm_get0_def ingress_next.simps)

lemma ingress_spec_plain:
  "flap (ingress_spec act) i j = None"
  "i \<in> {waiting, syncing, follower} \<Longrightarrow> expiry (ingress_spec act) i = Inr None"
  "i \<in> {waiting, syncing, follower} \<Longrightarrow> visit (ingress_spec act) i = Inr None"
  "g \<in> {sig_start, sig_sync, sig_lead, sig_follow} \<Longrightarrow> gm_has (sp_signals (ingress_spec act)) g"
  by (auto simp: ingress_spec_def ingress_init_def SetAction_def stateMachineSpec_def plain_state_def ingress_consts compile_defs gm_has_def
      flap_def flap_key_def expiry_def visit_def)

lemma ingress_moves:
  assumes at: "ingress_at act i w s" and i: "i \<in> {waiting, syncing, follower}" and n: "n \<in> {waiting, syncing, follower}"
    and f: "f = None \<and> w' = w \<or> f = Some (\<lambda>_ _ w. (False, act w)) \<and> w' = act w"
  shows "\<exists>s'. andthen (run_action 0 g i n f s) (\<lambda>(s, next). enter 0 i next s) = Ret (s', None) \<and> ingress_at act n w' s'"
proof -
  have r: "run_action 0 g i n f s = Ret (s\<lparr>set_world := w'\<rparr>, n)"
    using f at by (auto simp: run_action_def ingress_at_def)
  have d: "\<exists>m. gm_get (bystate_delete i 0 (set_bystate s)) n = Some m" using at n by (auto simp: ingress_at_def bystate_delete_def gm_has_def split: option.splits)
  have k: "gm_has (bystate_delete i 0 (set_bystate s)) j = gm_has (set_bystate s) j" for j by (auto simp: bystate_delete_def gm_has_def split: option.splits)
  show ?thesis using at n d k unfolding r
    by (auto simp: enter_def processDeadline_def ingress_at_def ingress_spec_plain instance_update_def set_queue_def bystate_put_def processVisitLimit_def)
qed

lemma ingress_event:
  assumes at: "ingress_at act i w s" and i: "i \<in> {waiting, syncing, follower}" and g: "g \<in> {sig_start, sig_sync, sig_lead, sig_follow}"
  obtains s' where "fsm_Signal g s = (None, Ret s')"
    "ingress_at act (case ingress_next i g of None \<Rightarrow> i | Some n \<Rightarrow> n) (if i = syncing \<and> g = sig_sync then act w else w) s'"
proof -
  let ?ev = "\<lparr>ev_instance = 0, ev_signal = g, ev_data = None\<rparr> :: unit event"
  have s: "fsm_Signal g s = (None, run_txn (TEvent ?ev) s)" using at ingress_spec_plain(4) [OF g] by (simp add: fsm_Signal_def Set_Signal_def ingress_at_def)
  have t: "transition (set_spec s) (inst_state (set_store s 0)) g = (case ingress_next i g of
      None \<Rightarrow> Inl (ErrUnknownTransition None g i)
    | Some n \<Rightarrow> Inr (n, if i = syncing \<and> g = sig_sync then Some (\<lambda>_ _ w. (False, act w)) else None))"
  proof -
    have "set_spec s = ingress_spec act" "inst_state (set_store s 0) = i" using at by (simp_all add: ingress_at_def)
    then show ?thesis by (simp only: ingress_transition [OF i g])
  qed
  show thesis
  proof (cases "ingress_next i g")
    case None
    then have "\<not> (i = syncing \<and> g = sig_sync)" by (auto simp: ingress_next.simps ingress_consts)
    moreover have "handleEvent ?ev s = Ret (s, Some (ErrUnknownTransition None g i))" using at t None by (simp add: handleEvent_def ingress_at_def)
    moreover obtain s' where "handleError (ErrUnknownTransition None g i) s = Ret s'" "ingress_at act i w s'"
      using at by (cases "opt_IgnoreUndefinedTransitions (set_options s)") (auto simp: handleError_eq ingress_at_def)
    ultimately show thesis using that [of s'] None unfolding s by (auto simp: run_txn_def txn_func_def)
  next
    case (Some n)
    then have n: "n \<in> {waiting, syncing, follower}" by (auto simp: ingress_next.simps split: if_splits)
    define f where "f = (if i = syncing \<and> g = sig_sync then Some (\<lambda>(_ :: ID) (_ :: unit option) w. (False, act w)) else None)"
    define s1 where "s1 = set_flaps 0 (inst_flaps (set_store s 0)) s"
    have at1: "ingress_at act i w s1" using at by (simp add: s1_def ingress_at_def set_flaps_def)
    let ?w = "if i = syncing \<and> g = sig_sync then act w else w"
    have "f = None \<and> ?w = w \<or> f = Some (\<lambda>_ _ w. (False, act w)) \<and> ?w = act w" by (simp add: f_def)
    from ingress_moves [OF at1 i n this, of g] obtain s' where
      s': "andthen (run_action 0 g i n f s1) (\<lambda>(s, next). enter 0 i next s) = Ret (s', None)"
        "ingress_at act n ?w s'" by blast
    have "handleEvent ?ev s = andthen (run_action 0 g i n f s1) (\<lambda>(s, next). enter 0 i next s)"
      using at t Some by (simp add: handleEvent_def ingress_at_def flap_check_def ingress_spec_plain(1) set_data_def f_def s1_def)
    then show thesis using that s' Some unfolding s by (simp add: run_txn_def txn_func_def)
  qed
qed

section \<open>Rounds of the poller\<close>

lemma ingress_set_start: "\<exists>s. ingress_set name act w = Ret s \<and> ingress_at act follower w s"
proof -
  have k: "gm_has (sp_states (ingress_spec act)) i" if "i \<in> {waiting, syncing, follower}" for i
    using that ingress_spec_plain(2) [of i act] by (auto simp: expiry_def gm_has_def split: option.splits)
  have g: "gm_has (map (\<lambda>(i, _). (i, [])) m) i = gm_has m i" for m :: "(Index, (unit, 'w) State) gomap" and i
    by (induction m) (auto simp: gm_has_def)
  have b: "gm_has (map (\<lambda>(i, _). (i, [])) (sp_states (ingress_spec act))) i" if "i \<in> {waiting, syncing, follower}" for i
    using g k that by blast
  from b [of follower] obtain m where "gm_get (map (\<lambda>(i, _). (i, [])) (sp_states (ingress_spec act))) follower = Some (m :: (ID, addr) gomap)"
    by (auto elim: gm_hasE)
  then show ?thesis using b
    by (auto simp: ingress_set_def NewSet_def DefaultOptions_def defaultBufferSize_def Let_def run_txn_def txn_func_def handleAdd_def
        processDeadline_def ingress_spec_plain instance_update_def set_queue_def bystate_put_def ingress_at_def wrapu64_def)
qed

text \<open>Polled as the leader, the machine synchronises once; polled as a follower, it does not.\<close>

lemma ingress_round:
  assumes at: "ingress_at act i w s" and i: "i \<in> {waiting, follower}"
  obtains s' where "poll_round ingress_shouldRun ingress_work (a # answers, Ret s) = (answers, Ret s')"
    "\<not> round_error ingress_shouldRun ingress_work (a # answers, Ret s)"
    "ingress_at act (if mustTrue a then waiting else follower) (if mustTrue a then act w else w) s'"
proof (cases "mustTrue a")
  case True
  from i have i: "i \<in> {waiting, syncing, follower}" and n: "ingress_next i sig_lead = Some waiting" by (auto simp: ingress_next.simps ingress_consts)
  have w: "waiting \<noteq> syncing" "sig_lead \<noteq> sig_sync" "sig_start \<noteq> sig_sync" "ingress_next waiting sig_start = Some syncing" "ingress_next syncing sig_sync = Some waiting"
    by (simp_all add: ingress_next.simps ingress_consts)
  obtain s1 where s1: "fsm_Signal sig_lead s = (None, Ret s1)" "ingress_at act waiting w s1"
    using ingress_event [OF at i, of sig_lead] n w(2) by auto
  obtain s2 where s2: "fsm_Signal sig_start s1 = (None, Ret s2)" "ingress_at act syncing w s2"
    using ingress_event [OF s1(2), of sig_start] w by auto
  obtain s3 where s3: "fsm_Signal sig_sync s2 = (None, Ret s3)" "ingress_at act waiting (act w) s3"
    using ingress_event [OF s2(2), of sig_sync] w by auto
  show thesis by (rule that [of s3])
    (use True s1 s2 s3 in \<open>simp_all add: poll_round_def round_error_def ingress_shouldRun_def ingress_work_def on_set_def\<close>)
next
  case False
  from i have i: "i \<in> {waiting, syncing, follower}" and n: "ingress_next i sig_follow = Some follower" and f: "sig_follow \<noteq> sig_sync"
    by (auto simp: ingress_next.simps ingress_consts)
  obtain s1 where s1: "fsm_Signal sig_follow s = (None, Ret s1)" "ingress_at act follower w s1"
    using ingress_event [OF at i, of sig_follow] n f by auto
  show thesis by (rule that [of s1])
    (use False s1 in \<open>simp_all add: poll_round_def round_error_def ingress_shouldRun_def on_set_def\<close>)
qed

lemma ingress_rounds:
  assumes "ingress_at act i w s" "i \<in> {waiting, follower}" "n \<le> length answers"
  shows "\<exists>s'. (poll_round ingress_shouldRun ingress_work ^^ n) (answers, Ret s) = (drop n answers, Ret s') \<and>
    ingress_at act (if n = 0 then i else if mustTrue (answers ! (n - 1)) then waiting else follower)
      ((act ^^ length (filter mustTrue (take n answers))) w) s'"
  using assms(3)
proof (induction n)
  case (Suc n)
  then obtain s1 where s1: "(poll_round ingress_shouldRun ingress_work ^^ n) (answers, Ret s) = (drop n answers, Ret s1)"
    "ingress_at act (if n = 0 then i else if mustTrue (answers ! (n - 1)) then waiting else follower) ((act ^^ length (filter mustTrue (take n answers))) w) s1"
    by auto
  have d: "drop n answers = answers ! n # drop (Suc n) answers" using Suc.prems by (simp add: Cons_nth_drop_Suc)
  have t: "take (Suc n) answers = take n answers @ [answers ! n]" using Suc.prems by (simp add: take_Suc_conv_app_nth)
  have i: "(if n = 0 then i else if mustTrue (answers ! (n - 1)) then waiting else follower) \<in> {waiting, follower}" using assms(2) by simp
  obtain s2 where s2: "poll_round ingress_shouldRun ingress_work (answers ! n # drop (Suc n) answers, Ret s1) = (drop (Suc n) answers, Ret s2)"
    "ingress_at act (if mustTrue (answers ! n) then waiting else follower)
       (if mustTrue (answers ! n) then act ((act ^^ length (filter mustTrue (take n answers))) w) else (act ^^ length (filter mustTrue (take n answers))) w) s2"
    by (rule ingress_round [OF s1(2) i])
  then show ?case using s1(1) d t by (auto split: if_splits)
qed (use assms(1) in auto)

text \<open>A second \<open>init\<close> on the shared spec replaces the action of the first.\<close>

lemma ingress_init_again: "ingress_init (ingress_spec act) act' = ingress_spec act'"
  by (simp add: ingress_spec_def ingress_init_def SetAction_def stateMachineSpec_def plain_state_def ingress_consts compile_defs gm_has_def)

lemma ingress_taken_over: "ingress_at act i w s \<Longrightarrow> ingress_at act' i w (s\<lparr>set_spec := ingress_init (set_spec s) act'\<rparr>)"
  by (simp add: ingress_at_def ingress_init_again)

text \<open>The whole run of the poller, for as long as there are ticks.\<close>

lemma ingress_polls:
  assumes "ingress_at act i w s" "i \<in> {waiting, follower}" "length answers = Suc n"
  shows "\<exists>s'. poll_loop reader ingress_shouldRun ingress_work cleanup (replicate n P_Tick) (answers, Ret s) = P_Waiting ([], Ret s') \<and>
    set_world s' = (act ^^ length (filter mustTrue answers)) w"
proof -
  have "\<not> round_error ingress_shouldRun ingress_work ((poll_round ingress_shouldRun ingress_work ^^ k) (answers, Ret s))" if k: "k \<le> n" for k
  proof -
    obtain s1 where s1: "(poll_round ingress_shouldRun ingress_work ^^ k) (answers, Ret s) = (drop k answers, Ret s1)"
      "ingress_at act (if k = 0 then i else if mustTrue (answers ! (k - 1)) then waiting else follower) ((act ^^ length (filter mustTrue (take k answers))) w) s1"
      using ingress_rounds [OF assms(1,2), of k answers] k assms(3) by auto
    have d: "drop k answers = answers ! k # drop (Suc k) answers" using that assms(3) by (simp add: Cons_nth_drop_Suc)
    have "(if k = 0 then i else if mustTrue (answers ! (k - 1)) then waiting else follower) \<in> {waiting, follower}" using assms(2) by simp
    from ingress_round [OF s1(2) this, of "answers ! k" "drop (Suc k) answers"] show ?thesis unfolding s1(1) d by blast
  qed
  from poll_loop_ticks [OF this] show ?thesis using ingress_rounds [OF assms(1,2), of "Suc n" answers] assms(3) by (auto simp: ingress_at_def)
qed

end
