(* ===== verification/Group_Env.thy ===== *)
theory Group_Env
  imports Group_Scaled
begin

text \<open>
  What the group controller relies on of the instance and flavor plugins it drives, as a contract,
  and what the scaled group guarantees on top of it. The contract is the documented behaviour of
  \<open>pkg/spi/instance/spi.go\<close> and \<open>pkg/spi/flavor/spi.go\<close>; operations may fail, and then change nothing.
\<close>

type_synonym inventory = "InstanceID \<Rightarrow> (LogicalID option \<times> tags) option"

definition tags_match :: "tags \<Rightarrow> tags \<Rightarrow> bool" where
  "tags_match want have \<longleftrightarrow> (\<forall>(k, v) \<in> set want. gm_get have k = Some v)"

definition described :: "inventory \<Rightarrow> tags \<Rightarrow> 'p Description list \<Rightarrow> bool" where
  "described iv tags ds \<longleftrightarrow> distinct (map de_ID ds) \<and>
     (\<forall>d \<in> set ds. iv (de_ID d) = Some (de_LogicalID d, de_Tags d) \<and> tags_match tags (de_Tags d)) \<and>
     (\<forall>iid l t. iv iid = Some (l, t) \<and> tags_match tags t \<longrightarrow> (\<exists>d \<in> set ds. de_ID d = iid))"

text \<open>The tags the group keeps its books with; a plugin may add others.\<close>

definition reservedTags :: "string set" where
  "reservedTags = {GroupTag, LogicalIDTag, ConfigSHATag}"

definition group_labels :: "tags \<Rightarrow> bool" where
  "group_labels labels \<longleftrightarrow> gm_ok labels \<and> fst ` set labels \<subseteq> reservedTags"

lemma group_labels_group [simp]: "group_labels (gm_put ConfigSHATag v (tags_into [(GroupTag, g)] []))"
  by (simp add: group_labels_def gm_keys_put reservedTags_def tags_into_def gm_ok_def)

text \<open>A relabelled instance: each of its tags is as before or as the labels say.\<close>

definition relabelled :: "inventory \<Rightarrow> InstanceID \<Rightarrow> tags \<Rightarrow> inventory \<Rightarrow> bool" where
  "relabelled iv iid labels iv' \<longleftrightarrow> (\<forall>i. i \<noteq> iid \<longrightarrow> iv' i = iv i) \<and>
     (case iv iid of None \<Rightarrow> iv' iid = None
      | Some (l, t) \<Rightarrow> \<exists>t'. iv' iid = Some (l, t') \<and> (\<forall>k. gm_get t' k = gm_get t k \<or> gm_get labels k \<noteq> None \<and> gm_get t' k = gm_get labels k))"

text \<open>The instances of a group.\<close>

definition group_member :: "string \<Rightarrow> inventory \<Rightarrow> InstanceID \<Rightarrow> bool" where
  "group_member gid iv iid = (case iv iid of None \<Rightarrow> False | Some (_, t) \<Rightarrow> gm_get t GroupTag = Some gid)"

definition group_ids :: "string \<Rightarrow> inventory \<Rightarrow> InstanceID set" where
  "group_ids gid iv = {iid. group_member gid iv iid}"

lemma group_ids_fresh:
  "iv iid = None \<Longrightarrow> gm_get t GroupTag = Some gid \<Longrightarrow> group_ids gid (iv(iid \<mapsto> (l, t))) = insert iid (group_ids gid iv) \<and> iid \<notin> group_ids gid iv"
  by (auto simp: group_ids_def group_member_def)

lemma group_ids_Some: "iid \<in> group_ids gid iv \<Longrightarrow> iv iid \<noteq> None"
  by (auto simp: group_ids_def group_member_def split: option.splits)

lemma group_ids_remove: "group_ids gid (iv(iid := None)) = group_ids gid iv - {iid}"
  by (auto simp: group_ids_def group_member_def)

text \<open>The logical id of an instance: its own, or the one in its tags.\<close>

definition logical_of :: "LogicalID option \<times> tags \<Rightarrow> LogicalID option" where
  "logical_of e = (case fst e of Some l \<Rightarrow> Some l | None \<Rightarrow> gm_get (snd e) LogicalIDTag)"

definition ids_of :: "LogicalID option \<times> tags \<Rightarrow> LogicalID option \<times> string option" where
  "ids_of e = (fst e, gm_get (snd e) LogicalIDTag)"

definition hash_of :: "(LogicalID option \<times> tags) option \<Rightarrow> string option" where
  "hash_of x = (case x of None \<Rightarrow> None | Some e \<Rightarrow> gm_get (snd e) ConfigSHATag)"

lemma logical_ids: "logical_of e = (case fst (ids_of e) of Some l \<Rightarrow> Some l | None \<Rightarrow> snd (ids_of e))"
  by (simp add: logical_of_def ids_of_def split: option.splits)

lemma logical_cong: "ids_of e = ids_of e' \<Longrightarrow> logical_of e = logical_of e'"
  by (simp only: logical_ids)

text \<open>
  What labelling with the hash \<open>h\<close> may change: tags of the group's members, other than the group's and
  the logical id, and the hash only to \<open>h\<close>.
\<close>

definition label_frame :: "string \<Rightarrow> string \<Rightarrow> inventory \<Rightarrow> inventory \<Rightarrow> bool" where
  "label_frame gid h iv iv' \<longleftrightarrow> group_ids gid iv' = group_ids gid iv \<and>
     (\<forall>iid. (iid \<notin> group_ids gid iv \<longrightarrow> iv' iid = iv iid) \<and> map_option ids_of (iv' iid) = map_option ids_of (iv iid) \<and>
       (hash_of (iv' iid) = hash_of (iv iid) \<or> hash_of (iv' iid) = Some h))"

lemma label_frame_refl [simp]: "label_frame gid h iv iv"
  by (simp add: label_frame_def)

lemma label_frame_trans: "label_frame gid h iv iv' \<Longrightarrow> label_frame gid h iv' iv'' \<Longrightarrow> label_frame gid h iv iv''"
  unfolding label_frame_def by metis

lemma label_frame_dom: "label_frame gid h iv iv' \<Longrightarrow> iv' iid = None \<longleftrightarrow> iv iid = None"
  unfolding label_frame_def by (metis map_option_is_None)

lemma label_frame_logical: "label_frame gid h iv iv' \<Longrightarrow> map_option logical_of (iv' iid) = map_option logical_of (iv iid)"
proof -
  assume "label_frame gid h iv iv'"
  then have "map_option ids_of (iv' iid) = map_option ids_of (iv iid)" by (simp add: label_frame_def)
  then show ?thesis by (cases "iv iid"; cases "iv' iid") (auto intro: logical_cong)
qed

text \<open>A group \<open>s\<close> with the tags \<open>CommitGroup\<close> gives it, and its plugins.\<close>

locale group_env =
  fixes s :: "('p, 'w) scaledGroup" and gid :: string and inst :: "'w \<Rightarrow> inventory" and wf :: "'w \<Rightarrow> bool"
    and okspec :: "'p InstanceSpec \<Rightarrow> bool"
  assumes memberTags: "sg_memberTags s = [(GroupTag, gid)]"
    and fin: "wf w \<Longrightarrow> finite (dom (inst w))"
    and describe: "wf w \<Longrightarrow> ip_DescribeInstances (gset_instancePlugin (sg_settings s)) (sg_memberTags s) props w = (r, w') \<Longrightarrow>
      wf w' \<and> inst w' = inst w \<and> (case r of Inl _ \<Rightarrow> True | Inr ds \<Rightarrow> described (inst w) (sg_memberTags s) ds)"
    and provision: "wf w \<Longrightarrow> okspec spec \<Longrightarrow> ip_Provision (gset_instancePlugin (sg_settings s)) spec w = (rp, w') \<Longrightarrow>
      wf w' \<and> (case rp of Inl _ \<Rightarrow> inst w' = inst w
        | Inr iid \<Rightarrow> inst w iid = None \<and> (\<exists>t. inst w' = (inst w)(iid \<mapsto> (is_LogicalID spec, t)) \<and> (\<forall>k \<in> reservedTags. gm_get t k = gm_get (is_Tags spec) k)))"
    and destroy: "wf w \<Longrightarrow> ip_Destroy (gset_instancePlugin (sg_settings s)) iid ctx w = (rd, w') \<Longrightarrow>
      wf w' \<and> (case rd of None \<Rightarrow> inst w' = (inst w)(iid := None) | Some _ \<Rightarrow> inst w' = inst w)"
    and label: "wf w \<Longrightarrow> group_labels labels \<Longrightarrow> ip_Label (gset_instancePlugin (sg_settings s)) iid labels w = (rl, w') \<Longrightarrow>
      wf w' \<and> relabelled (inst w) iid labels (inst w')"
    and prepare: "wf w \<Longrightarrow> is_Tags spec = create_tags s l \<Longrightarrow> is_LogicalID spec = l \<Longrightarrow> is_Attachments spec = [] \<Longrightarrow>
      is_Properties spec = ps_Properties (gs_Instance (gset_config (sg_settings s))) \<Longrightarrow>
      fp_Prepare (gset_flavorPlugin (sg_settings s)) (ps_Properties (gs_Flavor (gset_config (sg_settings s)))) spec alloc idx w = (rq, w') \<Longrightarrow>
      wf w' \<and> inst w' = inst w \<and> (case rq of Inl _ \<Rightarrow> True
        | Inr spec' \<Rightarrow> okspec spec' \<and> is_LogicalID spec' = l \<and> (\<forall>k \<in> reservedTags. gm_get (is_Tags spec') k = gm_get (create_tags s l) k))"
    and drain_frame: "wf w \<Longrightarrow> fp_Drain (gset_flavorPlugin (sg_settings s)) fprops d w = (re, w') \<Longrightarrow> wf w' \<and> inst w' = inst w"
    and health_frame: "wf w \<Longrightarrow> fp_Healthy (gset_flavorPlugin (sg_settings s)) fprops d w = (rh, w') \<Longrightarrow> wf w' \<and> inst w' = inst w"
begin

lemma tags_match_group: "tags_match (sg_memberTags s) t \<longleftrightarrow> gm_get t GroupTag = Some gid"
  by (simp add: tags_match_def memberTags)

lemma create_tags_group: "gm_get (create_tags s l) GroupTag = Some gid"
  "l = Some x \<Longrightarrow> gm_get (create_tags s l) LogicalIDTag = Some x"
  "gm_get (create_tags s l) ConfigSHATag = Some (config_hash (sg_settings s))"
  by (simp_all add: create_tags_def tags_into_def memberTags Let_def GroupTag_def LogicalIDTag_def ConfigSHATag_def split: option.splits)

lemma finite_members: "wf w \<Longrightarrow> finite (group_ids gid (inst w))"
  by (rule finite_subset [OF _ fin]) (auto simp: group_ids_def group_member_def split: option.splits)

lemma create_effect:
  assumes "wf w"
  shows "wf (CreateOne supid supsz l s w) \<and> (inst (CreateOne supid supsz l s w) = inst w \<or>
    (\<exists>iid t. inst w iid = None \<and> inst (CreateOne supid supsz l s w) = (inst w)(iid \<mapsto> (l, t)) \<and>
      gm_get t GroupTag = Some gid \<and> (l \<noteq> None \<longrightarrow> gm_get t LogicalIDTag = l) \<and> gm_get t ConfigSHATag = Some (config_hash (sg_settings s))))"
proof -
  define spec where "spec = \<lparr>is_Properties = ps_Properties (gs_Instance (gset_config (sg_settings s))), is_Tags = create_tags s l,
    is_Init = [], is_LogicalID = l, is_Attachments = []\<rparr>"
  obtain rq w1 where q: "fp_Prepare (gset_flavorPlugin (sg_settings s)) (ps_Properties (gs_Flavor (gset_config (sg_settings s)))) spec
    (gs_Allocation (gset_config (sg_settings s))) \<lparr>gi_Group = supid, gi_Sequence = supsz\<rparr> w = (rq, w1)" by fastforce
  have P: "wf w1 \<and> inst w1 = inst w \<and> (case rq of Inl _ \<Rightarrow> True
      | Inr spec' \<Rightarrow> okspec spec' \<and> is_LogicalID spec' = l \<and> (\<forall>k \<in> reservedTags. gm_get (is_Tags spec') k = gm_get (create_tags s l) k))"
    by (rule prepare [OF assms _ _ _ _ q]) (simp_all add: spec_def)
  show ?thesis
  proof (cases rq)
    case (Inl e)
    then show ?thesis using P q by (simp add: CreateOne_def spec_def Let_def)
  next
    case (Inr spec')
    obtain rp w2 where p: "ip_Provision (gset_instancePlugin (sg_settings s)) spec' w1 = (rp, w2)" by fastforce
    have c: "CreateOne supid supsz l s w = w2" using q p by (simp add: CreateOne_def spec_def Inr Let_def)
    have tg: "gm_get (is_Tags spec') GroupTag = Some gid" "gm_get (is_Tags spec') ConfigSHATag = Some (config_hash (sg_settings s))"
      "l \<noteq> None \<longrightarrow> gm_get (is_Tags spec') LogicalIDTag = l"
      using P create_tags_group [of l] by (auto simp: Inr reservedTags_def)
    have "wf w2 \<and> (case rp of Inl _ \<Rightarrow> inst w2 = inst w1
        | Inr iid \<Rightarrow> inst w1 iid = None \<and> (\<exists>t. inst w2 = (inst w1)(iid \<mapsto> (is_LogicalID spec', t)) \<and> (\<forall>k \<in> reservedTags. gm_get t k = gm_get (is_Tags spec') k)))"
      using P by (intro provision [OF _ _ p]) (simp_all add: Inr)
    then show ?thesis
    proof (cases rp)
      case (Inr iid)
      with \<open>wf w2 \<and> _\<close> obtain t where t: "wf w2" "inst w1 iid = None" "inst w2 = (inst w1)(iid \<mapsto> (is_LogicalID spec', t))"
        "\<forall>k \<in> reservedTags. gm_get t k = gm_get (is_Tags spec') k" by auto
      then have "inst w2 = (inst w)(iid \<mapsto> (l, t))" "gm_get t GroupTag = Some gid" "l \<noteq> None \<longrightarrow> gm_get t LogicalIDTag = l"
        "gm_get t ConfigSHATag = Some (config_hash (sg_settings s))" "inst w iid = None"
        using P tg \<open>rq = Inr spec'\<close> by (auto simp: reservedTags_def)
      with t(1) show ?thesis unfolding c by blast
    qed (use P c in simp)
  qed
qed

lemma drain_effect: "wf w \<Longrightarrow> drain d ctx s w = (r, w') \<Longrightarrow> wf w' \<and> inst w' = inst w"
  by (auto simp: drain_def Let_def split: if_splits prod.splits option.splits dest: drain_frame)

lemma destroy_effect:
  assumes "wf w" "scaled_Destroy d ctx s w = (r, w')"
  shows "wf w' \<and> (inst w' = inst w \<or> inst w' = (inst w)(de_ID d := None))"
    "r = None \<Longrightarrow> ctx \<noteq> RollingUpdate \<Longrightarrow> inst w' = (inst w)(de_ID d := None)"
proof -
  obtain rr w1 where d: "drain d ctx s w = (rr, w1)" by fastforce
  have D: "wf w1" "inst w1 = inst w" using drain_effect [OF assms(1) d] by simp_all
  obtain rd w2 where p: "ip_Destroy (gset_instancePlugin (sg_settings s)) (de_ID d) ctx w1 = (rd, w2)" by fastforce
  have P: "wf w2 \<and> (case rd of None \<Rightarrow> inst w2 = (inst w)(de_ID d := None) | Some _ \<Rightarrow> inst w2 = inst w)"
    using destroy [OF D(1) p] unfolding D(2) .
  show "wf w' \<and> (inst w' = inst w \<or> inst w' = (inst w)(de_ID d := None))"
    using assms(2) D P d p by (auto simp: scaled_Destroy_def split: option.splits if_splits)
  show "inst w' = (inst w)(de_ID d := None)" if "r = None" "ctx \<noteq> RollingUpdate"
    using assms(2) P d p that by (auto simp: scaled_Destroy_def drain_def split: option.splits if_splits prod.splits)
qed

lemma list_effect:
  assumes "wf w" "scaled_List s w = (r, w')"
  shows "wf w' \<and> inst w' = inst w \<and> (case r of Inl _ \<Rightarrow> True | Inr ds \<Rightarrow> \<exists>found. described (inst w) (sg_memberTags s) found \<and> ds = map normalize found)"
proof -
  obtain rr w1 where d: "ip_DescribeInstances (gset_instancePlugin (sg_settings s)) (sg_memberTags s) True w = (rr, w1)" by fastforce
  from describe [OF assms(1) d] assms(2) d show ?thesis
    by (cases rr) (auto simp: scaled_List_def)
qed

lemma group_ids_relabel:
  assumes "relabelled iv iid labels iv'" "\<And>v. gm_get labels GroupTag = Some v \<Longrightarrow> v = gid" "gm_get labels GroupTag \<noteq> None \<Longrightarrow> group_member gid iv iid"
  shows "group_ids gid iv' = group_ids gid iv"
proof -
  have "group_member gid iv' i = group_member gid iv i" for i
    using assms by (cases "i = iid") (auto simp: relabelled_def group_member_def split: option.splits; metis option.sel)+
  then show ?thesis by (simp add: group_ids_def)
qed

lemma relabelled_frame:
  assumes r: "relabelled iv iid labels iv'" "group_member gid iv iid"
    and l: "gm_get labels GroupTag = Some gid" "gm_get labels LogicalIDTag = None" "gm_get labels ConfigSHATag = Some h"
  shows "label_frame gid h iv iv'"
proof -
  obtain i t where e: "iv iid = Some (i, t)" using r(2) by (auto simp: group_member_def split: option.splits)
  then obtain t' where t': "iv' iid = Some (i, t')" "\<forall>k. gm_get t' k = gm_get t k \<or> gm_get labels k \<noteq> None \<and> gm_get t' k = gm_get labels k"
    using r(1) by (auto simp: relabelled_def)
  have "group_ids gid iv' = group_ids gid iv" using assms by (intro group_ids_relabel) auto
  moreover have "iv' i = iv i" if "i \<noteq> iid" for i using r(1) that by (simp add: relabelled_def)
  moreover have "gm_get t' LogicalIDTag = gm_get t LogicalIDTag" "gm_get t' ConfigSHATag = gm_get t ConfigSHATag \<or> gm_get t' ConfigSHATag = Some h"
    using t'(2) [rule_format, of LogicalIDTag] t'(2) [rule_format, of ConfigSHATag] l by simp_all
  moreover have "iid \<in> group_ids gid iv" using r(2) by (simp add: group_ids_def)
  ultimately show ?thesis unfolding label_frame_def using e t'(1)
    by (intro conjI allI) (case_tac "iida = iid"; auto simp: ids_of_def hash_of_def)+
qed

lemma label_each_effect:
  assumes "wf w" "\<forall>d \<in> set ds. group_member gid (inst w) (de_ID d)" "gm_get labels GroupTag = Some gid" "gm_get labels LogicalIDTag = None" "group_labels labels"
    "gm_get labels ConfigSHATag = Some h" "label_each (gset_instancePlugin (sg_settings s)) labels ds w = (r, w')"
  shows "wf w' \<and> label_frame gid h (inst w) (inst w')"
  using assms
proof (induction ds arbitrary: w)
  case (Cons d ds)
  obtain rl w1 where l: "ip_Label (gset_instancePlugin (sg_settings s)) (de_ID d) labels w = (rl, w1)" by fastforce
  have L: "wf w1" "relabelled (inst w) (de_ID d) labels (inst w1)" using label [OF Cons.prems(1,5) l] by simp_all
  have g: "label_frame gid h (inst w) (inst w1)" using L(2) Cons.prems(2,3,4,6) by (intro relabelled_frame) auto
  have "\<forall>d \<in> set ds. group_member gid (inst w1) (de_ID d)" using g Cons.prems(2) by (auto simp: label_frame_def group_ids_def set_eq_iff)
  then show ?case using Cons label_frame_trans [OF g] L(1) g l by (auto split: if_splits option.splits)
qed simp

lemma label_effect:
  assumes w: "wf w" and l: "scaled_Label s w = (r, w')"
  shows "wf w' \<and> label_frame gid (config_hash (sg_settings s)) (inst w) (inst w')"
proof -
  obtain r2 w2 where l2: "ip_DescribeInstances (gset_instancePlugin (sg_settings s)) (sg_memberTags s) False w = (r2, w2)" by fastforce
  note D = describe [OF w l2]
  show ?thesis
  proof (cases r2)
    case (Inl e)
    then show ?thesis using l l2 D by (auto simp: scaled_Label_def Let_def)
  next
    case (Inr found)
    let ?labels = "gm_put ConfigSHATag (config_hash (sg_settings s)) (tags_into (sg_memberTags s) [])"
    have "gm_get ?labels GroupTag = Some gid" "gm_get ?labels LogicalIDTag = None" "gm_get ?labels ConfigSHATag = Some (config_hash (sg_settings s))"
      by (simp_all add: memberTags tags_into_def GroupTag_def ConfigSHATag_def LogicalIDTag_def)
    moreover have "group_labels ?labels" by (simp add: memberTags)
    moreover have "\<forall>d \<in> set found. group_member gid (inst w2) (de_ID d)"
      using D Inr by (auto simp: described_def tags_match_group group_member_def)
    moreover have "label_each (gset_instancePlugin (sg_settings s)) ?labels found w2 = (r, w')"
      using l l2 Inr by (simp add: scaled_Label_def Let_def)
    ultimately show ?thesis using label_each_effect [of w2 found ?labels "config_hash (sg_settings s)" r w'] D by simp
  qed
qed

text \<open>
  What every caller of \<open>labelAndList\<close> gets: the members of the group, each once; nobody joins or
  leaves by being labelled, and logical ids stay.
\<close>

lemma labelAndList_effect:
  assumes w: "wf w" and r: "labelAndList s w = (r, w')"
  shows "wf w' \<and> label_frame gid (config_hash (sg_settings s)) (inst w) (inst w') \<and>
    (case r of Inl _ \<Rightarrow> True | Inr ds \<Rightarrow> \<exists>found. described (inst w') (sg_memberTags s) found \<and> ds = map normalize found)"
proof -
  obtain r1 w1 where l1: "scaled_List s w = (r1, w1)" by fastforce
  note L1 = list_effect [OF w l1]
  obtain r3 w3 where l3: "scaled_Label s w1 = (r3, w3)" by fastforce
  note L3 = label_effect [OF conjunct1 [OF L1] l3]
  obtain r4 w4 where l4: "scaled_List s w3 = (r4, w4)" by fastforce
  note L4 = list_effect [OF conjunct1 [OF L3] l4]
  show ?thesis
  proof (cases r1)
    case (Inl e)
    then show ?thesis using L1 l1 r by (auto simp: labelAndList_def)
  next
    case (Inr ds)
    then show ?thesis using L1 l1 r l3 L3 l4 L4
      by (cases r3; cases "needsLabel ds") (auto simp: labelAndList_def split: sum.splits)
  qed
qed

lemma normalize_logical: "de_LogicalID (normalize d) = logical_of (de_LogicalID d, de_Tags d)"
  by (simp add: normalize_def logical_of_def split: option.splits)

lemma normalize_ID [simp]: "de_ID (normalize d) = de_ID d" "de_Tags (normalize d) = de_Tags d"
  by (simp_all add: normalize_def split: option.splits)

lemma described_ids:
  assumes "described iv (sg_memberTags s) found"
  shows "distinct (map de_ID found) \<and> set (map de_ID found) = group_ids gid iv"
  using assms by (force simp: described_def tags_match_group group_ids_def group_member_def split: option.splits)

lemma labelAndList_ids:
  assumes "wf w" "labelAndList s w = (Inr ds, w')"
  shows "distinct (map de_ID ds) \<and> set (map de_ID ds) = group_ids gid (inst w) \<and> length ds = card (group_ids gid (inst w))"
proof -
  from labelAndList_effect [OF assms] obtain found where f: "described (inst w') (sg_memberTags s) found" "ds = map normalize found"
    and g: "group_ids gid (inst w') = group_ids gid (inst w)" by (auto simp: label_frame_def)
  have "map de_ID ds = map de_ID found" by (simp add: f(2) comp_def)
  then have "distinct (map de_ID ds)" "set (map de_ID ds) = group_ids gid (inst w)" using described_ids [OF f(1)] g by simp_all
  then show ?thesis using distinct_card [of "map de_ID ds"] by simp
qed

end

end
