(* ===== verification/Group_Supervise.thy ===== *)
theory Group_Supervise
  imports Group_Env Go_Sort
begin

text \<open>
  The two supervisors of a group: \<open>pkg/controller/group/scaler.go\<close>, which keeps a number of
  instances, and \<open>pkg/controller/group/quorum.go\<close>, which keeps one instance per logical id. The
  goroutines of one round reach the plugins in some order, the argument \<open>sched\<close>.
\<close>

section \<open>Ordering instances\<close>

definition sortByID_Less :: "('p, 'w) groupSettings option \<Rightarrow> 'p Description \<Rightarrow> 'p Description \<Rightarrow> bool" where
  "sortByID_Less settings a b = (case settings of
     Some st \<Rightarrow> if isSelf a st then False else if isSelf b st then True else de_ID a < de_ID b
   | None \<Rightarrow> de_ID a < de_ID b)"

definition self_of :: "('p, 'w) groupSettings option \<Rightarrow> 'p Description \<Rightarrow> bool" where
  "self_of settings d = (case settings of Some st \<Rightarrow> isSelf d st | None \<Rightarrow> False)"

definition sort_key :: "('p, 'w) groupSettings option \<Rightarrow> 'p Description \<Rightarrow> bool \<times> string" where
  "sort_key settings d = (self_of settings d, if self_of settings d then [] else de_ID d)"

interpretation byID: less_by_key "sortByID_Less settings" "sort_key settings" for settings
  by unfold_locales (auto simp: sortByID_Less_def sort_key_def self_of_def less_prod_def split: option.splits)

section \<open>Batches of goroutines\<close>

datatype 'p group_op = Op_Destroy "'p Description" | Op_Create "LogicalID option"

definition exec_op :: "string \<Rightarrow> nat \<Rightarrow> ('p, 'w) scaledGroup \<Rightarrow> 'p group_op \<Rightarrow> 'w \<Rightarrow> 'w" where
  "exec_op sup_ID sup_Size s op w = (case op of
     Op_Destroy d \<Rightarrow> snd (scaled_Destroy d Termination s w)
   | Op_Create l \<Rightarrow> CreateOne sup_ID sup_Size l s w)"

text \<open>
  The loop that starts a goroutine per element and waits for the outstanding ones after every
  \<open>maxParallel\<close>-th: the list of the batches that run together. \<open>i\<close> is the loop's index.
\<close>

fun launch :: "nat \<Rightarrow> nat \<Rightarrow> 'a list \<Rightarrow> 'a list \<Rightarrow> 'a list list" where
  "launch maxParallel i [] outstanding = [outstanding]"
| "launch maxParallel i (x # xs) outstanding =
     (if 0 < maxParallel \<and> (i + 1) mod maxParallel = 0
      then (outstanding @ [x]) # launch maxParallel (i + 1) xs []
      else launch maxParallel (i + 1) xs (outstanding @ [x]))"

definition run_batches :: "('a list \<Rightarrow> 'a list) \<Rightarrow> ('a \<Rightarrow> 'w \<Rightarrow> 'w) \<Rightarrow> 'a list list \<Rightarrow> 'w \<Rightarrow> 'w" where
  "run_batches sched exec bs w = fold (\<lambda>b w. fold exec (sched b) w) bs w"

section \<open>The scaler\<close>

record scaler =
  sc_id :: string
  sc_size :: nat
  sc_maxParallelNum :: nat

definition NewScalingGroup :: "string \<Rightarrow> nat \<Rightarrow> nat \<Rightarrow> scaler" where
  "NewScalingGroup iid sz maxParallelNum = \<lparr>sc_id = iid, sc_size = sz, sc_maxParallelNum = maxParallelNum\<rparr>"

definition scaler_SetSize :: "nat \<Rightarrow> scaler \<Rightarrow> scaler" where
  "scaler_SetSize sz sc = sc\<lparr>sc_size := sz\<rparr>"

definition scaler_SetMaxParallelNum :: "nat \<Rightarrow> scaler \<Rightarrow> scaler" where
  "scaler_SetMaxParallelNum psize sc = sc\<lparr>sc_maxParallelNum := psize\<rparr>"

definition scaler_ops :: "scaler \<Rightarrow> 'p Description list \<Rightarrow> 'p group_op list" where
  "scaler_ops sc descriptions = (let actualSize = length descriptions; desiredSize = sc_size sc in
     if actualSize = desiredSize then []
     else if desiredSize < actualSize then
       map Op_Destroy (take (actualSize - desiredSize) (go_sort (sortByID_Less (None :: ('p, unit) groupSettings option)) descriptions))
     else replicate (desiredSize - actualSize) (Op_Create None))"

definition scaler_converge ::
  "('p group_op list \<Rightarrow> 'p group_op list) \<Rightarrow> scaler \<Rightarrow> ('p, 'w) scaledGroup \<Rightarrow> 'w \<Rightarrow> 'w" where
  "scaler_converge sched sc s w = (case labelAndList s w of
     (Inl err, w) \<Rightarrow> w
   | (Inr descriptions, w) \<Rightarrow>
       run_batches sched (exec_op (sc_id sc) (sc_size sc) s) (launch (sc_maxParallelNum sc) 0 (scaler_ops sc descriptions) []) w)"

text \<open>
  What reaches the goroutine of \<open>Run\<close>, in some order: ticks, changes of the size by an update,
  changes \<open>f\<close> of the outside world, and \<open>Stop\<close>.
\<close>

datatype 'w sup_event = Ev_Tick | Ev_SetSize nat | Ev_SetMaxParallel nat | Ev_World "'w \<Rightarrow> 'w" | Ev_Stop

fun scaler_loop :: "('p group_op list \<Rightarrow> 'p group_op list) \<Rightarrow> ('p, 'w) scaledGroup \<Rightarrow> 'w sup_event list \<Rightarrow> scaler \<Rightarrow> 'w \<Rightarrow> scaler \<times> 'w" where
  "scaler_loop sched s [] sc w = (sc, w)"
| "scaler_loop sched s (Ev_Tick # evs) sc w = scaler_loop sched s evs sc (scaler_converge sched sc s w)"
| "scaler_loop sched s (Ev_SetSize n # evs) sc w = scaler_loop sched s evs (scaler_SetSize n sc) w"
| "scaler_loop sched s (Ev_SetMaxParallel n # evs) sc w = scaler_loop sched s evs (scaler_SetMaxParallelNum n sc) w"
| "scaler_loop sched s (Ev_World f # evs) sc w = scaler_loop sched s evs sc (f w)"
| "scaler_loop sched s (Ev_Stop # evs) sc w = (sc, w)"

definition scaler_Run :: "('p group_op list \<Rightarrow> 'p group_op list) \<Rightarrow> ('p, 'w) scaledGroup \<Rightarrow> 'w sup_event list \<Rightarrow> scaler \<Rightarrow> 'w \<Rightarrow> scaler \<times> 'w" where
  "scaler_Run sched s evs sc w = scaler_loop sched s evs sc (scaler_converge sched sc s w)"

section \<open>The quorum\<close>

record quorum =
  qu_id :: string
  qu_LogicalIDs :: "LogicalID list"

definition NewQuorum :: "string \<Rightarrow> LogicalID list \<Rightarrow> quorum" where
  "NewQuorum iid logicalIDs = \<lparr>qu_id = iid, qu_LogicalIDs = logicalIDs\<rparr>"

definition quorum_Size :: "quorum \<Rightarrow> nat" where
  "quorum_Size q = length (qu_LogicalIDs q)"

definition unknownIPs :: "LogicalID list \<Rightarrow> 'p Description list \<Rightarrow> 'p Description list" where
  "unknownIPs ids descriptions = filter (\<lambda>d. case de_LogicalID d of None \<Rightarrow> False
     | Some l \<Rightarrow> \<not> list_ex (\<lambda>expected. expected = l) ids) descriptions"

definition missingIDs :: "LogicalID list \<Rightarrow> 'p Description list \<Rightarrow> LogicalID list" where
  "missingIDs ids descriptions = filter (\<lambda>expected.
     \<not> list_ex (\<lambda>d. case de_LogicalID d of None \<Rightarrow> False | Some l \<Rightarrow> expected = l) descriptions) ids"

definition quorum_converge ::
  "('p group_op list \<Rightarrow> 'p group_op list) \<Rightarrow> quorum \<Rightarrow> ('p, 'w) scaledGroup \<Rightarrow> 'w \<Rightarrow> 'w" where
  "quorum_converge sched q s w = (case labelAndList s w of
     (Inl err, w) \<Rightarrow> w
   | (Inr descriptions, w) \<Rightarrow>
       run_batches sched (exec_op (qu_id q) (quorum_Size q) s)
         [map Op_Destroy (unknownIPs (qu_LogicalIDs q) descriptions) @
          map (\<lambda>l. Op_Create (Some l)) (missingIDs (qu_LogicalIDs q) descriptions)] w)"

fun quorum_loop :: "('p group_op list \<Rightarrow> 'p group_op list) \<Rightarrow> ('p, 'w) scaledGroup \<Rightarrow> 'w sup_event list \<Rightarrow> quorum \<Rightarrow> 'w \<Rightarrow> 'w" where
  "quorum_loop sched s [] q w = w"
| "quorum_loop sched s (Ev_Tick # evs) q w = quorum_loop sched s evs q (quorum_converge sched q s w)"
| "quorum_loop sched s (Ev_World f # evs) q w = quorum_loop sched s evs q (f w)"
| "quorum_loop sched s (Ev_Stop # evs) q w = w"
| "quorum_loop sched s (_ # evs) q w = quorum_loop sched s evs q w"

definition quorum_Run :: "('p group_op list \<Rightarrow> 'p group_op list) \<Rightarrow> ('p, 'w) scaledGroup \<Rightarrow> 'w sup_event list \<Rightarrow> quorum \<Rightarrow> 'w \<Rightarrow> 'w" where
  "quorum_Run sched s evs q w = quorum_loop sched s evs q (quorum_converge sched q s w)"

section \<open>Bounded parallelism\<close>

lemma concat_launch [simp]: "concat (launch m i xs out) = out @ xs"
  by (induction m i xs out rule: launch.induct) auto

lemma launch_bound_aux:
  assumes "0 < m" "length out = i mod m"
  shows "\<forall>b \<in> set (launch m i xs out). length b \<le> m"
  using assms
proof (induction m i xs out rule: launch.induct)
  case (1 m i out)
  then show ?case using mod_less_divisor [of m i] by (simp add: less_imp_le)
next
  case (2 m i x xs out)
  have "Suc (i mod m) = m" if "Suc i mod m = 0" using that 2(3) by (metis mod_Suc Suc_n_not_le_n mod_less_divisor nat.distinct(1))
  moreover have "Suc i mod m = Suc (i mod m)" if "Suc i mod m \<noteq> 0" using that by (simp add: mod_Suc split: if_splits)
  ultimately show ?case using 2 by auto
qed

text \<open>
  (C18) With a limit \<open>m\<close>, the scaler has at most \<open>m\<close> operations outstanding at any time, and it starts
  every operation of the round once, in order.
\<close>

theorem launch_bound:
  assumes "0 < m"
  shows "(\<forall>batch \<in> set (launch m 0 ops []). length batch \<le> m) \<and> concat (launch m 0 ops []) = ops"
  using launch_bound_aux [OF assms, of "[]" 0 ops] by simp

theorem launch_bound_witness:
  "list_all (\<lambda>batch. length batch \<le> 2) (launch 2 0 [1, 2, 3, 4, 5 :: nat] []) \<and> concat (launch 2 0 [1, 2, 3, 4, 5 :: nat] []) = [1, 2, 3, 4, 5]"
  using launch_bound [of 2 "[1, 2, 3, 4, 5 :: nat]"] by (simp add: list_all_iff)

section \<open>What a round does to the group\<close>

lemma run_batches_fold:
  assumes "permutes sched"
  obtains ops where "run_batches sched exec bs w = fold exec ops w" "mset ops = mset (concat bs)"
proof
  show "run_batches sched exec bs w = fold exec (concat (map sched bs)) w"
    unfolding run_batches_def by (induction bs arbitrary: w) auto
  show "mset (concat (map sched bs)) = mset (concat bs)"
    using assms by (induction bs) (auto simp: permutes_def)
qed

text \<open>
  How a round may change the inventory: the size moves towards the target and never past it, only
  the members with the lowest ids leave, and nobody outside the group is touched.
\<close>

definition towards :: "string \<Rightarrow> nat \<Rightarrow> inventory \<Rightarrow> inventory \<Rightarrow> bool" where
  "towards gid sz iv iv' \<longleftrightarrow> (let I = group_ids gid iv; I' = group_ids gid iv' in
     (card I \<le> sz \<longrightarrow> I \<subseteq> I' \<and> card I' \<le> sz) \<and>
     (sz \<le> card I \<longrightarrow> I' \<subseteq> I \<and> I - I' \<subseteq> set (take (card I - sz) (sorted_list_of_set I))) \<and>
     (\<forall>iid. iv iid \<noteq> None \<and> iid \<notin> I \<longrightarrow> iv' iid = iv iid))"

lemma towards_refl: "towards gid sz iv iv"
  by (simp add: towards_def)

context group_env
begin

lemma exec_destroys:
  fixes supid supsz
  assumes "wf w" "\<forall>op \<in> set ops. \<exists>d. op = Op_Destroy d"
  defines "D \<equiv> {de_ID d | d. Op_Destroy d \<in> set ops}" and "w' \<equiv> fold (exec_op supid supsz s) ops w"
  shows "wf w' \<and> (\<forall>iid. inst w' iid = inst w iid \<or> iid \<in> D \<and> inst w' iid = None)"
  using assms(1,2) unfolding D_def w'_def
proof (induction ops arbitrary: w)
  case (Cons op ops)
  obtain d where op: "op = Op_Destroy d" using Cons.prems(2) by auto
  obtain r w1 where d: "scaled_Destroy d Termination s w = (r, w1)" by fastforce
  have D1: "wf w1" "inst w1 = inst w \<or> inst w1 = (inst w)(de_ID d := None)" using destroy_effect(1) [OF Cons.prems(1) d] by auto
  have e: "exec_op supid supsz s op w = w1" by (simp add: exec_op_def op d)
  let ?w' = "fold (exec_op supid supsz s) ops w1"
  have IH: "wf ?w'" "\<forall>iid. inst ?w' iid = inst w1 iid \<or> iid \<in> {de_ID d | d. Op_Destroy d \<in> set ops} \<and> inst ?w' iid = None"
    using Cons.IH [OF D1(1)] Cons.prems(2) by auto
  have "inst ?w' iid = inst w iid \<or> iid \<in> {de_ID d | d. Op_Destroy d \<in> set (op # ops)} \<and> inst ?w' iid = None" for iid
    using IH(2) [rule_format, of iid] D1(2) by (cases "iid = de_ID d") (auto simp: op)
  then show ?case using IH(1) by (simp add: e)
qed simp

lemma exec_creates:
  fixes supid supsz n
  assumes "wf w"
  defines "w' \<equiv> fold (exec_op supid supsz s) (replicate n (Op_Create None)) w"
  shows "wf w' \<and> (\<forall>iid. inst w iid \<noteq> None \<longrightarrow> inst w' iid = inst w iid) \<and> group_ids gid (inst w) \<subseteq> group_ids gid (inst w') \<and>
    card (group_ids gid (inst w')) \<le> card (group_ids gid (inst w)) + n"
  using assms(1) unfolding w'_def
proof (induction n arbitrary: w)
  case (Suc n)
  define w1 where "w1 = CreateOne supid supsz None s w"
  have C: "wf w1" and c: "inst w1 = inst w \<or> (\<exists>iid t. inst w iid = None \<and> inst w1 = (inst w)(iid \<mapsto> (None, t)) \<and> gm_get t GroupTag = Some gid)"
    using create_effect [OF Suc.prems, of supid supsz None] unfolding w1_def by blast+
  have old: "\<forall>iid. inst w iid \<noteq> None \<longrightarrow> inst w1 iid = inst w iid" using c by auto
  have g: "group_ids gid (inst w) \<subseteq> group_ids gid (inst w1) \<and> card (group_ids gid (inst w1)) \<le> Suc (card (group_ids gid (inst w)))"
    using c
  proof (elim disjE exE conjE)
    fix iid t assume "inst w iid = None" "inst w1 = (inst w)(iid \<mapsto> (None, t))" "gm_get t GroupTag = Some gid"
    then have "group_ids gid (inst w1) = insert iid (group_ids gid (inst w))" using group_ids_fresh [of "inst w" iid t gid None] by simp
    then show ?thesis using finite_members [OF Suc.prems] by (simp add: card_insert_if subset_insertI)
  qed simp
  let ?w' = "fold (exec_op supid supsz s) (replicate n (Op_Create None)) w1"
  have IH: "wf ?w'" "\<forall>iid. inst w1 iid \<noteq> None \<longrightarrow> inst ?w' iid = inst w1 iid" "group_ids gid (inst w1) \<subseteq> group_ids gid (inst ?w')"
    "card (group_ids gid (inst ?w')) \<le> card (group_ids gid (inst w1)) + n" using Suc.IH [OF C] by simp_all
  have e: "fold (exec_op supid supsz s) (replicate (Suc n) (Op_Create None)) w = ?w'" by (simp add: exec_op_def w1_def)
  have "\<forall>iid. inst w iid \<noteq> None \<longrightarrow> inst ?w' iid = inst w iid" using old IH(2) by metis
  moreover have "group_ids gid (inst w) \<subseteq> group_ids gid (inst ?w')" using g IH(3) by blast
  moreover have "card (group_ids gid (inst ?w')) \<le> card (group_ids gid (inst w)) + Suc n" using g IH(4) by simp
  ultimately show ?case unfolding e using IH(1) by blast
qed simp

lemma sorted_ids:
  fixes ds :: "'p Description list"
  assumes "distinct (map de_ID ds)"
  shows "map de_ID (go_sort (sortByID_Less (None :: ('p, unit) groupSettings option)) ds) = sorted_list_of_set (set (map de_ID ds))"
proof -
  let ?xs = "go_sort (sortByID_Less (None :: ('p, unit) groupSettings option)) ds"
  have k: "sort_key (None :: ('p, unit) groupSettings option) = (\<lambda>d. (False, de_ID d))" by (simp add: fun_eq_iff sort_key_def self_of_def)
  have "sorted (map (\<lambda>d. (False, de_ID d)) ?xs)" using byID.sorted_go_sort [of "None :: ('p, unit) groupSettings option" ds] unfolding k .
  then have "sorted (map de_ID ?xs)" by (simp add: sorted_map less_eq_prod_def)
  moreover have "distinct (map de_ID ?xs)" using assms by (simp add: distinct_map_go_sort)
  moreover have "set (map de_ID ?xs) = set (map de_ID ds)" by simp
  ultimately show ?thesis by (metis sorted_list_of_set.idem_if_sorted_distinct)
qed

lemma ops_destroy:
  fixes ds :: "'p Description list"
  assumes "distinct (map de_ID ds)" "set (map de_ID ds) = I" "sc_size sc < length ds" "mset ops = mset (scaler_ops sc ds)"
  shows "\<forall>op \<in> set ops. \<exists>d. op = Op_Destroy d" "{de_ID d | d. Op_Destroy d \<in> set ops} = set (take (card I - sc_size sc) (sorted_list_of_set I))"
proof -
  have len: "length ds = card I" using assms(1,2) distinct_card by fastforce
  have S: "set ops = Op_Destroy ` set (take (card I - sc_size sc) (go_sort (sortByID_Less (None :: ('p, unit) groupSettings option)) ds))"
    using assms(3,4) len mset_eq_setD [OF assms(4)] by (simp add: scaler_ops_def Let_def)
  then show "\<forall>op \<in> set ops. \<exists>d. op = Op_Destroy d" by auto
  show "{de_ID d | d. Op_Destroy d \<in> set ops} = set (take (card I - sc_size sc) (sorted_list_of_set I))"
  proof -
    have "set (take k (sorted_list_of_set I)) = de_ID ` set (take k (go_sort (sortByID_Less (None :: ('p, unit) groupSettings option)) ds))" for k
      using sorted_ids [OF assms(1)] unfolding assms(2) by (metis list.set_map take_map)
    then show ?thesis unfolding S by blast
  qed
qed

lemma destroy_round:
  assumes "wf w" "\<forall>op \<in> set ops. \<exists>d. op = Op_Destroy d" "{de_ID d | d. Op_Destroy d \<in> set ops} = set (take (card I - sz) (sorted_list_of_set I))"
    "group_ids gid (inst w) = I" "sz < card I"
  shows "wf (fold (exec_op supid supsz s) ops w) \<and> towards gid sz (inst w) (inst (fold (exec_op supid supsz s) ops w))"
proof -
  let ?D = "set (take (card I - sz) (sorted_list_of_set I))" and ?w' = "fold (exec_op supid supsz s) ops w"
  have E: "wf ?w'" "\<forall>iid. inst ?w' iid = inst w iid \<or> iid \<in> ?D \<and> inst ?w' iid = None"
    using exec_destroys [OF assms(1,2), of supid supsz] unfolding assms(3) by simp_all
  have D: "?D \<subseteq> I" using finite_members [OF assms(1)] assms(4) by (auto dest: in_set_takeD)
  have m: "group_member gid (inst ?w') iid \<longleftrightarrow> group_member gid (inst w) iid \<and> inst ?w' iid \<noteq> None" for iid
    using E(2) [rule_format, of iid] by (auto simp: group_member_def split: option.splits)
  have "group_ids gid (inst ?w') \<subseteq> I" using m assms(4) by (auto simp: group_ids_def)
  moreover have "I - group_ids gid (inst ?w') \<subseteq> ?D"
  proof
    fix iid assume "iid \<in> I - group_ids gid (inst ?w')"
    then have "group_member gid (inst w) iid" "\<not> group_member gid (inst ?w') iid" using assms(4) by (auto simp: group_ids_def)
    then have "group_member gid (inst w) iid" "inst ?w' iid = None" using m [of iid] by blast+
    then show "iid \<in> ?D" using E(2) [rule_format, of iid] by (auto simp: group_member_def split: option.splits)
  qed
  moreover have "inst ?w' iid = inst w iid" if "iid \<notin> I" for iid using E(2) [rule_format, of iid] D that by blast
  ultimately show ?thesis using E(1) assms(4,5) unfolding towards_def Let_def assms(4) by (simp add: subset_iff)
qed

lemma create_round:
  assumes "wf w" "set ops \<subseteq> {Op_Create None}" "length ops = sz - card (group_ids gid (inst w))" "card (group_ids gid (inst w)) < sz"
  shows "wf (fold (exec_op supid supsz s) ops w) \<and> towards gid sz (inst w) (inst (fold (exec_op supid supsz s) ops w))"
proof -
  have o: "ops = replicate (sz - card (group_ids gid (inst w))) (Op_Create None)"
    using assms(2,3) by (intro replicate_eqI) auto
  from exec_creates [OF assms(1), of supid supsz "sz - card (group_ids gid (inst w))"] assms(4) show ?thesis
    unfolding o [symmetric] towards_def by (auto simp: group_ids_def group_member_def)
qed

lemma scaler_round:
  assumes w: "wf w" and sched: "permutes sched"
  shows "wf (scaler_converge sched sc s w) \<and> towards gid (sc_size sc) (inst w) (inst (scaler_converge sched sc s w))"
proof -
  obtain r w1 where l: "labelAndList s w = (r, w1)" by fastforce
  have L: "wf w1" "group_ids gid (inst w1) = group_ids gid (inst w)" "\<forall>iid. iid \<notin> group_ids gid (inst w) \<longrightarrow> inst w1 iid = inst w iid"
    using labelAndList_effect [OF w l] by (simp_all add: label_frame_def)
  have "wf (scaler_converge sched sc s w) \<and> towards gid (sc_size sc) (inst w1) (inst (scaler_converge sched sc s w))"
  proof (cases r)
    case (Inl e)
    then show ?thesis using L(1) by (simp add: scaler_converge_def l towards_refl)
  next
    case (Inr ds)
    note ids = labelAndList_ids [OF w l [unfolded Inr]]
    obtain ops where ops: "scaler_converge sched sc s w = fold (exec_op (sc_id sc) (sc_size sc) s) ops w1" "mset ops = mset (scaler_ops sc ds)"
      using run_batches_fold [OF sched, of "exec_op (sc_id sc) (sc_size sc) s" "launch (sc_maxParallelNum sc) 0 (scaler_ops sc ds) []" w1]
      by (auto simp: scaler_converge_def l Inr)
    consider "length ds = sc_size sc" | "sc_size sc < length ds" | "length ds < sc_size sc" by linarith
    then show ?thesis
    proof cases
      case 1
      then show ?thesis using ops L(1) by (simp add: scaler_ops_def Let_def towards_refl)
    next
      case 2
      show ?thesis unfolding ops(1) using ops_destroy [of ds "group_ids gid (inst w)" sc ops] ids ops(2) 2 L(2)
        by (intro destroy_round [OF L(1)]) auto
    next
      case 3
      have "set ops \<subseteq> {Op_Create None}" using mset_eq_setD [OF ops(2)] 3 by (auto simp: scaler_ops_def Let_def)
      moreover have "length ops = sc_size sc - length ds" using mset_eq_length [OF ops(2)] 3 by (simp add: scaler_ops_def Let_def)
      ultimately show ?thesis unfolding ops(1) using ids 3 L(2) by (intro create_round [OF L(1)]) simp_all
    qed
  qed
  then show ?thesis using L(2,3) unfolding towards_def Let_def L(2) by metis
qed

end

end
