(* ===== verification/Group_Quorum.thy ===== *)
theory Group_Quorum
  imports Group_Supervise
begin

text \<open>
  Rounds of the supervisors over plugins that do not fail: the scaler reaches its size, and the
  quorum ends with an instance for every logical id and none with a logical id of its own.
\<close>

fun dids :: "'p group_op list \<Rightarrow> InstanceID list" where
  "dids [] = []"
| "dids (Op_Destroy d # ops) = de_ID d # dids ops"
| "dids (Op_Create _ # ops) = dids ops"

lemma set_dids: "set (dids ops) = {de_ID d | d. Op_Destroy d \<in> set ops}"
  by (induction ops rule: dids.induct) auto

lemma dids_map: "dids ops = concat (map (\<lambda>op. case op of Op_Destroy d \<Rightarrow> [de_ID d] | Op_Create _ \<Rightarrow> []) ops)"
  by (induction ops rule: dids.induct) auto

lemma mset_dids: "mset (dids ops) = (\<Sum>op \<in># mset ops. case op of Op_Destroy d \<Rightarrow> {#de_ID d#} | Op_Create _ \<Rightarrow> {#})"
  by (induction ops rule: dids.induct) auto

lemma dids_perm: "mset ops = mset ops' \<Longrightarrow> mset (dids ops) = mset (dids ops')"
  by (simp add: mset_dids)

lemma dids_Destroy [simp]: "dids (map Op_Destroy ds) = map de_ID ds" by (induction ds) auto

lemma dids_Create [simp]: "dids (map (\<lambda>l. Op_Create (f l)) ls) = []" by (induction ls) auto

lemma dids_append [simp]: "dids (xs @ ys) = dids xs @ dids ys" by (simp add: dids_map)

text \<open>An instance the group made for the logical id \<open>l\<close>.\<close>

definition made_for :: "string \<Rightarrow> LogicalID option \<Rightarrow> LogicalID option \<times> tags \<Rightarrow> bool" where
  "made_for gid l e \<longleftrightarrow> fst e = l \<and> gm_get (snd e) GroupTag = Some gid \<and> (l \<noteq> None \<longrightarrow> gm_get (snd e) LogicalIDTag = l)"

definition made :: "string \<Rightarrow> 'p group_op list \<Rightarrow> (LogicalID option \<times> tags) option \<Rightarrow> bool" where
  "made gid ops x \<longleftrightarrow> (\<exists>l e. Op_Create l \<in> set ops \<and> x = Some e \<and> made_for gid l e)"

definition ready :: "inventory \<Rightarrow> 'p group_op list \<Rightarrow> bool" where
  "ready iv ops \<longleftrightarrow> distinct (dids ops) \<and> (\<forall>i \<in> set (dids ops). iv i \<noteq> None)"

definition has_logical :: "LogicalID \<Rightarrow> (LogicalID option \<times> tags) option \<Rightarrow> bool" where
  "has_logical l x \<longleftrightarrow> (case x of None \<Rightarrow> False | Some e \<Rightarrow> logical_of e = Some l)"

text \<open>An instance with a logical id that is not one of the quorum's.\<close>

definition strays :: "LogicalID list \<Rightarrow> (LogicalID option \<times> tags) option \<Rightarrow> bool" where
  "strays ids x \<longleftrightarrow> (\<exists>l. has_logical l x \<and> l \<notin> set ids)"

text \<open>An instance that a round leaves alone, its labels apart when it is a member.\<close>

definition stays :: "string \<Rightarrow> inventory \<Rightarrow> inventory \<Rightarrow> InstanceID \<Rightarrow> bool" where
  "stays gid iv iv' iid \<longleftrightarrow> group_member gid iv' iid = group_member gid iv iid \<and> (\<not> group_member gid iv iid \<longrightarrow> iv' iid = iv iid) \<and>
     map_option logical_of (iv' iid) = map_option logical_of (iv iid)"

lemma label_frame_strays: "label_frame gid h iv iv' \<Longrightarrow> strays ids (iv' iid) \<longleftrightarrow> strays ids (iv iid)"
proof -
  assume "label_frame gid h iv iv'"
  then have "map_option logical_of (iv' iid) = map_option logical_of (iv iid)" by (rule label_frame_logical)
  then have "has_logical l (iv' iid) \<longleftrightarrow> has_logical l (iv iid)" for l by (cases "iv iid"; cases "iv' iid") (auto simp: has_logical_def)
  then show ?thesis by (simp add: strays_def)
qed

context group_env
begin

lemma create_cases:
  assumes "wf w"
  obtains "inst (CreateOne supid supsz l s w) = inst w"
  | iid e where "inst w iid = None" "inst (CreateOne supid supsz l s w) = (inst w)(iid \<mapsto> e)" "made_for gid l e"
  using create_effect [OF assms, of supid supsz l] unfolding made_for_def by (metis fst_conv snd_conv)

text \<open>Whatever the order of the goroutines: who is not to be destroyed stays as it is.\<close>

lemma exec_keeps:
  assumes "wf w" "ready (inst w) ops" "inst w iid \<noteq> None" "iid \<notin> set (dids ops)"
  shows "inst (fold (exec_op supid supsz s) ops w) iid = inst w iid"
  using assms
proof (induction ops arbitrary: w)
  case (Cons op ops)
  let ?w1 = "exec_op supid supsz s op w"
  have "wf ?w1 \<and> ready (inst ?w1) ops \<and> inst ?w1 iid = inst w iid \<and> iid \<notin> set (dids ops)"
  proof (cases op)
    case (Op_Destroy d)
    have "wf ?w1 \<and> (inst ?w1 = inst w \<or> inst ?w1 = (inst w)(de_ID d := None))"
      using destroy_effect(1) [OF Cons.prems(1) surjective_pairing, of d Termination] by (simp add: exec_op_def Op_Destroy)
    then show ?thesis using Cons.prems Op_Destroy by (auto simp: ready_def)
  next
    case (Op_Create l)
    then have e: "?w1 = CreateOne supid supsz l s w" by (simp add: exec_op_def)
    have "wf ?w1" unfolding e using create_effect [OF Cons.prems(1)] by blast
    moreover have "ready (inst ?w1) ops \<and> inst ?w1 iid = inst w iid"
      unfolding e using Cons.prems Op_Create by (rule_tac create_cases [OF Cons.prems(1), of supid supsz l]) (auto simp: ready_def)
    ultimately show ?thesis using Cons.prems(4) Op_Create by simp
  qed
  then show ?case using Cons.IH [of ?w1] Cons.prems(3) by simp
qed simp

text \<open>The operations of a round of the quorum, in the order the goroutines ran.\<close>

lemma quorum_ops:
  assumes w: "wf w" and l: "labelAndList s w = (Inr ds, w1)" and sched: "permutes sched"
  obtains ops where "quorum_converge sched q s w = fold (exec_op (qu_id q) (quorum_Size q) s) ops w1" "ready (inst w1) ops"
    "\<forall>iid. iid \<in> set (dids ops) \<longleftrightarrow> iid \<in> group_ids gid (inst w1) \<and> strays (qu_LogicalIDs q) (inst w1 iid)"
    "\<forall>x. Op_Create x \<in> set ops \<longleftrightarrow> (\<exists>l \<in> set (qu_LogicalIDs q). x = Some l \<and> \<not> (\<exists>iid \<in> group_ids gid (inst w1). has_logical l (inst w1 iid)))"
proof -
  let ?ids = "qu_LogicalIDs q"
  let ?todo = "map Op_Destroy (unknownIPs ?ids ds) @ map (\<lambda>l. Op_Create (Some l)) (missingIDs ?ids ds)"
  obtain ops where ops: "quorum_converge sched q s w = fold (exec_op (qu_id q) (quorum_Size q) s) ops w1" "mset ops = mset ?todo"
    using run_batches_fold [OF sched, of "exec_op (qu_id q) (quorum_Size q) s" "[?todo]" w1] by (auto simp: quorum_converge_def l)
  from labelAndList_effect [OF w l] obtain found where f: "described (inst w1) (sg_memberTags s) found" "ds = map normalize found" by auto
  note ids = described_ids [OF f(1)]
  have ent: "inst w1 (de_ID d) = Some (de_LogicalID d, de_Tags d)" if "d \<in> set found" for d using that f(1) by (simp add: described_def)
  have hl: "has_logical l (inst w1 (de_ID d)) \<longleftrightarrow> de_LogicalID (normalize d) = Some l" if "d \<in> set found" for d l
    using ent [OF that] by (simp add: has_logical_def normalize_logical)
  have unk: "unknownIPs ?ids ds = map normalize (filter (\<lambda>d. strays ?ids (inst w1 (de_ID d))) found)"
    unfolding unknownIPs_def f(2) filter_map comp_def using hl
    by (intro arg_cong [where f = "map normalize"] filter_cong) (auto simp: strays_def list_ex_iff split: option.splits)
  have dd: "distinct (map de_ID ds)" "set (map de_ID ds) = group_ids gid (inst w1)" using ids by (simp_all add: f(2) comp_def)
  have D: "mset (dids ops) = mset (map de_ID (unknownIPs ?ids ds))" using dids_perm [OF ops(2)] by simp
  have "distinct (dids ops)" using D dd(1) mset_eq_imp_distinct_iff [OF D] by (simp add: unknownIPs_def distinct_map_filter)
  moreover have S: "set (dids ops) = de_ID ` set (unknownIPs ?ids ds)" using mset_eq_setD [OF D] by simp
  moreover have "de_ID ` set (unknownIPs ?ids ds) \<subseteq> group_ids gid (inst w1)" using dd(2) by (auto simp: unknownIPs_def)
  ultimately have "ready (inst w1) ops" using group_ids_Some unfolding ready_def by blast
  moreover have "iid \<in> set (dids ops) \<longleftrightarrow> iid \<in> group_ids gid (inst w1) \<and> strays ?ids (inst w1 iid)" for iid
    unfolding S unk ids [THEN conjunct2, symmetric] by (auto simp: image_image)
  moreover have mis: "set (missingIDs ?ids ds) = {l \<in> set ?ids. \<not> (\<exists>d \<in> set ds. de_LogicalID d = Some l)}"
    by (auto simp: missingIDs_def list_ex_iff split: option.splits)
  have "(\<exists>d \<in> set ds. de_LogicalID d = Some l) \<longleftrightarrow> (\<exists>iid \<in> group_ids gid (inst w1). has_logical l (inst w1 iid))" for l
    unfolding f(2) ids [THEN conjunct2, symmetric] using hl by auto
  then have "Op_Create x \<in> set ops \<longleftrightarrow> (\<exists>l \<in> set ?ids. x = Some l \<and> \<not> (\<exists>iid \<in> group_ids gid (inst w1). has_logical l (inst w1 iid)))" for x
    using mset_eq_setD [OF ops(2)] mis by auto
  ultimately show ?thesis using that ops(1) by blast
qed

text \<open>Whatever fails: who is outside the group, or in it without a logical id of its own, stays.\<close>

lemma quorum_keeps:
  assumes w: "wf w" and sched: "permutes sched" and e: "inst w iid \<noteq> None" "iid \<notin> group_ids gid (inst w) \<or> \<not> strays (qu_LogicalIDs q) (inst w iid)"
  shows "stays gid (inst w) (inst (quorum_converge sched q s w)) iid"
proof -
  obtain r w1 where l: "labelAndList s w = (r, w1)" by fastforce
  have w1: "wf w1" and f: "label_frame gid (config_hash (sg_settings s)) (inst w) (inst w1)" using labelAndList_effect [OF w l] by simp_all
  have "inst (quorum_converge sched q s w) iid = inst w1 iid"
  proof (cases r)
    case (Inr ds)
    obtain ops where ops: "quorum_converge sched q s w = fold (exec_op (qu_id q) (quorum_Size q) s) ops w1" and rd: "ready (inst w1) ops"
      and D: "\<forall>iid. iid \<in> set (dids ops) \<longleftrightarrow> iid \<in> group_ids gid (inst w1) \<and> strays (qu_LogicalIDs q) (inst w1 iid)"
      by (rule quorum_ops [OF w l [unfolded Inr] sched])
    have "iid \<notin> set (dids ops)" using D e(2) label_frame_strays [OF f] f by (auto simp: label_frame_def)
    then show ?thesis unfolding ops using exec_keeps [OF w1 rd _ \<open>iid \<notin> set (dids ops)\<close>] label_frame_dom [OF f, of iid] e(1) by simp
  qed (simp add: quorum_converge_def l)
  then show ?thesis using f label_frame_logical [OF f] by (simp add: stays_def label_frame_def group_ids_def group_member_def set_eq_iff)
qed

end

locale reliable_env = group_env s gid inst wf okspec
  for s :: "('p, 'w) scaledGroup" and gid :: string and inst :: "'w \<Rightarrow> inventory" and wf :: "'w \<Rightarrow> bool" and okspec :: "'p InstanceSpec \<Rightarrow> bool" +
  assumes describe_ok: "wf w \<Longrightarrow> \<exists>ds w'. ip_DescribeInstances (gset_instancePlugin (sg_settings s)) (sg_memberTags s) props w = (Inr ds, w')"
    and provision_ok: "wf w \<Longrightarrow> okspec spec \<Longrightarrow> \<exists>iid w'. ip_Provision (gset_instancePlugin (sg_settings s)) spec w = (Inr iid, w')"
    and destroy_ok: "wf w \<Longrightarrow> inst w iid \<noteq> None \<Longrightarrow> \<exists>w'. ip_Destroy (gset_instancePlugin (sg_settings s)) iid ctx w = (None, w')"
    and label_ok: "wf w \<Longrightarrow> group_labels labels \<Longrightarrow> inst w iid \<noteq> None \<Longrightarrow> \<exists>w'. ip_Label (gset_instancePlugin (sg_settings s)) iid labels w = (None, w')"
    and prepare_ok: "wf w \<Longrightarrow> is_Tags spec = create_tags s l \<Longrightarrow> is_LogicalID spec = l \<Longrightarrow> is_Attachments spec = [] \<Longrightarrow>
      is_Properties spec = ps_Properties (gs_Instance (gset_config (sg_settings s))) \<Longrightarrow>
      \<exists>spec' w'. fp_Prepare (gset_flavorPlugin (sg_settings s)) (ps_Properties (gs_Flavor (gset_config (sg_settings s)))) spec alloc idx w = (Inr spec', w')"
begin

lemma create_makes:
  assumes "wf w"
  shows "\<exists>iid e. inst w iid = None \<and> inst (CreateOne supid supsz l s w) = (inst w)(iid \<mapsto> e) \<and> made_for gid l e"
proof -
  define spec where "spec = \<lparr>is_Properties = ps_Properties (gs_Instance (gset_config (sg_settings s))), is_Tags = create_tags s l,
    is_Init = [], is_LogicalID = l, is_Attachments = []\<rparr>"
  obtain spec' w1 where q: "fp_Prepare (gset_flavorPlugin (sg_settings s)) (ps_Properties (gs_Flavor (gset_config (sg_settings s)))) spec
    (gs_Allocation (gset_config (sg_settings s))) \<lparr>gi_Group = supid, gi_Sequence = supsz\<rparr> w = (Inr spec', w1)"
    using prepare_ok [OF assms, of spec l "gs_Allocation (gset_config (sg_settings s))"
      "\<lparr>gi_Group = supid, gi_Sequence = supsz\<rparr>"] by (auto simp: spec_def)
  have P: "wf w1" "inst w1 = inst w" "okspec spec'"
    using prepare [OF assms _ _ _ _ q, of l] by (auto simp: spec_def)
  obtain iid w2 where p: "ip_Provision (gset_instancePlugin (sg_settings s)) spec' w1 = (Inr iid, w2)" using provision_ok [OF P(1,3)] by blast
  have c: "CreateOne supid supsz l s w = w2" using q p by (simp add: CreateOne_def spec_def Let_def)
  have "inst w2 iid \<noteq> inst w iid"
    using provision [OF P(1,3) p] by (auto simp: P(2))
  then show ?thesis by (rule_tac create_cases [OF assms, of supid supsz l]) (auto simp: c)
qed

lemma destroy_removes:
  assumes "wf w" "inst w (de_ID d) \<noteq> None"
  shows "inst (snd (scaled_Destroy d Termination s w)) = (inst w)(de_ID d := None)"
proof -
  obtain rr w1 where d: "drain d Termination s w = (rr, w1)" by fastforce
  have D: "wf w1" "inst w1 = inst w" using drain_effect [OF assms(1) d] by simp_all
  have rr: "rr = None" using d by (auto simp: drain_def Let_def split: prod.splits option.splits)
  obtain w2 where p: "ip_Destroy (gset_instancePlugin (sg_settings s)) (de_ID d) Termination w1 = (None, w2)"
    using destroy_ok [OF D(1), of "de_ID d"] assms(2) D(2) by auto
  from destroy [OF D(1) p] show ?thesis using d rr p by (simp add: scaled_Destroy_def D(2))
qed

text \<open>All of a round takes effect: the targets are gone or made anew, and every creation is there.\<close>

lemma made_Cons: "made gid ops x \<Longrightarrow> made gid (op # ops) x"
  by (auto simp: made_def)

definition all_done :: "'p group_op list \<Rightarrow> 'w \<Rightarrow> 'w \<Rightarrow> bool" where
  "all_done ops w w' \<longleftrightarrow> wf w' \<and>
    (\<forall>iid. inst w' iid = (if iid \<in> set (dids ops) then None else inst w iid) \<or> made gid ops (inst w' iid)) \<and>
    (\<forall>l. Op_Create l \<in> set ops \<longrightarrow> (\<exists>iid e. inst w' iid = Some e \<and> made_for gid l e))"

lemma all_doneD: "all_done ops w w' \<Longrightarrow> inst w' iid = (if iid \<in> set (dids ops) then None else inst w iid) \<or> made gid ops (inst w' iid)"
  by (simp add: all_done_def)

lemma exec_all:
  assumes "wf w" "ready (inst w) ops"
  shows "all_done ops w (fold (exec_op supid supsz s) ops w)"
  using assms
proof (induction ops arbitrary: w)
  case (Cons op ops)
  define w1 where "w1 = exec_op supid supsz s op w"
  define w' where "w' = fold (exec_op supid supsz s) ops w1"
  have "all_done (op # ops) w w'"
  proof (cases op)
    case (Op_Destroy d)
    have i1: "inst w1 = (inst w)(de_ID d := None)"
      using destroy_removes [OF Cons.prems(1), of d] Cons.prems(2) by (simp add: w1_def exec_op_def Op_Destroy ready_def)
    have "wf w1" using destroy_effect(1) [OF Cons.prems(1) surjective_pairing, of d Termination] by (simp add: w1_def exec_op_def Op_Destroy)
    moreover have "ready (inst w1) ops" unfolding i1 using Cons.prems(2) by (auto simp: Op_Destroy ready_def)
    ultimately have IH: "all_done ops w1 w'" unfolding w'_def by (rule Cons.IH)
    have "inst w' iid = (if iid \<in> set (dids (op # ops)) then None else inst w iid) \<or> made gid (op # ops) (inst w' iid)" for iid
      using all_doneD [OF IH, of iid] i1 made_Cons [of ops "inst w' iid" op] by (cases "iid = de_ID d") (auto simp: Op_Destroy)
    then show ?thesis using IH by (simp add: all_done_def Op_Destroy)
  next
    case (Op_Create l)
    have e: "w1 = CreateOne supid supsz l s w" by (simp add: w1_def exec_op_def Op_Create)
    obtain i c where i1: "inst w i = None" "inst w1 = (inst w)(i \<mapsto> c)" and mf: "made_for gid l c"
      using create_makes [OF Cons.prems(1), of supid supsz l] unfolding e by blast
    have wf1: "wf w1" unfolding e using create_effect [OF Cons.prems(1)] by blast
    have out: "i \<notin> set (dids ops)" and rd: "ready (inst w1) ops" using Cons.prems(2) i1 by (auto simp: Op_Create ready_def)
    from wf1 rd have IH: "all_done ops w1 w'" unfolding w'_def by (rule Cons.IH)
    have keep: "inst w' i = Some c" unfolding w'_def using exec_keeps [OF wf1 rd _ out] i1(2) by simp
    have "inst w' iid = (if iid \<in> set (dids (op # ops)) then None else inst w iid) \<or> made gid (op # ops) (inst w' iid)" for iid
      using all_doneD [OF IH, of iid] i1 keep mf out made_Cons [of ops "inst w' iid" op]
      by (cases "iid = i") (auto simp: Op_Create made_def)
    moreover have "\<exists>iid e. inst w' iid = Some e \<and> made_for gid l' e" if "Op_Create l' \<in> set (op # ops)" for l'
      using that IH keep mf unfolding all_done_def Op_Create by (metis group_op.inject(2) set_ConsD)
    ultimately show ?thesis using IH unfolding all_done_def by blast
  qed
  then show ?case by (simp add: w'_def w1_def)
qed (simp add: all_done_def)


section \<open>Listing succeeds\<close>

lemma list_ok: "wf w \<Longrightarrow> \<exists>ds w'. scaled_List s w = (Inr ds, w')"
  using describe_ok [of w True] by (auto simp: scaled_List_def)

lemma label_each_ok:
  assumes "wf w" "\<forall>d \<in> set ds. inst w (de_ID d) \<noteq> None" "group_labels labels"
  shows "\<exists>w'. label_each (gset_instancePlugin (sg_settings s)) labels ds w = (None, w')"
  using assms
proof (induction ds arbitrary: w)
  case (Cons d ds)
  obtain w1 where l: "ip_Label (gset_instancePlugin (sg_settings s)) (de_ID d) labels w = (None, w1)"
    using label_ok [OF Cons.prems(1,3), of "de_ID d"] Cons.prems(2) by auto
  have L: "wf w1" "relabelled (inst w) (de_ID d) labels (inst w1)" using label [OF Cons.prems(1,3) l] by simp_all
  have "dom (inst w1) = dom (inst w)"
    using L(2) by (auto simp: relabelled_def dom_def split: option.splits; metis option.distinct(1))
  then have "\<forall>d \<in> set ds. inst w1 (de_ID d) \<noteq> None" using Cons.prems(2) by (auto simp: dom_def set_eq_iff)
  then show ?case using Cons L(1) l by simp
qed simp

lemma label_succeeds:
  assumes "wf w"
  shows "\<exists>w'. scaled_Label s w = (None, w')"
proof -
  obtain ds w1 where d: "ip_DescribeInstances (gset_instancePlugin (sg_settings s)) (sg_memberTags s) False w = (Inr ds, w1)"
    using describe_ok [OF assms] by blast
  from describe [OF assms d] have "wf w1" "\<forall>x \<in> set ds. inst w1 (de_ID x) \<noteq> None" by (auto simp: described_def)
  from label_each_ok [OF this, of "gm_put ConfigSHATag (config_hash (sg_settings s)) (tags_into (sg_memberTags s) [])"] d show ?thesis by (simp add: scaled_Label_def Let_def memberTags)
qed

lemma labelAndList_ok:
  assumes "wf w"
  shows "\<exists>ds w'. labelAndList s w = (Inr ds, w')"
proof -
  obtain ds w1 where l: "scaled_List s w = (Inr ds, w1)" using list_ok [OF assms] by blast
  have w1: "wf w1" using list_effect [OF assms l] by simp
  obtain w2 where b: "scaled_Label s w1 = (None, w2)" using label_succeeds [OF w1] by blast
  have "wf w2" using label_effect [OF w1 b] by simp
  from list_ok [OF this] show ?thesis using l b by (auto simp: labelAndList_def)
qed

section \<open>The scaler reaches its size\<close>

lemma creates_count:
  assumes "wf w"
  shows "card (group_ids gid (inst (fold (exec_op supid supsz s) (replicate n (Op_Create None)) w))) = card (group_ids gid (inst w)) + n"
  using assms
proof (induction n arbitrary: w)
  case (Suc n)
  define w1 where "w1 = CreateOne supid supsz None s w"
  obtain i c where i: "inst w i = None" "inst w1 = (inst w)(i \<mapsto> c)" "made_for gid None c"
    using create_makes [OF Suc.prems, of supid supsz None] unfolding w1_def by blast
  have "group_ids gid (inst w1) = insert i (group_ids gid (inst w))" "i \<notin> group_ids gid (inst w)"
    using group_ids_fresh [of "inst w" i "snd c" gid "fst c"] i by (simp_all add: made_for_def)
  then have "card (group_ids gid (inst w1)) = Suc (card (group_ids gid (inst w)))" using finite_members [OF Suc.prems] by simp
  moreover have "wf w1" using create_effect [OF Suc.prems] unfolding w1_def by blast
  ultimately show ?case using Suc.IH [of w1] by (simp add: exec_op_def w1_def)
qed simp

lemma distinct_dids:
  fixes ds :: "'p Description list"
  assumes "distinct (map de_ID ds)" "mset ops = mset (scaler_ops sc ds)"
  shows "distinct (dids ops)"
proof -
  have "dids (replicate n (Op_Create None :: 'p group_op)) = []" for n by (induction n) auto
  moreover have "distinct (map de_ID (take n (go_sort lt ds)))" for n and lt :: "'p Description \<Rightarrow> 'p Description \<Rightarrow> bool"
    using assms(1) distinct_map_go_sort [of de_ID lt ds] by (metis distinct_take take_map)
  ultimately have "distinct (dids (scaler_ops sc ds))" by (simp add: scaler_ops_def Let_def)
  then show ?thesis using dids_perm [OF assms(2)] by (metis mset_eq_imp_distinct_iff)
qed

lemma scaler_reaches:
  assumes w: "wf w" and sched: "permutes sched"
  shows "card (group_ids gid (inst (scaler_converge sched sc s w))) = sc_size sc"
proof -
  obtain ds w1 where l: "labelAndList s w = (Inr ds, w1)" using labelAndList_ok [OF w] by blast
  have w1: "wf w1" and L: "group_ids gid (inst w1) = group_ids gid (inst w)" using labelAndList_effect [OF w l] by (simp_all add: label_frame_def)
  note ids = labelAndList_ids [OF w l]
  let ?I = "group_ids gid (inst w)"
  obtain ops where ops: "scaler_converge sched sc s w = fold (exec_op (sc_id sc) (sc_size sc) s) ops w1" "mset ops = mset (scaler_ops sc ds)"
    using run_batches_fold [OF sched, of "exec_op (sc_id sc) (sc_size sc) s" "launch (sc_maxParallelNum sc) 0 (scaler_ops sc ds) []" w1]
    by (auto simp: scaler_converge_def l)
  consider "length ds = sc_size sc" | "sc_size sc < length ds" | "length ds < sc_size sc" by linarith
  then show ?thesis
  proof cases
    case 1
    then show ?thesis using ops ids L by (simp add: scaler_ops_def Let_def)
  next
    case 3
    then have o: "set ops \<subseteq> {Op_Create None}" "length ops = sc_size sc - length ds"
      using mset_eq_setD [OF ops(2)] mset_eq_length [OF ops(2)] by (auto simp: scaler_ops_def Let_def)
    then have "ops = replicate (sc_size sc - length ds) (Op_Create None)" by (intro replicate_eqI) auto
    then show ?thesis using creates_count [OF w1] ids L 3 by (simp add: ops(1))
  next
    case 2
    have o: "\<forall>op \<in> set ops. \<exists>d. op = Op_Destroy d" "{de_ID d | d. Op_Destroy d \<in> set ops} = set (take (card ?I - sc_size sc) (sorted_list_of_set ?I))"
      using ops_destroy [of ds ?I sc ops] ids ops(2) 2 by auto
    let ?D = "set (take (card ?I - sc_size sc) (sorted_list_of_set ?I))"
    have D: "set (dids ops) = ?D" unfolding o(2) [symmetric] by (rule set_dids)
    have "distinct (dids ops)" using distinct_dids [OF ids [THEN conjunct1] ops(2)] .
    moreover have sub: "?D \<subseteq> ?I" using finite_members [OF w] by (auto dest: in_set_takeD)
    ultimately have "ready (inst w1) ops" unfolding ready_def D using L group_ids_Some by blast
    from exec_all [OF w1 this] have "all_done ops w1 (scaler_converge sched sc s w)" unfolding ops(1) .
    then have "inst (scaler_converge sched sc s w) iid = (if iid \<in> ?D then None else inst w1 iid)" for iid
      using all_doneD [of ops w1 _ iid] o(1) unfolding D made_def by fastforce
    then have "group_ids gid (inst (scaler_converge sched sc s w)) = ?I - ?D" unfolding L [symmetric] by (auto simp: group_ids_def group_member_def)
    moreover have "card ?D = card ?I - sc_size sc" using finite_members [OF w] by (simp add: distinct_card)
    ultimately show ?thesis using sub 2 ids by (simp add: card_Diff_subset)
  qed
qed


text \<open>Whatever happened before, the size is reached with the next tick.\<close>

lemma loop_tick:
  assumes "permutes sched" "wf w" "\<forall>f. Ev_World f \<in> set evs \<longrightarrow> (\<forall>w. wf w \<longrightarrow> wf (f w))" "Ev_Stop \<notin> set evs"
  shows "case scaler_loop sched s (evs @ [Ev_Tick]) sc w of (sc', w') \<Rightarrow> wf w' \<and> card (group_ids gid (inst w')) = sc_size sc'"
  using assms(2-4)
proof (induction evs arbitrary: sc w)
  case Nil
  then show ?case using scaler_reaches [OF _ assms(1)] scaler_round [OF _ assms(1)] by simp
next
  case (Cons ev evs)
  then show ?case using scaler_round [OF Cons.prems(1) assms(1)] by (cases ev) auto
qed

section \<open>The quorum reaches its logical ids\<close>

lemma quorum_reaches:
  fixes q :: quorum
  assumes w: "wf w" and sched: "permutes sched"
  defines "iv \<equiv> inst (quorum_converge sched q s w)"
  shows "\<forall>l \<in> set (qu_LogicalIDs q). \<exists>iid \<in> group_ids gid iv. has_logical l (iv iid)"
    "\<forall>iid \<in> group_ids gid iv. \<not> strays (qu_LogicalIDs q) (iv iid)"
proof -
  obtain ds w1 where l: "labelAndList s w = (Inr ds, w1)" using labelAndList_ok [OF w] by blast
  have w1: "wf w1" using labelAndList_effect [OF w l] by simp
  obtain ops where ops: "quorum_converge sched q s w = fold (exec_op (qu_id q) (quorum_Size q) s) ops w1" and rd: "ready (inst w1) ops"
    and D: "\<forall>iid. iid \<in> set (dids ops) \<longleftrightarrow> iid \<in> group_ids gid (inst w1) \<and> strays (qu_LogicalIDs q) (inst w1 iid)"
    and C: "\<forall>x. Op_Create x \<in> set ops \<longleftrightarrow> (\<exists>l \<in> set (qu_LogicalIDs q). x = Some l \<and> \<not> (\<exists>iid \<in> group_ids gid (inst w1). has_logical l (inst w1 iid)))"
    by (rule quorum_ops [OF w l sched])
  have alld: "all_done ops w1 (quorum_converge sched q s w)" unfolding ops by (rule exec_all [OF w1 rd])
  have mf: "group_member gid iv iid \<and> has_logical k (iv iid) \<and> \<not> strays (qu_LogicalIDs q) (iv iid)"
    if "iv iid = Some e" "made_for gid (Some k) e" "k \<in> set (qu_LogicalIDs q)" for iid e k
    using that by (cases e) (auto simp: made_for_def group_member_def has_logical_def strays_def logical_of_def)
  show "\<forall>l \<in> set (qu_LogicalIDs q). \<exists>iid \<in> group_ids gid iv. has_logical l (iv iid)"
  proof
    fix k assume k: "k \<in> set (qu_LogicalIDs q)"
    show "\<exists>iid \<in> group_ids gid iv. has_logical k (iv iid)"
    proof (cases "\<exists>iid \<in> group_ids gid (inst w1). has_logical k (inst w1 iid)")
      case True
      then obtain iid where i: "iid \<in> group_ids gid (inst w1)" "has_logical k (inst w1 iid)" by blast
      then have "iid \<notin> set (dids ops)" using D k by (auto simp: strays_def has_logical_def split: option.splits)
      then have "iv iid = inst w1 iid" unfolding iv_def ops using exec_keeps [OF w1 rd group_ids_Some [OF i(1)]] by simp
      then show ?thesis using i by (intro bexI [of _ iid]) (simp_all add: group_ids_def group_member_def)
    next
      case False
      then have "Op_Create (Some k) \<in> set ops" using C k by blast
      then obtain iid e where "iv iid = Some e" "made_for gid (Some k) e" using alld unfolding all_done_def iv_def by blast
      then show ?thesis using mf [OF _ _ k] unfolding group_ids_def by blast
    qed
  qed
  show "\<forall>iid \<in> group_ids gid iv. \<not> strays (qu_LogicalIDs q) (iv iid)"
  proof
    fix iid assume i: "iid \<in> group_ids gid iv"
    have "iv iid = (if iid \<in> set (dids ops) then None else inst w1 iid) \<or> made gid ops (iv iid)"
      unfolding iv_def by (rule all_doneD [OF alld])
    then show "\<not> strays (qu_LogicalIDs q) (iv iid)"
    proof
      assume e: "iv iid = (if iid \<in> set (dids ops) then None else inst w1 iid)"
      then have "iv iid = inst w1 iid" "iid \<notin> set (dids ops)" using group_ids_Some [OF i] by (auto split: if_splits)
      then show ?thesis using D i by (auto simp: group_ids_def group_member_def)
    next
      assume "made gid ops (iv iid)"
      then obtain x e where x: "Op_Create x \<in> set ops" "iv iid = Some e" "made_for gid x e" by (auto simp: made_def)
      obtain k where "k \<in> set (qu_LogicalIDs q)" "x = Some k" using C x(1) by blast
      with mf x(2,3) show ?thesis by blast
    qed
  qed
qed

end

end
