(* ===== verification/Simulator.thy ===== *)
theory Simulator
  imports Group_Scaled Kv_Store
begin

text \<open>
  The instance plugin of the simulator (\<open>pkg/run/v0/simulator/instance.go\<close>) over any key-value
  store, and the flavor plugin for plain instances (\<open>pkg/plugin/flavor/vanilla/flavor.go\<close>): the two
  plugins of the source that the group controller runs with here.
\<close>

section \<open>The instance plugin\<close>

record simulator =
  sim_plugin :: string
  sim_name :: string

text \<open>
  What the plugin is built with: a store, the YAML encoding of a description and its inverse, and the
  decoder of the control section of the properties, of which \<open>Cap\<close> matters (\<open>Delay\<close> only waits).
\<close>

record ('s, 'b, 'p) sim_env =
  se_kv :: "('s, 'b) KV"
  se_encode :: "'p Description \<Rightarrow> string + 'b"
  se_decode :: "'b \<Rightarrow> string + 'p Description"
  se_control :: "'p \<Rightarrow> string + int"

text \<open>The outside world: the contents of the store, and the clock with the number of times it was read.\<close>

record 's sim_world =
  sw_kv :: 's
  sw_clock :: "nat \<Rightarrow> int"
  sw_reads :: nat

definition UnixNano :: "'s sim_world \<Rightarrow> int \<times> 's sim_world" where
  "UnixNano w = (sw_clock w (sw_reads w), w\<lparr>sw_reads := sw_reads w + 1\<rparr>)"

definition simulatorTag :: string where "simulatorTag = ''simulator''"

definition sim_describeInstances :: "('s, 'b, 'p) sim_env \<Rightarrow> simulator \<Rightarrow> tags \<Rightarrow> 's \<Rightarrow> string option \<times> 'p Description list \<times> 'b Pair list" where
  "sim_describeInstances env s labels st =
     Visit (se_kv env) (tags_into labels [(simulatorTag, sim_plugin s)]) (Some de_Tags) (se_decode env) collecting st []"

definition sim_DescribeInstances :: "('s, 'b, 'p) sim_env \<Rightarrow> simulator \<Rightarrow> tags \<Rightarrow> bool \<Rightarrow> 's sim_world \<Rightarrow> (string + 'p Description list) \<times> 's sim_world" where
  "sim_DescribeInstances env s labels properties w = (case sim_describeInstances env s labels (sw_kv w) of
     (Some err, _) \<Rightarrow> (Inl err, w)
   | (None, matches, _) \<Rightarrow> (Inr matches, w))"

definition at_capacity :: "('s, 'b, 'p) sim_env \<Rightarrow> simulator \<Rightarrow> 'p InstanceSpec \<Rightarrow> 's \<Rightarrow> string option" where
  "at_capacity env s spec st = (case se_control env (is_Properties spec) of
     Inl err \<Rightarrow> None
   | Inr cap \<Rightarrow>
       if 0 < cap \<and> cap \<le> int (length (fst (snd (sim_describeInstances env s [] st))))
       then Some (''at capacity '' @ show_int cap) else None)"

definition sim_Provision :: "('s, 'b, 'p) sim_env \<Rightarrow> simulator \<Rightarrow> 'p InstanceSpec \<Rightarrow> 's sim_world \<Rightarrow> (string + InstanceID) \<times> 's sim_world" where
  "sim_Provision env s spec w = (case at_capacity env s spec (sw_kv w) of
     Some err \<Rightarrow> (Inl err, w)
   | None \<Rightarrow> (let
       spec = spec\<lparr>is_Tags := gm_put simulatorTag (sim_plugin s) (is_Tags spec)\<rparr>;
       (now, w) = UnixNano w;
       key = show_int now;
       description = \<lparr>de_ID = key, de_LogicalID = is_LogicalID spec, de_Tags = is_Tags spec, de_Properties = Some (is_Properties spec)\<rparr>
     in case se_encode env description of
          Inl err \<Rightarrow> (Inl err, w)
        | Inr buff \<Rightarrow> (case kv_Write (se_kv env) (de_ID description) buff (sw_kv w) of
            (Some err, st) \<Rightarrow> (Inl err, w\<lparr>sw_kv := st\<rparr>)
          | (None, st) \<Rightarrow> (Inr (de_ID description), w\<lparr>sw_kv := st\<rparr>))))"

definition sim_Label :: "('s, 'b, 'p) sim_env \<Rightarrow> simulator \<Rightarrow> InstanceID \<Rightarrow> tags \<Rightarrow> 's sim_world \<Rightarrow> string option \<times> 's sim_world" where
  "sim_Label env s key labels w = (case kv_Exists (se_kv env) key (sw_kv w) of
     Inl err \<Rightarrow> (Some err, w)
   | Inr ex \<Rightarrow>
       if \<not> ex then (Some (''not found '' @ key), w)
       else (case kv_Read (se_kv env) key (sw_kv w) of
         Inl err \<Rightarrow> (Some err, w)
       | Inr buff \<Rightarrow> (case se_decode env buff of
           Inl err \<Rightarrow> (Some err, w)
         | Inr n \<Rightarrow> (case se_encode env (n\<lparr>de_Tags := tags_into labels (de_Tags n)\<rparr>) of
             Inl err \<Rightarrow> (Some err, w)
           | Inr buff \<Rightarrow> (case kv_Write (se_kv env) key buff (sw_kv w) of (err, st) \<Rightarrow> (err, w\<lparr>sw_kv := st\<rparr>))))))"

definition sim_Destroy :: "('s, 'b, 'p) sim_env \<Rightarrow> simulator \<Rightarrow> InstanceID \<Rightarrow> Context \<Rightarrow> 's sim_world \<Rightarrow> string option \<times> 's sim_world" where
  "sim_Destroy env s iid ctx w = (case kv_Exists (se_kv env) iid (sw_kv w) of
     Inl err \<Rightarrow> (Some err, w)
   | Inr ex \<Rightarrow>
       if \<not> ex then (Some (''not found '' @ iid), w)
       else (case kv_Delete (se_kv env) iid (sw_kv w) of (err, st) \<Rightarrow> (err, w\<lparr>sw_kv := st\<rparr>)))"

definition sim_Validate :: "('s, 'b, 'p) sim_env \<Rightarrow> simulator \<Rightarrow> 'p \<Rightarrow> 's sim_world \<Rightarrow> string option" where
  "sim_Validate env s req w = None"

definition sim_instance_plugin :: "('s, 'b, 'p) sim_env \<Rightarrow> simulator \<Rightarrow> ('p, 's sim_world) instance_plugin" where
  "sim_instance_plugin env s = \<lparr>ip_Validate = sim_Validate env s, ip_Provision = sim_Provision env s, ip_Label = sim_Label env s,
     ip_Destroy = sim_Destroy env s, ip_DescribeInstances = sim_DescribeInstances env s\<rparr>"

section \<open>The vanilla flavor\<close>

record VanillaSpec =
  vs_Init :: "string list"
  vs_InitScriptTemplateURL :: string
  vs_Tags :: tags
  vs_Attachments :: "Attachment list"

text \<open>The decoder of the properties and the template engine of the scope (fetch and render) are arguments.\<close>

record 'p vanilla_env =
  ve_decode :: "'p \<Rightarrow> string + VanillaSpec"
  ve_render :: "string \<Rightarrow> string + string"

definition vanilla_Validate :: "'p vanilla_env \<Rightarrow> 'p \<Rightarrow> AllocationMethod \<Rightarrow> 'w \<Rightarrow> string option" where
  "vanilla_Validate env flavorProperties allocation w = (case ve_decode env flavorProperties of
     Inl err \<Rightarrow> Some err
   | Inr spec \<Rightarrow>
       if vs_InitScriptTemplateURL spec \<noteq> [] \<and> 0 < length (vs_Init spec) then
         Some ''Either \"Init\" or \"InitScriptTemplateURL\" can be specified but not both''
       else if vs_InitScriptTemplateURL spec \<noteq> [] then
         (case ve_render env (vs_InitScriptTemplateURL spec) of Inl err \<Rightarrow> Some err | Inr _ \<Rightarrow> None)
       else None)"

definition vanilla_Healthy :: "'p \<Rightarrow> 'p Description \<Rightarrow> 'w \<Rightarrow> (string + Health) \<times> 'w" where
  "vanilla_Healthy flavorProperties inst w = (Inr Healthy, w)"

definition vanilla_Drain :: "'p \<Rightarrow> 'p Description \<Rightarrow> 'w \<Rightarrow> string option \<times> 'w" where
  "vanilla_Drain flavorProperties inst w = (None, w)"

fun join_lines :: "string list \<Rightarrow> string" where
  "join_lines [] = []"
| "join_lines [l] = l"
| "join_lines (l # ls) = l @ [CHR 0x0A] @ join_lines ls"

definition vanilla_Prepare :: "'p vanilla_env \<Rightarrow> 'p \<Rightarrow> 'p InstanceSpec \<Rightarrow> AllocationMethod \<Rightarrow> GIndex \<Rightarrow> 'w \<Rightarrow> (string + 'p InstanceSpec) \<times> 'w" where
  "vanilla_Prepare env flavor inst allocation index w = (case ve_decode env flavor of
     Inl err \<Rightarrow> (Inl err, w)
   | Inr s \<Rightarrow> (let lines = (if is_Init inst \<noteq> [] then [is_Init inst] else []) in
       case (if vs_InitScriptTemplateURL s \<noteq> [] then
               (case ve_render env (vs_InitScriptTemplateURL s) of Inl err \<Rightarrow> Inl err | Inr initScript \<Rightarrow> Inr (lines @ [initScript]))
             else Inr (lines @ vs_Init s)) of
         Inl err \<Rightarrow> (Inl err, w)
       | Inr lines \<Rightarrow> (Inr (inst\<lparr>is_Init := join_lines lines, is_Tags := tags_into (vs_Tags s) (is_Tags inst),
           is_Attachments := is_Attachments inst @ vs_Attachments s\<rparr>), w)))"

definition vanilla_flavor_plugin :: "'p vanilla_env \<Rightarrow> ('p, 'w) flavor_plugin" where
  "vanilla_flavor_plugin env = \<lparr>fp_Validate = vanilla_Validate env, fp_Prepare = vanilla_Prepare env, fp_Healthy = vanilla_Healthy,
     fp_Drain = vanilla_Drain\<rparr>"

end
