(* ===== verification/Group_Sim.thy ===== *)
theory Group_Sim
  imports Group_Quorum Simulator
begin

text \<open>
  The group controller over the simulator and the vanilla flavor: both meet the contract the
  supervisors rely on, so the rounds of the scaler and the quorum do what they promise to the
  simulator's store.
\<close>

section \<open>The simulator's instances\<close>

definition sim_inst :: "('s, 'b, 'p) sim_env \<Rightarrow> ('s \<Rightarrow> string \<Rightarrow> 'b option) \<Rightarrow> 's sim_world \<Rightarrow> inventory" where
  "sim_inst env get w iid = (case get (sw_kv w) iid of None \<Rightarrow> None
     | Some b \<Rightarrow> (case se_decode env b of Inl _ \<Rightarrow> None | Inr d \<Rightarrow> Some (de_LogicalID d, de_Tags d)))"

text \<open>
  What \<open>Provision\<close> and \<open>Label\<close> keep of the store: an entry decodes to a description with its key, one
  of the clock's past readings, and it has the plugin's tag and a group.
\<close>

definition sim_entry :: "('s, 'b, 'p) sim_env \<Rightarrow> simulator \<Rightarrow> 's sim_world \<Rightarrow> string \<Rightarrow> 'b \<Rightarrow> bool" where
  "sim_entry env sim w k b \<longleftrightarrow> (\<exists>d. se_decode env b = Inr d \<and> de_ID d = k \<and> gm_get (de_Tags d) simulatorTag = Some (sim_plugin sim) \<and>
     gm_has (de_Tags d) GroupTag) \<and> (\<exists>n < sw_reads w. k = show_int (sw_clock w n))"

definition sim_wf :: "('s, 'b, 'p) sim_env \<Rightarrow> simulator \<Rightarrow> ('s \<Rightarrow> bool) \<Rightarrow> ('s \<Rightarrow> string \<Rightarrow> 'b option) \<Rightarrow> 's sim_world \<Rightarrow> bool" where
  "sim_wf env sim ok get w \<longleftrightarrow> ok (sw_kv w) \<and> strict_mono (sw_clock w) \<and> (\<forall>k b. get (sw_kv w) k = Some b \<longrightarrow> sim_entry env sim w k b)"

locale sim_group = kv_contract "se_kv env" ok get
  for env :: "('s, 'b, 'p) sim_env" and ok :: "'s \<Rightarrow> bool" and get :: "'s \<Rightarrow> string \<Rightarrow> 'b option" +
  fixes sim :: simulator and ven :: "'p vanilla_env" and s :: "('p, 's sim_world) scaledGroup" and gid :: string
  assumes encode: "\<exists>b. se_encode env d = Inr b \<and> se_decode env b = Inr d"
    and instancePlugin: "gset_instancePlugin (sg_settings s) = sim_instance_plugin env sim"
    and flavorPlugin: "gset_flavorPlugin (sg_settings s) = vanilla_flavor_plugin ven"
    and sim_memberTags: "sg_memberTags s = [(GroupTag, gid)]"
    and flavor_tags: "ve_decode ven (ps_Properties (gs_Flavor (gset_config (sg_settings s)))) = Inr vs \<Longrightarrow> k \<in> reservedTags \<Longrightarrow> \<not> gm_has (vs_Tags vs) k"
begin

abbreviation inst :: "'s sim_world \<Rightarrow> inventory" where "inst \<equiv> sim_inst env get"

abbreviation wf :: "'s sim_world \<Rightarrow> bool" where "wf \<equiv> sim_wf env sim ok get"

definition okspec :: "'p InstanceSpec \<Rightarrow> bool" where
  "okspec spec \<longleftrightarrow> gm_has (is_Tags spec) GroupTag \<and> is_Properties spec = ps_Properties (gs_Instance (gset_config (sg_settings s)))"

lemma wf_entry:
  assumes "wf w" "get (sw_kv w) k = Some b"
  obtains d where "se_decode env b = Inr d" "de_ID d = k" "gm_get (de_Tags d) simulatorTag = Some (sim_plugin sim)" "gm_has (de_Tags d) GroupTag"
    "inst w k = Some (de_LogicalID d, de_Tags d)"
  using assms by (auto simp: sim_wf_def sim_entry_def sim_inst_def)

lemma inst_None_iff: "wf w \<Longrightarrow> inst w k = None \<longleftrightarrow> get (sw_kv w) k = None"
  by (cases "get (sw_kv w) k") (auto simp: sim_inst_def elim: wf_entry)

lemma inst_upd:
  assumes "get st = (get (sw_kv w))(k \<mapsto> b)" "se_decode env b = Inr d"
  shows "inst (w\<lparr>sw_kv := st\<rparr>) = (inst w)(k \<mapsto> (de_LogicalID d, de_Tags d))"
  using assms by (auto simp: sim_inst_def fun_eq_iff)

lemma inst_del: "get st = (get (sw_kv w))(k := None) \<Longrightarrow> inst (w\<lparr>sw_kv := st\<rparr>) = (inst w)(k := None)"
  by (auto simp: sim_inst_def fun_eq_iff)

lemma describe_ds:
  assumes "wf w"
  shows "\<exists>ds. sim_DescribeInstances env sim [(GroupTag, gid)] props w = (Inr ds, w) \<and> described (inst w) [(GroupTag, gid)] ds"
proof -
  define obj where "obj k = (SOME d. \<exists>b. get (sw_kv w) k = Some b \<and> se_decode env b = Inr d)" for k
  have obj: "\<exists>b. get (sw_kv w) k = Some b \<and> se_decode env b = Inr (obj k)" "de_ID (obj k) = k"
    "inst w k = Some (de_LogicalID (obj k), de_Tags (obj k))" "gm_get (de_Tags (obj k)) simulatorTag = Some (sim_plugin sim)" "gm_has (de_Tags (obj k)) GroupTag"
    if k: "k \<in> dom (get (sw_kv w))" for k
  proof -
    obtain b where b: "get (sw_kv w) k = Some b" using k by blast
    obtain d where d: "se_decode env b = Inr d" "de_ID d = k" "gm_get (de_Tags d) simulatorTag = Some (sim_plugin sim)" "gm_has (de_Tags d) GroupTag"
      "inst w k = Some (de_LogicalID d, de_Tags d)" by (rule wf_entry [OF assms b])
    have "obj k = d" unfolding obj_def using b d(1) by auto
    then show "\<exists>b. get (sw_kv w) k = Some b \<and> se_decode env b = Inr (obj k)" "de_ID (obj k) = k"
      "inst w k = Some (de_LogicalID (obj k), de_Tags (obj k))" "gm_get (de_Tags (obj k)) simulatorTag = Some (sim_plugin sim)" "gm_has (de_Tags (obj k)) GroupTag"
      using b d by auto
  qed
  have ok: "ok (sw_kv w)" using assms by (simp add: sim_wf_def)
  let ?search = "tags_into [(GroupTag, gid)] [(simulatorTag, sim_plugin sim)]"
  obtain ks where ks: "distinct ks" "set ks = dom (get (sw_kv w))"
    and v: "Visit (se_kv env) ?search (Some de_Tags) (se_decode env) collecting (sw_kv w) [] =
      (None, filter (\<lambda>d. \<not> (0 < length ?search \<and> hasDifferentTags ?search (de_Tags d))) (map obj ks), [])"
    using Visit_collects [OF ok, of "se_decode env" obj ?search de_Tags] obj(1) by blast
  let ?ds = "filter (\<lambda>d. \<not> (0 < length ?search \<and> hasDifferentTags ?search (de_Tags d))) (map obj ks)"
  have keep: "\<not> (0 < length ?search \<and> hasDifferentTags ?search (de_Tags (obj k))) \<longleftrightarrow> gm_get (de_Tags (obj k)) GroupTag = Some gid"
    if "k \<in> set ks" for k
    using obj(4,5) [of k] that ks(2) by (auto simp: hasDifferentTags_def tags_into_def gm_has_def GroupTag_def simulatorTag_def)
  have "map de_ID (map obj ks) = ks" unfolding map_map by (rule map_idI) (use obj(2) ks(2) in simp)
  then have "distinct (map de_ID ?ds)" using ks(1) distinct_map_filter [of de_ID "map obj ks"] by simp
  moreover have "set ?ds = obj ` {k \<in> set ks. gm_get (de_Tags (obj k)) GroupTag = Some gid}" using keep by auto
  moreover have "iid \<in> set ks \<and> gm_get (de_Tags (obj iid)) GroupTag = Some gid" if "inst w iid = Some (l, t)" "gm_get t GroupTag = Some gid" for iid l t
    using that inst_None_iff [OF assms, of iid] obj(3) [of iid] ks(2) by auto
  ultimately have "described (inst w) [(GroupTag, gid)] ?ds"
    using obj(2,3) ks(2) unfolding described_def by (auto simp: tags_match_def)
  then show ?thesis using v by (auto simp: sim_DescribeInstances_def sim_describeInstances_def)
qed

lemma wf_reads: "wf w \<Longrightarrow> wf (w\<lparr>sw_reads := sw_reads w + 1\<rparr>)"
  unfolding sim_wf_def sim_entry_def by (auto simp: less_Suc_eq)

lemma wf_upd:
  assumes "wf w" "ok st" "get st = (get (sw_kv w))(k \<mapsto> b)" "sim_entry env sim w k b"
  shows "wf (w\<lparr>sw_kv := st\<rparr>)"
  using assms by (auto simp: sim_wf_def sim_entry_def)

lemma wf_del: "wf w \<Longrightarrow> ok st \<Longrightarrow> get st = (get (sw_kv w))(k := None) \<Longrightarrow> wf (w\<lparr>sw_kv := st\<rparr>)"
  by (auto simp: sim_wf_def sim_entry_def)

lemma fresh_key:
  assumes "wf w"
  shows "get (sw_kv w) (show_int (sw_clock w (sw_reads w))) = None"
proof (rule ccontr)
  assume "get (sw_kv w) (show_int (sw_clock w (sw_reads w))) \<noteq> None"
  then obtain b where "get (sw_kv w) (show_int (sw_clock w (sw_reads w))) = Some b" by blast
  then have "sim_entry env sim w (show_int (sw_clock w (sw_reads w))) b" using assms by (simp add: sim_wf_def)
  then obtain n where "n < sw_reads w" "sw_clock w (sw_reads w) = sw_clock w n" by (auto simp: sim_entry_def)
  moreover have "strict_mono (sw_clock w)" using assms by (simp add: sim_wf_def)
  ultimately show False by (metis less_irrefl strict_mono_less)
qed

lemma provision_effect:
  assumes "wf w" "okspec spec" "sim_Provision env sim spec w = (rp, w')"
  shows "wf w' \<and> (case rp of Inl _ \<Rightarrow> inst w' = inst w \<and> at_capacity env sim spec (sw_kv w) \<noteq> None
    | Inr iid \<Rightarrow> inst w iid = None \<and> (\<exists>t. inst w' = (inst w)(iid \<mapsto> (is_LogicalID spec, t)) \<and> (\<forall>k \<in> reservedTags. gm_get t k = gm_get (is_Tags spec) k)))"
proof (cases "at_capacity env sim spec (sw_kv w)")
  case None
  let ?t = "gm_put simulatorTag (sim_plugin sim) (is_Tags spec)" and ?w1 = "w\<lparr>sw_reads := sw_reads w + 1\<rparr>" and ?k = "show_int (sw_clock w (sw_reads w))"
  define d where "d = \<lparr>de_ID = ?k, de_LogicalID = is_LogicalID spec, de_Tags = ?t, de_Properties = Some (is_Properties spec)\<rparr>"
  obtain b where b: "se_encode env d = Inr b" "se_decode env b = Inr d" using encode by blast
  have ok: "ok (sw_kv w)" using assms(1) by (simp add: sim_wf_def)
  obtain st where st: "kv_Write (se_kv env) ?k b (sw_kv w) = (None, st)" "ok st" "get st = (get (sw_kv w))(?k \<mapsto> b)" by (rule Write_E [OF ok])
  have r: "rp = Inr ?k" "w' = ?w1\<lparr>sw_kv := st\<rparr>"
    using assms(3) b(1) st(1) None by (simp_all add: sim_Provision_def UnixNano_def Let_def d_def)
  have "sim_entry env sim ?w1 ?k b" using b(2) assms(2) by (auto simp: sim_entry_def d_def okspec_def)
  then have "wf w'" unfolding r(2) using wf_upd [OF wf_reads [OF assms(1)] st(2), of ?k b] st(3) by simp
  moreover have "inst w' = (inst ?w1)(?k \<mapsto> (de_LogicalID d, de_Tags d))" unfolding r(2) using st(3) b(2) by (intro inst_upd) simp_all
  then have "inst w' = (inst w)(?k \<mapsto> (is_LogicalID spec, ?t))" by (simp add: d_def sim_inst_def fun_eq_iff)
  moreover have "\<forall>k \<in> reservedTags. gm_get ?t k = gm_get (is_Tags spec) k"
    by (auto simp: reservedTags_def simulatorTag_def GroupTag_def LogicalIDTag_def ConfigSHATag_def)
  ultimately show ?thesis using fresh_key [OF assms(1)] inst_None_iff [OF assms(1)] r(1) by auto
qed (use assms in \<open>auto simp: sim_Provision_def\<close>)

lemma sim_label_effect:
  assumes "wf w" "group_labels labels" "sim_Label env sim iid labels w = (rl, w')"
  shows "wf w' \<and> relabelled (inst w) iid labels (inst w') \<and> (inst w iid \<noteq> None \<longrightarrow> rl = None)"
proof (cases "get (sw_kv w) iid")
  case None
  then have "rl \<noteq> None \<and> w' = w" using assms(1,3) Exists [of "sw_kv w" iid] by (auto simp: sim_Label_def sim_wf_def)
  then show ?thesis using assms(1) None inst_None_iff [of w iid] by (auto simp: relabelled_def split: option.splits)
next
  case (Some b)
  have ok: "ok (sw_kv w)" using assms(1) by (simp add: sim_wf_def)
  obtain d where d: "se_decode env b = Inr d" "de_ID d = iid" "gm_get (de_Tags d) simulatorTag = Some (sim_plugin sim)" "gm_has (de_Tags d) GroupTag"
    "inst w iid = Some (de_LogicalID d, de_Tags d)" by (rule wf_entry [OF assms(1) Some])
  let ?d = "d\<lparr>de_Tags := tags_into labels (de_Tags d)\<rparr>"
  obtain b' where b': "se_encode env ?d = Inr b'" "se_decode env b' = Inr ?d" using encode by blast
  obtain st where st: "kv_Write (se_kv env) iid b' (sw_kv w) = (None, st)" "ok st" "get st = (get (sw_kv w))(iid \<mapsto> b')" by (rule Write_E [OF ok])
  have r: "rl = None" "w' = w\<lparr>sw_kv := st\<rparr>"
    using assms(3) Exists [OF ok, of iid] Read [OF ok Some] Some d(1) b'(1) st(1) by (simp_all add: sim_Label_def)
  have i: "inst w' = (inst w)(iid \<mapsto> (de_LogicalID d, tags_into labels (de_Tags d)))"
    unfolding r(2) using inst_upd [OF st(3) b'(2)] by simp
  have "sim_entry env sim w iid b" using assms(1) Some by (simp add: sim_wf_def)
  moreover have into: "gm_get (tags_into labels (de_Tags d)) k = (case gm_get labels k of None \<Rightarrow> gm_get (de_Tags d) k | Some v \<Rightarrow> Some v)" for k
    using assms(2) by (simp add: group_labels_def tags_into_get)
  moreover have "gm_get labels simulatorTag = None"
    using assms(2) by (auto simp: group_labels_def map_of_eq_None_iff reservedTags_def simulatorTag_def GroupTag_def LogicalIDTag_def ConfigSHATag_def)
  ultimately have "sim_entry env sim w iid b'"
    using b'(2) d into by (auto simp: sim_entry_def gm_has_def split: option.splits)
  then have "wf w'" unfolding r(2) by (rule wf_upd [OF assms(1) st(2,3)])
  moreover have "relabelled (inst w) iid labels (inst w')"
    unfolding i relabelled_def using d(5) into by (auto split: option.splits)
  ultimately show ?thesis using r(1) by simp
qed

lemma sim_destroy_effect:
  assumes "wf w" "sim_Destroy env sim iid ctx w = (rd, w')"
  shows "wf w' \<and> (case rd of None \<Rightarrow> inst w' = (inst w)(iid := None) | Some _ \<Rightarrow> inst w' = inst w \<and> inst w iid = None)"
proof (cases "get (sw_kv w) iid")
  case None
  then have "rd \<noteq> None \<and> w' = w" using assms Exists [of "sw_kv w" iid] by (auto simp: sim_Destroy_def sim_wf_def)
  then show ?thesis using assms(1) None inst_None_iff by auto
next
  case (Some b)
  have ok: "ok (sw_kv w)" using assms(1) by (simp add: sim_wf_def)
  obtain st where st: "kv_Delete (se_kv env) iid (sw_kv w) = (None, st)" "ok st" "get st = (get (sw_kv w))(iid := None)"
    by (rule Delete_E [OF ok, of iid]) (use Some in auto)
  have r: "rd = None" "w' = w\<lparr>sw_kv := st\<rparr>" using assms(2) Exists [OF ok, of iid] Some st(1) by (simp_all add: sim_Destroy_def)
  show ?thesis unfolding r using wf_del [OF assms(1) st(2,3)] inst_del [OF st(3)] by simp
qed

lemma prepare_effect:
  assumes "is_Tags spec = create_tags s l" "is_LogicalID spec = l" "is_Properties spec = ps_Properties (gs_Instance (gset_config (sg_settings s)))"
    "vanilla_Prepare ven (ps_Properties (gs_Flavor (gset_config (sg_settings s)))) spec alloc idx w = (rq, w')"
  shows "w' = w \<and> (case rq of Inl _ \<Rightarrow> True
    | Inr spec' \<Rightarrow> okspec spec' \<and> is_LogicalID spec' = l \<and> (\<forall>k \<in> reservedTags. gm_get (is_Tags spec') k = gm_get (create_tags s l) k))"
proof -
  have keep: "gm_get (tags_into (vs_Tags vs) t) k = gm_get t k" if "\<not> gm_has (vs_Tags vs) k" for vs k t
  proof -
    have "gm_get (fold (\<lambda>(k, v). gm_put k v) m t) k = gm_get t k" if "k \<notin> fst ` set m" for m
      using that by (induction m arbitrary: t) auto
    then show ?thesis using that by (simp add: tags_into_def gm_has_iff)
  qed
  show ?thesis
  proof (cases "ve_decode ven (ps_Properties (gs_Flavor (gset_config (sg_settings s))))")
    case (Inr vs)
    have kept: "gm_get (tags_into (vs_Tags vs) t) k = gm_get t k" if "k \<in> reservedTags" for k t using keep flavor_tags [OF Inr that] by blast
    have "gm_has (tags_into (vs_Tags vs) (create_tags s l)) GroupTag"
      using kept [of GroupTag "create_tags s l"] by (simp add: gm_has_def reservedTags_def create_tags_def sim_memberTags tags_into_def Let_def GroupTag_def ConfigSHATag_def LogicalIDTag_def split: option.splits)
    then show ?thesis using assms Inr kept
      by (auto simp: vanilla_Prepare_def okspec_def Let_def split: sum.splits if_splits)
  qed (use assms in \<open>auto simp: vanilla_Prepare_def\<close>)
qed

end

sublocale sim_group \<subseteq> group_env s gid "sim_inst env get" "sim_wf env sim ok get" okspec
proof unfold_locales
  show "sg_memberTags s = [(GroupTag, gid)]" by (rule sim_memberTags)
  fix w :: "'s sim_world" assume w: "wf w"
  have "dom (inst w) = dom (get (sw_kv w))" using inst_None_iff [OF w] by (auto simp: dom_def)
  then show "finite (dom (inst w))" using finite_get w by (simp add: sim_wf_def)
next
  fix w w' props r assume "wf w" "ip_DescribeInstances (gset_instancePlugin (sg_settings s)) (sg_memberTags s) props w = (r, w')"
  then show "wf w' \<and> inst w' = inst w \<and> (case r of Inl _ \<Rightarrow> True | Inr ds \<Rightarrow> described (inst w) (sg_memberTags s) ds)"
    using describe_ds [of w props] by (auto simp: instancePlugin sim_instance_plugin_def sim_memberTags)
next
  fix w spec rp w' assume "wf w" "okspec spec" "ip_Provision (gset_instancePlugin (sg_settings s)) spec w = (rp, w')"
  then show "wf w' \<and> (case rp of Inl _ \<Rightarrow> inst w' = inst w
    | Inr iid \<Rightarrow> inst w iid = None \<and> (\<exists>t. inst w' = (inst w)(iid \<mapsto> (is_LogicalID spec, t)) \<and> (\<forall>k \<in> reservedTags. gm_get t k = gm_get (is_Tags spec) k)))"
    using provision_effect [of w spec rp w'] by (simp add: instancePlugin sim_instance_plugin_def split: sum.splits)
next
  fix w iid ctx rd w' assume "wf w" "ip_Destroy (gset_instancePlugin (sg_settings s)) iid ctx w = (rd, w')"
  then show "wf w' \<and> (case rd of None \<Rightarrow> inst w' = (inst w)(iid := None) | Some x \<Rightarrow> inst w' = inst w)"
    using sim_destroy_effect [of w iid ctx rd w'] by (simp add: instancePlugin sim_instance_plugin_def split: option.splits)
next
  fix w labels iid rl w' assume "wf w" "group_labels labels" "ip_Label (gset_instancePlugin (sg_settings s)) iid labels w = (rl, w')"
  then show "wf w' \<and> relabelled (inst w) iid labels (inst w')"
    using sim_label_effect [of w labels iid rl w'] by (simp add: instancePlugin sim_instance_plugin_def)
next
  fix w w' spec l alloc idx rq
  assume "wf w" "is_Tags spec = create_tags s l" "is_LogicalID spec = l" "is_Properties spec = ps_Properties (gs_Instance (gset_config (sg_settings s)))"
    "fp_Prepare (gset_flavorPlugin (sg_settings s)) (ps_Properties (gs_Flavor (gset_config (sg_settings s)))) spec alloc idx w = (rq, w')"
  then show "wf w' \<and> inst w' = inst w \<and> (case rq of Inl x \<Rightarrow> True
    | Inr spec' \<Rightarrow> okspec spec' \<and> is_LogicalID spec' = l \<and> (\<forall>k \<in> reservedTags. gm_get (is_Tags spec') k = gm_get (create_tags s l) k))"
    using prepare_effect [of spec l alloc idx w rq w'] by (simp add: flavorPlugin vanilla_flavor_plugin_def)
qed (auto simp: flavorPlugin vanilla_flavor_plugin_def vanilla_Drain_def vanilla_Healthy_def)

context sim_group
begin

lemmas sim_rounds = scaler_round quorum_keeps

end

text \<open>Without a cap on its instances, and with a flavor that decodes and renders, no operation fails.\<close>

locale sim_reliable = sim_group env ok get sim ven s gid
  for env :: "('s, 'b, 'p) sim_env" and ok :: "'s \<Rightarrow> bool" and get :: "'s \<Rightarrow> string \<Rightarrow> 'b option"
    and sim :: simulator and ven :: "'p vanilla_env" and s :: "('p, 's sim_world) scaledGroup" and gid :: string +
  assumes uncapped: "se_control env (ps_Properties (gs_Instance (gset_config (sg_settings s)))) = Inr cap \<Longrightarrow> cap \<le> 0"
    and flavor_ok: "\<exists>vs. ve_decode ven (ps_Properties (gs_Flavor (gset_config (sg_settings s)))) = Inr vs \<and> vs_InitScriptTemplateURL vs = []"

sublocale sim_reliable \<subseteq> reliable_env s gid "sim_inst env get" "sim_wf env sim ok get" okspec
proof unfold_locales
  fix w props assume "wf w"
  then show "\<exists>ds w'. ip_DescribeInstances (gset_instancePlugin (sg_settings s)) (sg_memberTags s) props w = (Inr ds, w')"
    using describe_ds [of w props] by (auto simp: instancePlugin sim_instance_plugin_def sim_memberTags)
next
  fix w spec assume w: "wf w" "okspec spec"
  have "at_capacity env sim spec (sw_kv w) = None" using w(2) uncapped by (auto simp: at_capacity_def okspec_def split: sum.splits)
  then show "\<exists>iid w'. ip_Provision (gset_instancePlugin (sg_settings s)) spec w = (Inr iid, w')"
    using provision_effect [OF w surjective_pairing]
    by (cases "sim_Provision env sim spec w"; cases "fst (sim_Provision env sim spec w)") (auto simp: instancePlugin sim_instance_plugin_def)
next
  fix w iid ctx assume "wf w" "inst w iid \<noteq> None"
  then show "\<exists>w'. ip_Destroy (gset_instancePlugin (sg_settings s)) iid ctx w = (None, w')"
    using sim_destroy_effect [of w iid ctx] by (cases "sim_Destroy env sim iid ctx w") (auto simp: instancePlugin sim_instance_plugin_def split: option.splits)
next
  fix w labels iid assume "wf w" "group_labels labels" "inst w iid \<noteq> None"
  then show "\<exists>w'. ip_Label (gset_instancePlugin (sg_settings s)) iid labels w = (None, w')"
    using sim_label_effect [of w labels iid] by (cases "sim_Label env sim iid labels w") (auto simp: instancePlugin sim_instance_plugin_def)
qed (use flavor_ok in \<open>auto simp: flavorPlugin vanilla_flavor_plugin_def vanilla_Prepare_def Let_def\<close>)

context sim_reliable
begin

lemmas sim_reached = loop_tick quorum_reaches

end

section \<open>Groups of simulated instances\<close>

text \<open>
  A group \<open>gid\<close> as \<open>CommitGroup\<close> sets it up, over a simulator with a store in memory. The hypotheses
  are what YAML promises, and that the flavor does not set the tags the group keeps its books with.
\<close>

definition sim_setup :: "('b Mem, 'b, 'p) sim_env \<Rightarrow> ((string \<times> 'b) list \<Rightarrow> (string \<times> 'b) list) \<Rightarrow> simulator \<Rightarrow> 'p vanilla_env \<Rightarrow>
    ('p, 'b Mem sim_world) scaledGroup \<Rightarrow> string \<Rightarrow> bool" where
  "sim_setup env order sim ven s gid \<longleftrightarrow> se_kv env = Mem_KV order \<and> (\<forall>d. \<exists>b. se_encode env d = Inr b \<and> se_decode env b = Inr d) \<and>
     gset_instancePlugin (sg_settings s) = sim_instance_plugin env sim \<and> gset_flavorPlugin (sg_settings s) = vanilla_flavor_plugin ven \<and>
     sg_memberTags s = [(GroupTag, gid)] \<and>
     (\<forall>vs. ve_decode ven (ps_Properties (gs_Flavor (gset_config (sg_settings s)))) = Inr vs \<longrightarrow> (\<forall>k \<in> reservedTags. \<not> gm_has (vs_Tags vs) k))"

definition sim_unlimited :: "('b Mem, 'b, 'p) sim_env \<Rightarrow> 'p vanilla_env \<Rightarrow> ('p, 'b Mem sim_world) scaledGroup \<Rightarrow> bool" where
  "sim_unlimited env ven s \<longleftrightarrow> (\<forall>cap. se_control env (ps_Properties (gs_Instance (gset_config (sg_settings s)))) = Inr cap \<longrightarrow> cap \<le> 0) \<and>
     (\<exists>vs. ve_decode ven (ps_Properties (gs_Flavor (gset_config (sg_settings s)))) = Inr vs \<and> vs_InitScriptTemplateURL vs = [])"

abbreviation sim_ok :: "('b Mem, 'b, 'p) sim_env \<Rightarrow> simulator \<Rightarrow> 'b Mem sim_world \<Rightarrow> bool" where
  "sim_ok env sim \<equiv> sim_wf env sim mem_ok mem_get"

abbreviation sim_instances :: "('b Mem, 'b, 'p) sim_env \<Rightarrow> 'b Mem sim_world \<Rightarrow> inventory" where
  "sim_instances env \<equiv> sim_inst env mem_get"

lemma sim_setup_group: "sim_setup env order sim ven s gid \<Longrightarrow> sim_group env mem_ok mem_get sim ven s gid"
  using mem.kv_contract_axioms [of order] unfolding sim_setup_def by (intro sim_group.intro sim_group_axioms.intro) auto

lemma sim_setup_reliable: "sim_setup env order sim ven s gid \<Longrightarrow> sim_unlimited env ven s \<Longrightarrow> sim_reliable env mem_ok mem_get sim ven s gid"
  using sim_setup_group by (intro sim_reliable.intro sim_reliable_axioms.intro) (auto simp: sim_unlimited_def)

text \<open>A setup with every parameter concrete: descriptions are their own encoding.\<close>

definition demo_env :: "(unit Description Mem, unit Description, unit) sim_env" where
  "demo_env = \<lparr>se_kv = Mem_KV (\<lambda>xs. xs), se_encode = Inr, se_decode = Inr, se_control = \<lambda>_. Inr 0\<rparr>"

definition demo_sim :: simulator where
  "demo_sim = \<lparr>sim_plugin = ''simulator'', sim_name = ''compute''\<rparr>"

definition demo_vanilla :: "unit vanilla_env" where
  "demo_vanilla = \<lparr>ve_decode = \<lambda>_. Inr \<lparr>vs_Init = [''true''], vs_InitScriptTemplateURL = [], vs_Tags = [(''tier'', ''web'')], vs_Attachments = []\<rparr>,
     ve_render = \<lambda>_. Inr []\<rparr>"

definition demo_group :: "string \<Rightarrow> (unit, unit Description Mem sim_world) scaledGroup" where
  "demo_group gid = \<lparr>sg_settings = \<lparr>gset_self = None, gset_instancePlugin = sim_instance_plugin demo_env demo_sim,
       gset_flavorPlugin = vanilla_flavor_plugin demo_vanilla,
       gset_config = \<lparr>gs_Instance = \<lparr>ps_Plugin = ''simulator/compute'', ps_Properties = ()\<rparr>, gs_Flavor = \<lparr>ps_Plugin = ''vanilla'', ps_Properties = ()\<rparr>,
         gs_Allocation = \<lparr>al_Size = 2, al_LogicalIDs = []\<rparr>, gs_Updating = \<lparr>up_Duration = 0, up_Count = 0, up_Skip = None\<rparr>\<rparr>,
       gset_digest = \<lambda>_. ''sha''\<rparr>,
     sg_memberTags = [(GroupTag, gid)]\<rparr>"

definition demo_world :: "unit Description Mem sim_world" where
  "demo_world = \<lparr>sw_kv = Mem_NewStore ''compute'', sw_clock = int, sw_reads = 0\<rparr>"

lemma demo_setup: "sim_setup demo_env (\<lambda>xs. xs) demo_sim demo_vanilla (demo_group gid) gid" "sim_unlimited demo_env demo_vanilla (demo_group gid)"
  "sim_ok demo_env demo_sim demo_world"
  by (auto simp: sim_setup_def sim_unlimited_def sim_wf_def demo_env_def demo_vanilla_def demo_group_def demo_world_def strict_mono_def
      reservedTags_def GroupTag_def LogicalIDTag_def ConfigSHATag_def gm_has_def)

text \<open>The same with an instance of another group in the store.\<close>

definition demo_other :: "unit Description" where
  "demo_other = \<lparr>de_ID = ''0'', de_LogicalID = Some ''10.0.0.9'', de_Tags = [(GroupTag, ''other''), (simulatorTag, ''simulator'')], de_Properties = Some ()\<rparr>"

definition demo_world1 :: "unit Description Mem sim_world" where
  "demo_world1 = demo_world\<lparr>sw_kv := snd (Mem_Write ''0'' demo_other (Mem_NewStore ''compute'')), sw_reads := 1\<rparr>"

lemma demo_ok1: "sim_ok demo_env demo_sim demo_world1" "sim_instances demo_env demo_world1 ''0'' = Some (Some ''10.0.0.9'', de_Tags demo_other)"
proof -
  let ?st = "snd (Mem_Write ''0'' demo_other (Mem_NewStore ''compute''))"
  have g: "mem_get ?st = [''0'' \<mapsto> demo_other]" by (auto simp: Mem_Write_def mem_get_def fun_eq_iff Mem_NewStore_def Mem_Key_def)
  have "mem_ok ?st" using mem_ok_put [of "Mem_NewStore ''compute''"] by (simp add: Mem_Write_def)
  moreover have "show_int 0 = ''0''" by code_simp
  moreover have "sim_entry demo_env demo_sim demo_world1 ''0'' demo_other" if "show_int 0 = ''0''"
    using that by (simp add: demo_world1_def demo_world_def sim_entry_def demo_env_def demo_other_def demo_sim_def gm_has_def GroupTag_def simulatorTag_def)
  ultimately show "sim_ok demo_env demo_sim demo_world1"
    by (auto simp: sim_wf_def demo_world1_def demo_world_def g strict_mono_def split: if_splits)
  show "sim_instances demo_env demo_world1 ''0'' = Some (Some ''10.0.0.9'', de_Tags demo_other)"
    using g by (simp add: sim_inst_def demo_world1_def demo_env_def) (simp add: demo_other_def)
qed

interpretation demo: sim_reliable demo_env mem_ok mem_get demo_sim demo_vanilla "demo_group gid" gid for gid
  by (rule sim_setup_reliable [OF demo_setup(1,2)])

text \<open>
  (C14) A round of the scaler, whatever fails in it and in whatever order its goroutines run: the size of
  the group moves towards the target and never past it, only members with the lowest ids leave, and
  no instance outside the group changes.
\<close>

theorem scaler_round_towards:
  assumes "sim_setup env order sim ven s gid" "sim_ok env sim w" "permutes sched"
  shows "sim_ok env sim (scaler_converge sched sc s w) \<and>
    towards gid (sc_size sc) (sim_instances env w) (sim_instances env (scaler_converge sched sc s w))"
  using sim_group.sim_rounds(1) [OF sim_setup_group [OF assms(1)] assms(2,3)] .

theorem scaler_round_towards_witness:
  "towards ''g'' 3 (sim_instances demo_env demo_world)
     (sim_instances demo_env (scaler_converge rev (NewScalingGroup ''g'' 3 2) (demo_group ''g'') demo_world))"
  using scaler_round_towards [OF demo_setup(1,3), where sched = rev and sc = "NewScalingGroup ''g'' 3 2"]
  by (simp add: NewScalingGroup_def)



text \<open>
  (C15) With plugins that do not fail, a round of the quorum leaves an instance for every logical id,
  and no instance of the group with a logical id that is not one of them.
\<close>

theorem quorum_round_reaches:
  assumes "sim_setup env order sim ven s gid" "sim_unlimited env ven s" "sim_ok env sim w" "permutes sched"
  shows "(\<forall>l \<in> set (qu_LogicalIDs q). \<exists>iid \<in> group_ids gid (sim_instances env (quorum_converge sched q s w)).
      has_logical l (sim_instances env (quorum_converge sched q s w) iid)) \<and>
    (\<forall>iid \<in> group_ids gid (sim_instances env (quorum_converge sched q s w)).
      \<not> strays (qu_LogicalIDs q) (sim_instances env (quorum_converge sched q s w) iid))"
  using sim_reliable.sim_reached(2,3) [OF sim_setup_reliable [OF assms(1,2)] assms(3,4), of q] by blast

theorem quorum_round_reaches_witness:
  "\<exists>iid \<in> group_ids ''g'' (sim_instances demo_env (quorum_converge rev (NewQuorum ''g'' [''10.0.0.1'', ''10.0.0.2'']) (demo_group ''g'') demo_world)).
     has_logical ''10.0.0.2'' (sim_instances demo_env (quorum_converge rev (NewQuorum ''g'' [''10.0.0.1'', ''10.0.0.2'']) (demo_group ''g'') demo_world) iid)"
  using quorum_round_reaches [OF demo_setup, where sched = rev and q = "NewQuorum ''g'' [''10.0.0.1'', ''10.0.0.2'']"]
  by (simp add: NewQuorum_def)

text \<open>
  Whatever fails in a round of the quorum, an instance outside the group is left exactly as it is,
  and a member of it without a foreign logical id keeps its place and its logical id.
\<close>

theorem quorum_round_keeps:
  assumes "sim_setup env order sim ven s gid" "sim_ok env sim w" "permutes sched" "sim_instances env w iid \<noteq> None"
    "iid \<notin> group_ids gid (sim_instances env w) \<or> \<not> strays (qu_LogicalIDs q) (sim_instances env w iid)"
  shows "stays gid (sim_instances env w) (sim_instances env (quorum_converge sched q s w)) iid"
  using sim_group.sim_rounds(2) [OF sim_setup_group [OF assms(1)] assms(2-5)] .

theorem quorum_round_keeps_witness:
  "stays ''g'' (sim_instances demo_env demo_world1)
     (sim_instances demo_env (quorum_converge rev (NewQuorum ''g'' [''10.0.0.1'']) (demo_group ''g'') demo_world1)) ''0''"
  by (rule quorum_round_keeps [OF demo_setup(1) demo_ok1(1)]) (simp_all add: demo_ok1(2) group_ids_def group_member_def demo_other_def GroupTag_def)

definition untagged :: "string \<Rightarrow> unit Description" where
  "untagged iid = \<lparr>de_ID = iid, de_LogicalID = None, de_Tags = [(simulatorTag, ''simulator'')], de_Properties = Some ()\<rparr>"

definition demo_untagged :: "unit Description Mem sim_world" where
  "demo_untagged = \<lparr>sw_kv = \<lparr>mem_prefix = ''compute'', mem_store = [(''compute-0'', untagged ''0''), (''compute-1'', untagged ''1'')]\<rparr>,
     sw_clock = int, sw_reads = 2\<rparr>"

text \<open>
  The simulator describes an instance without the tag a search asks for: \<open>hasDifferentTags\<close> passes
  over missing tags. The scaler of a group then takes instances that have no group for its own, and
  destroys them: here it removes one of two, though it has no member at all.
\<close>

theorem untagged_destroyed:
  "sim_instances demo_env demo_untagged ''0'' = Some (None, [(simulatorTag, ''simulator'')]) \<and>
   sim_instances demo_env (scaler_converge (\<lambda>ops. ops) (NewScalingGroup ''g'' 1 0) (demo_group ''g'') demo_untagged) ''0'' = None"
  by code_simp

end
