(* ===== verification/Group_Update.thy ===== *)
theory Group_Update
  imports Group_Supervise
begin

text \<open>
  Updates of a group: \<open>pkg/controller/group/rollingupdate.go\<close>, and the plans of the scaler and the
  quorum (\<open>scaler.go\<close>, \<open>quorum.go\<close>, \<open>noopUpdate\<close> of \<open>group.go\<close>). An update runs beside the supervisor
  and waits for ticks; what it receives is a list of events, each with what happened to the world
  meanwhile.
\<close>

section \<open>Which instances are to be replaced\<close>

definition minInt :: "int \<Rightarrow> int \<Rightarrow> int" where
  "minInt a b = (if a < b then a else b)"

definition has_hash :: "string \<Rightarrow> 'p Description \<Rightarrow> bool" where
  "has_hash desiredHash inst = (case gm_get (de_Tags inst) ConfigSHATag of Some actualConfig \<Rightarrow> actualConfig = desiredHash | None \<Rightarrow> False)"

definition desiredAndUndesiredInstances :: "'p Description list \<Rightarrow> ('p, 'w) groupSettings \<Rightarrow> 'p Description list \<times> 'p Description list" where
  "desiredAndUndesiredInstances instances settings = (let desiredHash = config_hash settings in
     fold (\<lambda>inst (desired, undesired). if has_hash desiredHash inst then (desired @ [inst], undesired) else (desired, undesired @ [inst]))
       instances ([], []))"

section \<open>Waiting for health\<close>

record updatingCount =
  uc_healthyTs :: "int option"
  uc_healthyCount :: "int option"

definition noCount :: updatingCount where
  "noCount = \<lparr>uc_healthyTs = None, uc_healthyCount = None\<rparr>"

text \<open>\<open>now\<close> is what \<open>time.Now\<close> returns; durations and times are in nanoseconds.\<close>

definition exceedsHealthyThreshold :: "int \<Rightarrow> Updating \<Rightarrow> int \<Rightarrow> updatingCount \<Rightarrow> bool \<times> updatingCount" where
  "exceedsHealthyThreshold now updating expectedNewInstances counts =
     (if expectedNewInstances \<le> 0 then (True, counts)
      else if 0 < up_Count updating then
        (let count = (case uc_healthyCount counts of None \<Rightarrow> 1 | Some c \<Rightarrow> wrap64 (c + 1)) in
         (\<not> count < up_Count updating, counts\<lparr>uc_healthyCount := Some count\<rparr>))
      else if 0 < up_Duration updating then
        (case uc_healthyTs counts of
           None \<Rightarrow> (False, counts\<lparr>uc_healthyTs := Some now\<rparr>)
         | Some ts \<Rightarrow> (up_Duration updating \<le> now - ts, counts))
      else (True, counts))"

record ('p, 'w) rollingupdate =
  ru_desc :: string
  ru_updatingFrom :: "('p, 'w) groupSettings"
  ru_updatingTo :: "('p, 'w) groupSettings"

text \<open>A tick comes at a time, after a change of the world; \<open>Stop\<close> closes the channel.\<close>

datatype 'w upd_event = U_Tick int "'w \<Rightarrow> 'w" | U_Stop

datatype upd_result = U_Waiting | U_Failed string | U_Done

fun count_healthy :: "('p, 'w) scaledGroup \<Rightarrow> 'p Description list \<Rightarrow> 'w \<Rightarrow> int \<Rightarrow> int \<times> 'w" where
  "count_healthy s [] w numHealthy = (numHealthy, w)"
| "count_healthy s (inst # matching) w numHealthy = (case scaled_Health inst s w of
     (Healthy, w) \<Rightarrow> count_healthy s matching w (numHealthy + 1)
   | (_, w) \<Rightarrow> count_healthy s matching w numHealthy)"

text \<open>The result, the events not yet received, and the world; \<open>U_Waiting\<close> when no event is left.\<close>

fun waitUntilQuiesced :: "('p, 'w) rollingupdate \<Rightarrow> ('p, 'w) scaledGroup \<Rightarrow> Updating \<Rightarrow> int \<Rightarrow> 'w upd_event list \<Rightarrow> updatingCount \<Rightarrow> 'w \<Rightarrow>
    upd_result \<times> 'w upd_event list \<times> 'w" where
  "waitUntilQuiesced r s updating expectedNewInstances [] counts w = (U_Waiting, [], w)"
| "waitUntilQuiesced r s updating expectedNewInstances (U_Stop # evs) counts w = (U_Failed ''Update halted by user'', evs, w)"
| "waitUntilQuiesced r s updating expectedNewInstances (U_Tick now f # evs) counts w = (case labelAndList s (f w) of
     (Inl err, w) \<Rightarrow> (U_Failed err, evs, w)
   | (Inr instances, w) \<Rightarrow>
       (case count_healthy s (fst (desiredAndUndesiredInstances instances (ru_updatingTo r))) w 0 of (numHealthy, w) \<Rightarrow>
         if expectedNewInstances \<le> numHealthy then
           (case exceedsHealthyThreshold now updating expectedNewInstances counts of (exceeds, counts) \<Rightarrow>
             if exceeds then (U_Done, evs, w)
             else waitUntilQuiesced r s updating expectedNewInstances evs counts w)
         else waitUntilQuiesced r s updating expectedNewInstances evs noCount w))"

section \<open>Replacing one instance at a time\<close>

definition desired_size :: "('p, 'w) rollingupdate \<Rightarrow> int" where
  "desired_size r = (let al = gs_Allocation (gset_config (ru_updatingTo r)); desiredSize = int (length (al_LogicalIDs al)) in
     if desiredSize = 0 then wrap64 (int (al_Size al)) else desiredSize)"

lemma wait_consumes:
  "waitUntilQuiesced r s updating n evs counts w = (res, evs', w') \<Longrightarrow> evs' = [] \<or> length evs' < length evs"
  by (induction r s updating n evs counts w rule: waitUntilQuiesced.induct)
    (fastforce split: prod.splits sum.splits if_splits simp: Let_def)+

lemma wait_done_consumes:
  "waitUntilQuiesced r s updating n evs counts w = (U_Done, evs', w') \<Longrightarrow> length evs' < length evs"
  by (cases evs) (use wait_consumes in fastforce)+

function rolling_loop :: "('p, 'w) rollingupdate \<Rightarrow> ('p, 'w) scaledGroup \<Rightarrow> Updating \<Rightarrow> int \<Rightarrow> 'w upd_event list \<Rightarrow> 'w \<Rightarrow> upd_result \<times> 'w" where
  "rolling_loop r s updating expectedNewInstances evs w =
     (case waitUntilQuiesced r s updating (minInt expectedNewInstances (desired_size r)) evs noCount w of
        (U_Waiting, _, w) \<Rightarrow> (U_Waiting, w)
      | (U_Failed err, _, w) \<Rightarrow> (U_Failed err, w)
      | (U_Done, evs, w) \<Rightarrow> (case labelAndList s w of
          (Inl err, w) \<Rightarrow> (U_Failed err, w)
        | (Inr instances, w) \<Rightarrow>
            (case go_sort (sortByID_Less (Some (ru_updatingFrom r))) (snd (desiredAndUndesiredInstances instances (ru_updatingTo r))) of
               [] \<Rightarrow> (U_Done, w)
             | first # _ \<Rightarrow> (case scaled_Destroy first RollingUpdate s w of
                 (Some err, w) \<Rightarrow> (U_Failed err, w)
               | (None, w) \<Rightarrow>
                   if isSelf first (ru_updatingFrom r) then (U_Done, w)
                   else rolling_loop r s updating (expectedNewInstances + 1) evs w))))"
  by pat_completeness auto

termination
  by (relation "measure (\<lambda>(r, s, updating, n, evs, w). length evs)") (simp_all, metis wait_done_consumes)

declare rolling_loop.simps [simp del]

text \<open>One turn of the loop.\<close>

lemma rolling_loop_cases:
  assumes "rolling_loop r s updating n evs w = (res, w')"
  obtains (1) evs1 where "waitUntilQuiesced r s updating (minInt n (desired_size r)) evs noCount w = (res, evs1, w')" "res \<noteq> U_Done"
  | (2) evs1 w1 err where "waitUntilQuiesced r s updating (minInt n (desired_size r)) evs noCount w = (U_Done, evs1, w1)"
      "labelAndList s w1 = (Inl err, w')" "res = U_Failed err"
  | (3) evs1 w1 ds where "waitUntilQuiesced r s updating (minInt n (desired_size r)) evs noCount w = (U_Done, evs1, w1)"
      "labelAndList s w1 = (Inr ds, w')" "snd (desiredAndUndesiredInstances ds (ru_updatingTo r)) = []" "res = U_Done"
  | (4) evs1 w1 ds w2 first rest err where "waitUntilQuiesced r s updating (minInt n (desired_size r)) evs noCount w = (U_Done, evs1, w1)"
      "labelAndList s w1 = (Inr ds, w2)"
      "go_sort (sortByID_Less (Some (ru_updatingFrom r))) (snd (desiredAndUndesiredInstances ds (ru_updatingTo r))) = first # rest"
      "scaled_Destroy first RollingUpdate s w2 = (err, w')" "res = U_Done \<longrightarrow> isSelf first (ru_updatingFrom r)"
  | (5) evs1 w1 ds w2 first rest w3 where "waitUntilQuiesced r s updating (minInt n (desired_size r)) evs noCount w = (U_Done, evs1, w1)"
      "labelAndList s w1 = (Inr ds, w2)"
      "go_sort (sortByID_Less (Some (ru_updatingFrom r))) (snd (desiredAndUndesiredInstances ds (ru_updatingTo r))) = first # rest"
      "scaled_Destroy first RollingUpdate s w2 = (None, w3)" "rolling_loop r s updating (n + 1) evs1 w3 = (res, w')"
proof -
  obtain r1 evs1 w1 where wait: "waitUntilQuiesced r s updating (minInt n (desired_size r)) evs noCount w = (r1, evs1, w1)" using prod_cases3 by blast
  obtain r2 w2 where l: "labelAndList s w1 = (r2, w2)" by fastforce
  show thesis
  proof (cases "r1 = U_Done")
    case False
    then show thesis using assms wait that(1) by (cases r1) (auto simp: rolling_loop.simps)
  next
    case dn: True
    show thesis
    proof (cases r2)
      case (Inl err)
      then show thesis using assms wait l dn that(2) by (auto simp: rolling_loop.simps)
    next
      case (Inr ds)
      show thesis
      proof (cases "go_sort (sortByID_Less (Some (ru_updatingFrom r))) (snd (desiredAndUndesiredInstances ds (ru_updatingTo r)))")
        case Nil
        then have "snd (desiredAndUndesiredInstances ds (ru_updatingTo r)) = []" by (metis length_0_conv length_go_sort)
        then show thesis using assms wait l dn Inr Nil that(3) by (auto simp: rolling_loop.simps)
      next
        case (Cons first rest)
        obtain e w3 where d: "scaled_Destroy first RollingUpdate s w2 = (e, w3)" by fastforce
        have eq: "(res, w') = (case e of Some err \<Rightarrow> (U_Failed err, w3)
          | None \<Rightarrow> if isSelf first (ru_updatingFrom r) then (U_Done, w3) else rolling_loop r s updating (n + 1) evs1 w3)"
          using assms wait l dn Inr Cons d by (subst (asm) rolling_loop.simps) (simp split: option.splits)
        show thesis using eq wait l dn Inr Cons d that(4,5) by (auto split: option.splits if_splits)
      qed
    qed
  qed
qed

definition rolling_Run :: "('p, 'w) rollingupdate \<Rightarrow> ('p, 'w) scaledGroup \<Rightarrow> Updating \<Rightarrow> 'w upd_event list \<Rightarrow> 'w \<Rightarrow> upd_result \<times> 'w" where
  "rolling_Run r s updating evs w = (case labelAndList s w of
     (Inl err, w) \<Rightarrow> (U_Failed err, w)
   | (Inr instances, w) \<Rightarrow>
       rolling_loop r s updating (int (length (fst (desiredAndUndesiredInstances instances (ru_updatingTo r))))) evs w)"

section \<open>Plans\<close>

text \<open>
  \<open>updatePlan\<close> of \<open>group.go\<close>: \<open>noopUpdate\<close>, a rolling update, and \<open>scalerUpdatePlan\<close> (its description,
  original and new size, and the rolling update inside). The scaler of a plan is its supervisor.
\<close>

datatype ('p, 'w) updatePlan =
    NoopUpdate
  | RollingPlan "('p, 'w) rollingupdate"
  | ScalerUpdatePlan (sup_desc: string) (sup_originalSize: nat) (sup_newSize: nat) (sup_rollingPlan: "('p, 'w) rollingupdate")

fun Explain :: "('p, 'w) updatePlan \<Rightarrow> string" where
  "Explain NoopUpdate = ''Noop''"
| "Explain (RollingPlan r) = ru_desc r"
| "Explain (ScalerUpdatePlan desc _ _ _) = desc"

definition scaler_desc :: "int \<Rightarrow> nat \<Rightarrow> nat \<Rightarrow> nat \<Rightarrow> string" where
  "scaler_desc sizeChange newSize desired undesired =
     (if sizeChange = 0 then ''Performing a rolling update on '' @ show_nat undesired @ '' instances''
      else if sizeChange < 0 then
        (let rollCount = wrap64 (wrap64 (int newSize) - int desired); rollCount = (if rollCount < 0 then 0 else rollCount) in
         if rollCount = 0 then
           ''Terminating '' @ show_int (wrap64 (sizeChange * - 1)) @ '' instances to reduce the group size to '' @ show_nat newSize
         else
           ''Terminating '' @ show_int (wrap64 (sizeChange * - 1)) @ '' instances to reduce the group size to '' @ show_nat newSize @
           '', then performing a rolling update on '' @ show_int rollCount @ '' instances'')
      else if undesired = 0 then
        ''Adding '' @ show_int sizeChange @ '' instances to increase the group size to '' @ show_nat newSize
      else
        ''Performing a rolling update on '' @ show_nat undesired @ '' instances, then adding '' @ show_int sizeChange @
        '' instances to increase the group size to '' @ show_nat newSize)"

definition scaler_PlanUpdate :: "('p, 'w) scaledGroup \<Rightarrow> ('p, 'w) groupSettings \<Rightarrow> ('p, 'w) groupSettings \<Rightarrow> 'w \<Rightarrow> (string + ('p, 'w) updatePlan) \<times> 'w" where
  "scaler_PlanUpdate s settings newSettings w = (let
     newSize = al_Size (gs_Allocation (gset_config newSettings));
     size = al_Size (gs_Allocation (gset_config settings));
     sizeChange = wrap64 (wrap64 (int newSize) - wrap64 (int size))
   in case labelAndList s w of
        (Inl err, w) \<Rightarrow> (Inl err, w)
      | (Inr instances, w) \<Rightarrow> (case desiredAndUndesiredInstances instances newSettings of (desired, undesired) \<Rightarrow>
          if sizeChange = 0 \<and> length undesired = 0 then (Inr NoopUpdate, w)
          else (Inr (ScalerUpdatePlan (scaler_desc sizeChange newSize (length desired) (length undesired)) size newSize
                 \<lparr>ru_desc = [], ru_updatingFrom = settings, ru_updatingTo = newSettings\<rparr>), w)))"

definition quorum_PlanUpdate :: "('p, 'w) scaledGroup \<Rightarrow> ('p, 'w) groupSettings \<Rightarrow> ('p, 'w) groupSettings \<Rightarrow> 'w \<Rightarrow> (string + ('p, 'w) updatePlan) \<times> 'w" where
  "quorum_PlanUpdate s settings newSettings w =
     (if al_LogicalIDs (gs_Allocation (gset_config settings)) \<noteq> al_LogicalIDs (gs_Allocation (gset_config newSettings))
      then (Inl ''Logical ID changes to a quorum is not currently supported'', w)
      else (case labelAndList s w of
          (Inl err, w) \<Rightarrow> (Inl err, w)
        | (Inr instances, w) \<Rightarrow> (let undesired = snd (desiredAndUndesiredInstances instances newSettings) in
            if length undesired = 0 then (Inr NoopUpdate, w)
            else (Inr (RollingPlan \<lparr>ru_desc = ''Performing a rolling update on '' @ show_nat (length undesired) @ '' instances'',
                   ru_updatingFrom = settings, ru_updatingTo = newSettings\<rparr>), w))))"

text \<open>A plan runs beside its supervisor; the scaler's own rounds are among the changes of the world.\<close>

fun plan_Run :: "('p, 'w) updatePlan \<Rightarrow> ('p, 'w) scaledGroup \<Rightarrow> Updating \<Rightarrow> 'w upd_event list \<Rightarrow> scaler \<Rightarrow> 'w \<Rightarrow> upd_result \<times> scaler \<times> 'w" where
  "plan_Run NoopUpdate s updating evs sc w = (U_Done, sc, w)"
| "plan_Run (RollingPlan r) s updating evs sc w = (case rolling_Run r s updating evs w of (res, w) \<Rightarrow> (res, sc, w))"
| "plan_Run (ScalerUpdatePlan _ originalSize newSize r) s updating evs sc w =
     (let sc = (if newSize < originalSize then scaler_SetSize newSize sc else sc) in
      case rolling_Run r s updating evs w of
        (U_Done, w) \<Rightarrow> (U_Done, if originalSize < newSize then scaler_SetSize newSize sc else sc, w)
      | (res, w) \<Rightarrow> (res, sc, w))"

lemma scaler_plan_sizes:
  assumes "scaler_PlanUpdate s settings newSettings w = (Inr plan, w')" "sc_size sc = al_Size (gs_Allocation (gset_config settings))"
    "al_Size (gs_Allocation (gset_config settings)) < 2 ^ 63" "al_Size (gs_Allocation (gset_config newSettings)) < 2 ^ 63"
    "plan_Run plan s updating evs sc w1 = (res, sc', w2)"
  shows "res = U_Done \<Longrightarrow> sc_size sc' = al_Size (gs_Allocation (gset_config newSettings))"
    "res \<noteq> U_Done \<Longrightarrow> sc_size sc' = min (sc_size sc) (al_Size (gs_Allocation (gset_config newSettings)))"
proof -
  let ?o = "al_Size (gs_Allocation (gset_config settings))" and ?n = "al_Size (gs_Allocation (gset_config newSettings))"
  have w: "wrap64 (int ?n) = int ?n" "wrap64 (int ?o) = int ?o" "wrap64 (int ?n - int ?o) = int ?n - int ?o"
    using assms(3,4) by (auto intro!: wrap64_id)
  consider "plan = NoopUpdate" "?n = ?o" | d r where "plan = ScalerUpdatePlan d ?o ?n r"
    using assms(1) w by (auto simp: scaler_PlanUpdate_def Let_def split: prod.splits sum.splits if_splits)
  then have "(res = U_Done \<longrightarrow> sc_size sc' = ?n) \<and> (res \<noteq> U_Done \<longrightarrow> sc_size sc' = min (sc_size sc) ?n)"
    using assms(2,5) by cases (auto simp: scaler_SetSize_def Let_def split: prod.splits upd_result.splits if_splits)
  then show "res = U_Done \<Longrightarrow> sc_size sc' = ?n" "res \<noteq> U_Done \<Longrightarrow> sc_size sc' = min (sc_size sc) ?n" by simp_all
qed

section \<open>How long it waits\<close>

text \<open>What the polls find: whether enough instances with the new configuration are healthy, up to a stop or an error.\<close>

fun health_log :: "('p, 'w) rollingupdate \<Rightarrow> ('p, 'w) scaledGroup \<Rightarrow> int \<Rightarrow> 'w upd_event list \<Rightarrow> 'w \<Rightarrow> bool list" where
  "health_log r s n [] w = []"
| "health_log r s n (U_Stop # evs) w = []"
| "health_log r s n (U_Tick now f # evs) w = (case labelAndList s (f w) of
     (Inl err, w) \<Rightarrow> []
   | (Inr instances, w) \<Rightarrow>
       (case count_healthy s (fst (desiredAndUndesiredInstances instances (ru_updatingTo r))) w 0 of (numHealthy, w) \<Rightarrow>
         (n \<le> numHealthy) # health_log r s n evs w))"

text \<open>The last \<open>c\<close> polls were good.\<close>

definition ends_healthy :: "nat \<Rightarrow> bool list \<Rightarrow> bool" where
  "ends_healthy c bs \<longleftrightarrow> c \<le> length bs \<and> list_all id (drop (length bs - c) bs)"

lemma ends_healthy_bad: "0 < c \<Longrightarrow> ends_healthy c (ys @ False # xs) \<longleftrightarrow> ends_healthy c xs"
proof -
  assume "0 < c"
  show ?thesis
  proof (cases "c \<le> length xs")
    case True
    then have "drop (length (ys @ False # xs) - c) (ys @ False # xs) = drop (length xs - c) xs" by (simp add: Suc_diff_le)
    with True show ?thesis by (simp only: ends_healthy_def) simp
  next
    case False
    have "False \<in> set (drop (length (ys @ False # xs) - c) (ys @ False # xs))" using False
      by (auto simp: not_le drop_Cons' Suc_le_eq split: if_splits)
    then show ?thesis using False by (auto simp only: ends_healthy_def list_all_iff id_def)
  qed
qed

lemma ends_healthy_short: "j < c \<Longrightarrow> \<not> ends_healthy c (replicate j True)"
  by (simp add: ends_healthy_def)

lemma ends_healthy_full: "ends_healthy c (replicate c True)"
  by (simp add: ends_healthy_def list_all_iff)

lemma replicate_shift: "replicate j x @ x # xs = replicate (Suc j) x @ xs"
  by (simp add: replicate_app_Cons_same)

text \<open>\<open>j\<close> good polls in a row so far.\<close>

definition counted :: "nat \<Rightarrow> updatingCount \<Rightarrow> bool" where
  "counted j counts \<longleftrightarrow> uc_healthyCount counts = (if j = 0 then None else Some (int j))"

lemma exceeds_count:
  assumes "0 < n" "up_Count updating = int c" "0 < c" "c < 2 ^ 63" "counted j counts" "j < c"
  shows "fst (exceedsHealthyThreshold now updating n counts) \<longleftrightarrow> Suc j = c" "counted (Suc j) (snd (exceedsHealthyThreshold now updating n counts))"
proof -
  have "int j + 1 < 2 ^ 63" using assms(4,6) by simp
  then have "wrap64 (int j + 1) = int j + 1" by (intro wrap64_id) simp_all
  then show "fst (exceedsHealthyThreshold now updating n counts) \<longleftrightarrow> Suc j = c" "counted (Suc j) (snd (exceedsHealthyThreshold now updating n counts))"
    using assms by (auto simp: exceedsHealthyThreshold_def counted_def Let_def split: if_splits)
qed

text \<open>
  With \<open>j\<close> good polls in a row behind it, a wait of \<open>c\<close> polls ends, after the first \<open>k\<close> events, with
  the first run of \<open>c\<close> good ones; if it did not end, there was no such run.
\<close>

definition quiesces :: "nat \<Rightarrow> nat \<Rightarrow> upd_result \<Rightarrow> 'e list \<Rightarrow> 'e list \<Rightarrow> bool list \<Rightarrow> bool" where
  "quiesces c j res evs evs' log \<longleftrightarrow>
     (if res = U_Done then \<exists>k \<le> length log. evs' = drop k evs \<and> ends_healthy c (replicate j True @ take k log) \<and>
        (\<forall>k' < k. \<not> ends_healthy c (replicate j True @ take k' log))
      else \<forall>k' \<le> length log. \<not> ends_healthy c (replicate j True @ take k' log))"

lemma quiesces_step:
  assumes IH: "quiesces c j' res evs evs' log" and zero: "\<not> ends_healthy c (replicate j True)"
    and eq: "\<forall>xs. ends_healthy c (replicate j True @ b # xs) = ends_healthy c (replicate j' True @ xs)"
  shows "quiesces c j res (ev # evs) evs' (b # log)"
proof (cases "res = U_Done")
  case True
  with IH obtain k where k: "k \<le> length log" "evs' = drop k evs" "ends_healthy c (replicate j' True @ take k log)"
    "\<forall>k' < k. \<not> ends_healthy c (replicate j' True @ take k' log)" by (auto simp: quiesces_def)
  then have "\<forall>k' < Suc k. \<not> ends_healthy c (replicate j True @ take k' (b # log))"
    using zero eq by (auto simp: less_Suc_eq_0_disj)
  then show ?thesis unfolding quiesces_def if_P [OF True] by (intro exI [of _ "Suc k"]) (use k eq in simp)
next
  case False
  then have "\<not> ends_healthy c (replicate j True @ take k' (b # log))" if "k' \<le> Suc (length log)" for k'
    using that zero eq IH by (cases k') (auto simp: quiesces_def)
  then show ?thesis using False by (simp add: quiesces_def)
qed

lemma wait_counts:
  assumes n: "0 < n" and c: "up_Count updating = int c" "0 < c" "c < 2 ^ 63" and "counted j counts" "j < c"
    and "waitUntilQuiesced r s updating n evs counts w = (res, evs', w')"
  shows "quiesces c j res evs evs' (health_log r s n evs w)"
  using assms(5-7)
proof (induction evs arbitrary: j counts w)
  case (Cons ev evs)
  show ?case
  proof (cases ev)
    case (U_Tick now f)
    obtain r1 w1 where l: "labelAndList s (f w) = (r1, w1)" by fastforce
    show ?thesis
    proof (cases r1)
      case (Inl e)
      then show ?thesis using Cons.prems by (auto simp: quiesces_def U_Tick l ends_healthy_short)
    next
      case (Inr ds)
      obtain m w2 where h: "count_healthy s (fst (desiredAndUndesiredInstances ds (ru_updatingTo r))) w1 0 = (m, w2)" by fastforce
      have log: "health_log r s n (ev # evs) w = (n \<le> m) # health_log r s n evs w2" by (simp add: U_Tick l Inr h)
      note zero = ends_healthy_short [OF Cons.prems(2)]
      obtain b counts' where e: "exceedsHealthyThreshold now updating n counts = (b, counts')" by fastforce
      note E = exceeds_count [OF n c Cons.prems(1,2), of now, unfolded e, simplified]
      consider "\<not> n \<le> m" | "n \<le> m" "Suc j = c" | "n \<le> m" "Suc j < c" using Cons.prems(2) by linarith
      then show ?thesis
      proof cases
        case 1
        then have "waitUntilQuiesced r s updating n evs noCount w2 = (res, evs', w')" using Cons.prems(3) by (simp add: U_Tick l Inr h)
        moreover have "counted 0 noCount" by (simp add: counted_def noCount_def)
        ultimately show ?thesis unfolding log using Cons.IH [of 0 noCount w2] c(2) 1 zero by (intro quiesces_step [where j' = 0]) (simp_all add: ends_healthy_bad)
      next
        case 2
        then have "res = U_Done" "evs' = evs" using Cons.prems(3) E by (simp_all add: U_Tick l Inr h e)
        then show ?thesis unfolding log quiesces_def using 2 zero ends_healthy_full [of c]
          by (auto intro!: exI [of _ "1 :: nat"] simp: replicate_append_same less_Suc_eq)
      next
        case 3
        then have "waitUntilQuiesced r s updating n evs counts' w2 = (res, evs', w')" using Cons.prems(3) E by (simp add: U_Tick l Inr h e)
        then show ?thesis unfolding log using Cons.IH [of "Suc j" counts' w2] E(2) 3 zero
          by (intro quiesces_step [where j' = "Suc j"]) (simp_all add: replicate_shift del: replicate_Suc)
      qed
    qed
  qed (use Cons.prems in \<open>auto simp: quiesces_def ends_healthy_short\<close>)
qed (simp add: quiesces_def ends_healthy_short)

section \<open>What an update leaves alone, and what it achieves\<close>

lemma desiredAndUndesired_filter:
  fixes instances :: "'p Description list"
  shows "desiredAndUndesiredInstances instances settings =
     (filter (has_hash (config_hash settings)) instances, filter (\<lambda>d. \<not> has_hash (config_hash settings) d) instances)"
proof -
  let ?h = "has_hash (config_hash settings) :: 'p Description \<Rightarrow> bool"
  have "fold (\<lambda>inst (desired, undesired). if ?h inst then (desired @ [inst], undesired) else (desired, undesired @ [inst])) xs (a, b) =
    (a @ filter ?h xs, b @ filter (\<lambda>d. \<not> ?h d) xs)" for xs a b
    by (induction xs arbitrary: a b) auto
  then show ?thesis by (simp add: desiredAndUndesiredInstances_def Let_def)
qed

text \<open>The controller's own instance, by its logical id.\<close>

definition self_entry :: "LogicalID option \<Rightarrow> LogicalID option \<times> tags \<Rightarrow> bool" where
  "self_entry self e \<longleftrightarrow> (\<exists>l. self = Some l \<and> (logical_of e = Some l \<or> gm_get (snd e) LogicalIDTag = Some l))"

lemma isSelf_normalize: "isSelf (normalize d) st \<longleftrightarrow> self_entry (gset_self st) (de_LogicalID d, de_Tags d)"
  by (auto simp: isSelf_def self_entry_def normalize_def logical_of_def split: option.splits)

lemma has_hash_normalize: "has_hash h (normalize d) \<longleftrightarrow> gm_get (de_Tags d) ConfigSHATag = Some h"
  by (auto simp: has_hash_def normalize_def split: option.splits)

lemma self_entry_cong: "ids_of e = ids_of e' \<Longrightarrow> self_entry self e = self_entry self e'"
  using logical_cong [of e e'] by (simp add: self_entry_def ids_of_def)

text \<open>Who is safe from an update to the hash \<open>h\<close>: outsiders, members with that hash, and the controller itself.\<close>

definition protected :: "string \<Rightarrow> string \<Rightarrow> LogicalID option \<Rightarrow> (LogicalID option \<times> tags) option \<Rightarrow> bool" where
  "protected gid h self x \<longleftrightarrow> (\<exists>e. x = Some e \<and> (gm_get (snd e) GroupTag \<noteq> Some gid \<or> gm_get (snd e) ConfigSHATag = Some h \<or> self_entry self e))"

lemma label_frame_protected:
  assumes "label_frame gid h iv iv'" "protected gid h self (iv iid)"
  shows "protected gid h self (iv' iid)"
proof -
  obtain e where e: "iv iid = Some e" "gm_get (snd e) GroupTag \<noteq> Some gid \<or> gm_get (snd e) ConfigSHATag = Some h \<or> self_entry self e"
    using assms(2) by (auto simp: protected_def)
  have f: "iid \<notin> group_ids gid iv \<longrightarrow> iv' iid = iv iid" "map_option ids_of (iv' iid) = map_option ids_of (iv iid)"
    "hash_of (iv' iid) = hash_of (iv iid) \<or> hash_of (iv' iid) = Some h" using assms(1) by (auto simp: label_frame_def)
  obtain e' where e': "iv' iid = Some e'" "ids_of e' = ids_of e" using f(2) e(1) by auto
  show ?thesis
  proof (cases "gm_get (snd e) GroupTag = Some gid")
    case True
    then show ?thesis using e e' f(3) self_entry_cong [OF e'(2)] by (auto simp: protected_def hash_of_def)
  next
    case False
    then have "iid \<notin> group_ids gid iv" using e(1) by (cases e) (simp add: group_ids_def group_member_def)
    then show ?thesis using f(1) assms(2) by simp
  qed
qed

context group_env
begin

abbreviation tohash :: string where "tohash \<equiv> config_hash (sg_settings s)"

abbreviation itself :: "LogicalID option" where "itself \<equiv> gset_self (sg_settings s)"

lemma count_healthy_frame: "wf w \<Longrightarrow> count_healthy s ds w n = (m, w') \<Longrightarrow> wf w' \<and> inst w' = inst w"
proof (induction ds arbitrary: w n)
  case (Cons d ds)
  obtain h w1 where h: "scaled_Health d s w = (h, w1)" by fastforce
  have "wf w1 \<and> inst w1 = inst w" using h Cons.prems(1)
    by (auto simp: scaled_Health_def Let_def split: prod.splits sum.splits dest: health_frame)
  then show ?case using Cons.IH [of w1] Cons.prems(2) h by (cases h) auto
qed simp

text \<open>What holds of the world through a wait: anything that labels and the environment keep.\<close>

lemma wait_keeps:
  assumes J: "\<And>w w'. J (inst w) \<Longrightarrow> label_frame gid tohash (inst w) (inst w') \<Longrightarrow> J (inst w')"
    and "wf w" "J (inst w)" "\<forall>now f. U_Tick now f \<in> set evs \<longrightarrow> (\<forall>w. wf w \<and> J (inst w) \<longrightarrow> wf (f w) \<and> J (inst (f w)))"
    and "waitUntilQuiesced r s updating n evs counts w = (res, evs', w')"
  shows "wf w' \<and> J (inst w') \<and> set evs' \<subseteq> set evs"
  using assms(2-)
proof (induction evs arbitrary: counts w)
  case (Cons ev evs)
  show ?case
  proof (cases ev)
    case (U_Tick now f)
    obtain r1 w1 where l: "labelAndList s (f w) = (r1, w1)" by fastforce
    have f: "wf (f w)" "J (inst (f w))" using Cons.prems(1,2,3) by (auto simp: U_Tick)
    have w1: "wf w1" "J (inst w1)" using labelAndList_effect [OF f(1) l] J [OF f(2)] by auto
    show ?thesis
    proof (cases r1)
      case (Inl e)
      then show ?thesis using Cons.prems(4) w1 by (auto simp: U_Tick l)
    next
      case (Inr instances)
      obtain m w2 where c: "count_healthy s (fst (desiredAndUndesiredInstances instances (ru_updatingTo r))) w1 0 = (m, w2)" by fastforce
      have w2: "wf w2" "J (inst w2)" using count_healthy_frame [OF w1(1) c] w1(2) by auto
      have IH: "waitUntilQuiesced r s updating n evs c w2 = (res, evs', w') \<Longrightarrow> wf w' \<and> J (inst w') \<and> set evs' \<subseteq> set evs" for c
        using Cons.IH [OF w2] Cons.prems(3) by auto
      then show ?thesis using Cons.prems(4) w2 by (auto simp: U_Tick l Inr c split: if_splits prod.splits)
    qed
  qed (use Cons.prems in auto)
qed auto

text \<open>The instances an update finds, one by one.\<close>

lemma listed_entry:
  assumes "wf w" "labelAndList s w = (Inr ds, w')" "d \<in> set ds"
  shows "\<exists>e. inst w' (de_ID d) = Some e \<and> gm_get (snd e) GroupTag = Some gid \<and>
    (has_hash h d \<longleftrightarrow> gm_get (snd e) ConfigSHATag = Some h) \<and> (isSelf d st \<longleftrightarrow> self_entry (gset_self st) e)"
proof -
  obtain found where f: "described (inst w') (sg_memberTags s) found" "ds = map normalize found" using labelAndList_effect [OF assms(1,2)] by auto
  obtain d0 where d0: "d0 \<in> set found" "d = normalize d0" using assms(3) f(2) by auto
  then have "inst w' (de_ID d0) = Some (de_LogicalID d0, de_Tags d0)" "gm_get (de_Tags d0) GroupTag = Some gid"
    using f(1) by (auto simp: described_def tags_match_group)
  then show ?thesis unfolding d0(2) by (simp add: isSelf_normalize has_hash_normalize)
qed

lemma listed_members:
  assumes "wf w" "labelAndList s w = (Inr ds, w')" "iid \<in> group_ids gid (inst w')"
  shows "\<exists>d \<in> set ds. de_ID d = iid"
proof -
  have "group_ids gid (inst w') = group_ids gid (inst w)" using labelAndList_effect [OF assms(1,2)] by (simp add: label_frame_def)
  then have "iid \<in> set (map de_ID ds)" using labelAndList_ids [OF assms(1,2)] assms(3) by simp
  then show ?thesis by auto
qed

lemma destroy_rolling:
  assumes "wf w" "scaled_Destroy d RollingUpdate s w = (r, w')"
  shows "wf w' \<and> (inst w' = inst w \<or> \<not> isSelf d (sg_settings s) \<and> inst w' = (inst w)(de_ID d := None))"
proof (cases "isSelf d (sg_settings s)")
  case True
  obtain rr w1 where d: "drain d RollingUpdate s w = (rr, w1)" by fastforce
  then show ?thesis using assms True drain_effect [OF assms(1) d] by (auto simp: scaled_Destroy_def split: option.splits)
qed (use destroy_effect(1) [OF assms] in auto)

lemma first_undesired:
  assumes "go_sort (sortByID_Less st) (snd (desiredAndUndesiredInstances ds to)) = first # rest"
  shows "first \<in> set ds" "\<not> has_hash (config_hash to) first" "self_of st first \<Longrightarrow> \<forall>d \<in> set ds. has_hash (config_hash to) d \<or> self_of st d"
proof -
  let ?und = "filter (\<lambda>d. \<not> has_hash (config_hash to) d) ds"
  have e: "go_sort (sortByID_Less st) ?und = first # rest" using assms by (simp add: desiredAndUndesired_filter)
  then have set: "insert first (set rest) = set ?und" by (metis list.simps(15) set_go_sort)
  then show "first \<in> set ds" "\<not> has_hash (config_hash to) first" by auto
  show "\<forall>d \<in> set ds. has_hash (config_hash to) d \<or> self_of st d" if self: "self_of st first"
  proof
    fix d assume d: "d \<in> set ds"
    have "sort_key st first \<le> sort_key st d" if "d \<in> set rest"
      using byID.sorted_go_sort [of st ?und] that unfolding e by simp
    then have "self_of st d" if "d \<in> set rest" using that self by (auto simp: sort_key_def less_eq_prod_def)
    moreover have "has_hash (config_hash to) d \<or> d \<in> insert first (set rest)" unfolding set using d by simp
    ultimately show "has_hash (config_hash to) d \<or> self_of st d" using self by auto
  qed
qed

end

text \<open>The hypotheses under which \<open>CommitGroup\<close> runs an update: the group already has the new settings.\<close>

definition update_of :: "('p, 'w) rollingupdate \<Rightarrow> ('p, 'w) scaledGroup \<Rightarrow> bool" where
  "update_of r s \<longleftrightarrow> config_hash (ru_updatingTo r) = config_hash (sg_settings s) \<and> gset_self (ru_updatingFrom r) = gset_self (sg_settings s)"

text \<open>Every member has the new configuration, the controller's own instance apart.\<close>

definition updated :: "string \<Rightarrow> string \<Rightarrow> LogicalID option \<Rightarrow> inventory \<Rightarrow> bool" where
  "updated gid h self iv \<longleftrightarrow> (\<forall>iid \<in> group_ids gid iv. hash_of (iv iid) = Some h \<or> (\<exists>e. iv iid = Some e \<and> self_entry self e))"

context group_env
begin

lemma destroy_keeps:
  assumes "update_of r s" "wf w" "labelAndList s w = (Inr ds, w1)"
    "go_sort (sortByID_Less (Some (ru_updatingFrom r))) (snd (desiredAndUndesiredInstances ds (ru_updatingTo r))) = first # rest"
    "scaled_Destroy first RollingUpdate s w1 = (res, w2)"
  shows "wf w2" "protected gid tohash itself (inst w1 iid) \<Longrightarrow> protected gid tohash itself (inst w2 iid)"
    "isSelf first (ru_updatingFrom r) \<Longrightarrow> inst w2 = inst w1"
proof -
  have w1: "wf w1" using labelAndList_effect [OF assms(2,3)] by simp
  note D = destroy_rolling [OF w1 assms(5)]
  note f = first_undesired [OF assms(4)]
  obtain e where e: "inst w1 (de_ID first) = Some e" "gm_get (snd e) GroupTag = Some gid"
    "has_hash tohash first \<longleftrightarrow> gm_get (snd e) ConfigSHATag = Some tohash" "isSelf first (sg_settings s) \<longleftrightarrow> self_entry itself e"
    using listed_entry [OF assms(2,3) f(1), of tohash "sg_settings s"] by blast
  show "wf w2" using D by simp
  have "\<not> has_hash tohash first" using f(2) assms(1) by (simp add: update_of_def)
  then show "protected gid tohash itself (inst w1 iid) \<Longrightarrow> protected gid tohash itself (inst w2 iid)"
    using D e by (cases "iid = de_ID first") (auto simp: protected_def)
  have "isSelf first (ru_updatingFrom r) = isSelf first (sg_settings s)" using assms(1) by (simp add: isSelf_def update_of_def)
  then show "isSelf first (ru_updatingFrom r) \<Longrightarrow> inst w2 = inst w1" using D by blast
qed

lemma wait_safe:
  assumes "wf w" "protected gid tohash itself (inst w iid)" "\<forall>now f. U_Tick now f \<in> set evs \<longrightarrow> (\<forall>w. wf w \<and> protected gid tohash itself (inst w iid) \<longrightarrow> wf (f w) \<and> protected gid tohash itself (inst (f w) iid))"
    "waitUntilQuiesced r s updating n evs counts w = (res, evs', w')"
  shows "wf w' \<and> protected gid tohash itself (inst w' iid) \<and> set evs' \<subseteq> set evs"
  by (rule wait_keeps [where J = "\<lambda>iv. protected gid tohash itself (iv iid)", OF _ assms]) (rule label_frame_protected)

lemma rolling_loop_safe:
  assumes "update_of r s" "wf w" "protected gid tohash itself (inst w iid)"
    "\<forall>now f. U_Tick now f \<in> set evs \<longrightarrow> (\<forall>w. wf w \<and> protected gid tohash itself (inst w iid) \<longrightarrow> wf (f w) \<and> protected gid tohash itself (inst (f w) iid))"
    "rolling_loop r s updating n evs w = (res, w')"
  shows "wf w' \<and> protected gid tohash itself (inst w' iid)"
  using assms(2-)
proof (induction "length evs" arbitrary: n evs w rule: less_induct)
  case less
  obtain r1 evs1 w1 where wait: "waitUntilQuiesced r s updating (minInt n (desired_size r)) evs noCount w = (r1, evs1, w1)" using prod_cases3 by blast
  note W = wait_safe [OF less.prems(1,2,3) wait]
  obtain r2 w2 where l: "labelAndList s w1 = (r2, w2)" by fastforce
  note L = labelAndList_effect [OF conjunct1 [OF W] l]
  have w2: "wf w2" "protected gid tohash itself (inst w2 iid)" using L label_frame_protected W by blast+
  from less.prems(4) wait show ?case
  proof (cases rule: rolling_loop_cases)
    case (5 evs1' w1' ds w2' first rest w3)
    have len: "length evs1 < length evs" using wait wait_done_consumes [OF 5(1)] 5(1) by simp
    have d: "scaled_Destroy first RollingUpdate s w2 = (None, w3)" "labelAndList s w1 = (Inr ds, w2)"
      "go_sort (sortByID_Less (Some (ru_updatingFrom r))) (snd (desiredAndUndesiredInstances ds (ru_updatingTo r))) = first # rest" using 5 wait l by auto
    note D = destroy_keeps [OF assms(1) conjunct1 [OF W] d(2,3,1)]
    show ?thesis by (rule less.hyps [OF len D(1)]) (use 5 D(2) w2(2) less.prems(3) W wait l in auto)
  next
    case (4 evs1' w1' ds w2' first rest err)
    then have d: "scaled_Destroy first RollingUpdate s w2 = (err, w')" "labelAndList s w1 = (Inr ds, w2)"
      "go_sort (sortByID_Less (Some (ru_updatingFrom r))) (snd (desiredAndUndesiredInstances ds (ru_updatingTo r))) = first # rest" using wait l by auto
    show ?thesis using destroy_keeps [OF assms(1) conjunct1 [OF W] d(2,3,1)] w2(2) by blast
  qed (use W w2 wait l in auto)
qed

lemma updated_list:
  assumes u: "update_of r s" and w: "wf w" and l: "labelAndList s w = (Inr ds, w1)" and i: "inst w2 = inst w1"
    and h: "\<forall>d \<in> set ds. has_hash (config_hash (ru_updatingTo r)) d \<or> isSelf d (ru_updatingFrom r)"
  shows "updated gid tohash itself (inst w2)"
  unfolding updated_def i
proof
  fix iid assume "iid \<in> group_ids gid (inst w1)"
  then obtain d where d: "d \<in> set ds" "de_ID d = iid" using listed_members [OF w l] by blast
  then show "hash_of (inst w1 iid) = Some tohash \<or> (\<exists>e. inst w1 iid = Some e \<and> self_entry itself e)"
    using h u listed_entry [OF w l d(1), of tohash "ru_updatingFrom r"] by (auto simp: update_of_def hash_of_def)
qed

lemma rolling_loop_done:
  assumes "update_of r s" "wf w" "\<forall>now f. U_Tick now f \<in> set evs \<longrightarrow> (\<forall>w. wf w \<longrightarrow> wf (f w))"
    "rolling_loop r s updating n evs w = (U_Done, w')"
  shows "updated gid tohash itself (inst w')"
  using assms(2-)
proof (induction "length evs" arbitrary: n evs w rule: less_induct)
  case less
  obtain r1 evs1 w1 where wait: "waitUntilQuiesced r s updating (minInt n (desired_size r)) evs noCount w = (r1, evs1, w1)" using prod_cases3 by blast
  have W: "wf w1" "set evs1 \<subseteq> set evs" using wait_keeps [where J = "\<lambda>_. True", OF _ less.prems(1) _ _ wait] less.prems(2) by auto
  from less.prems(3) show ?case
  proof (cases rule: rolling_loop_cases)
    case (3 evs1' w1' ds)
    then show ?thesis using updated_list [OF assms(1) W(1), of ds w' w'] wait by (auto simp: desiredAndUndesired_filter filter_empty_conv)
  next
    case (4 evs1' w1' ds w2 first rest err)
    then have e: "labelAndList s w1 = (Inr ds, w2)" "isSelf first (ru_updatingFrom r)" using wait by auto
    have "inst w' = inst w2" using destroy_keeps(3) [OF assms(1) W(1) e(1) 4(3,4) e(2)] .
    moreover have "\<forall>d \<in> set ds. has_hash (config_hash (ru_updatingTo r)) d \<or> isSelf d (ru_updatingFrom r)"
      using first_undesired(3) [OF 4(3)] e(2) by (simp add: self_of_def)
    ultimately show ?thesis by (rule updated_list [OF assms(1) W(1) e(1)])
  next
    case (5 evs1' w1' ds w2 first rest w3)
    have eq: "evs1' = evs1" "w1' = w1" using 5(1) wait by simp_all
    have w3: "wf w3" using destroy_keeps(1) [OF assms(1) W(1) 5(2)[unfolded eq] 5(3,4)] .
    show ?thesis by (rule less.hyps [OF _ w3 _ 5(5) [unfolded eq]]) (use wait_done_consumes [OF 5(1)] eq W(2) less.prems(2) in auto)
  qed auto
qed

lemma rolling_Run_start:
  assumes "wf w" "rolling_Run r s updating evs w = (res, w')"
  obtains (1) err where "res = U_Failed err" "label_frame gid tohash (inst w) (inst w')" "wf w'"
  | (2) n w1 where "wf w1" "label_frame gid tohash (inst w) (inst w1)" "rolling_loop r s updating n evs w1 = (res, w')"
proof -
  obtain r1 w1 where l: "labelAndList s w = (r1, w1)" by fastforce
  have "wf w1" "label_frame gid tohash (inst w) (inst w1)" using labelAndList_effect [OF assms(1) l] by simp_all
  then show thesis using that assms(2) l by (cases r1) (auto simp: rolling_Run_def)
qed

lemma rolling_safe:
  assumes "update_of r s" "wf w" "protected gid tohash itself (inst w iid)"
    "\<forall>now f. U_Tick now f \<in> set evs \<longrightarrow> (\<forall>w. wf w \<and> protected gid tohash itself (inst w iid) \<longrightarrow> wf (f w) \<and> protected gid tohash itself (inst (f w) iid))"
  shows "protected gid tohash itself (inst (snd (rolling_Run r s updating evs w)) iid)"
proof -
  obtain res w' where r: "rolling_Run r s updating evs w = (res, w')" by fastforce
  from assms(2) r show ?thesis
  proof (cases rule: rolling_Run_start)
    case (2 n w1)
    then show ?thesis using rolling_loop_safe [OF assms(1) 2(1) label_frame_protected [OF 2(2) assms(3)] assms(4) 2(3)] r by simp
  qed (use label_frame_protected assms(3) r in auto)
qed

lemma rolling_done:
  assumes "update_of r s" "wf w" "\<forall>now f. U_Tick now f \<in> set evs \<longrightarrow> (\<forall>w. wf w \<longrightarrow> wf (f w))" "rolling_Run r s updating evs w = (U_Done, w')"
  shows "updated gid tohash itself (inst w')"
  using assms(2,4) by (cases rule: rolling_Run_start) (use rolling_loop_done [OF assms(1) _ assms(3)] in auto)

end

end
