(* ===== verification/Group_Controller.thy ===== *)
theory Group_Controller
  imports Group_Update
begin

text \<open>
  The group plugin itself, \<open>pkg/controller/group/group.go\<close>, and the contexts it keeps,
  \<open>pkg/controller/group/state.go\<close>. The goroutines it starts and stops are part of what an operation
  returns. The JSON of a group's properties is of type \<open>'a\<close>; its codec is part of the controller.
\<close>

section \<open>Contexts\<close>

datatype supervisor = Sup_Scaler scaler | Sup_Quorum quorum

fun sup_Size :: "supervisor \<Rightarrow> nat" where
  "sup_Size (Sup_Scaler sc) = sc_size sc"
| "sup_Size (Sup_Quorum q) = quorum_Size q"

fun sup_PlanUpdate :: "supervisor \<Rightarrow> ('p, 'w) scaledGroup \<Rightarrow> ('p, 'w) groupSettings \<Rightarrow> ('p, 'w) groupSettings \<Rightarrow> 'w \<Rightarrow> (string + ('p, 'w) updatePlan) \<times> 'w" where
  "sup_PlanUpdate (Sup_Scaler _) s settings newSettings w = scaler_PlanUpdate s settings newSettings w"
| "sup_PlanUpdate (Sup_Quorum _) s settings newSettings w = quorum_PlanUpdate s settings newSettings w"

record ('p, 'w) groupContext =
  gc_settings :: "('p, 'w) groupSettings"
  gc_supervisor :: supervisor
  gc_scaled :: "('p, 'w) scaledGroup"
  gc_update :: "('p, 'w) updatePlan option"

definition setUpdate :: "('p, 'w) updatePlan option \<Rightarrow> ('p, 'w) groupContext \<Rightarrow> ('p, 'w) groupContext" where
  "setUpdate plan c = c\<lparr>gc_update := plan\<rparr>"

definition is_updating :: "('p, 'w) groupContext \<Rightarrow> bool" where
  "is_updating c \<longleftrightarrow> gc_update c \<noteq> None"

definition changeSettings :: "('p, 'w) groupSettings \<Rightarrow> ('p, 'w) groupContext \<Rightarrow> ('p, 'w) groupContext" where
  "changeSettings settings c = c\<lparr>gc_settings := settings, gc_scaled := scaled_changeSettings settings (gc_scaled c)\<rparr>"

text \<open>What an operation does to goroutines: it starts or stops the one of a supervisor or of a plan.\<close>

datatype ('p, 'w) go_effect =
    Go_Supervisor string
  | Stop_Supervisor string
  | Go_Update string "('p, 'w) updatePlan" Updating
  | Stop_Update string "('p, 'w) updatePlan"

definition stopUpdating :: "string \<Rightarrow> ('p, 'w) groupContext \<Rightarrow> ('p, 'w) groupContext \<times> ('p, 'w) go_effect list" where
  "stopUpdating gid c = (case gc_update c of
     None \<Rightarrow> (c, [])
   | Some plan \<Rightarrow> (c\<lparr>gc_update := None\<rparr>, [Stop_Update gid plan]))"

text \<open>\<open>groups\<close>: a map of contexts. The lookups and deletions are those of the map.\<close>

definition groups_put :: "string \<Rightarrow> 'c \<Rightarrow> (string, 'c) gomap \<Rightarrow> (string, 'c) gomap outcome" where
  "groups_put gid context byID = (if gm_has byID gid then Panics else Ret (gm_put gid context byID))"

fun groups_forEach :: "(string \<Rightarrow> 'c \<Rightarrow> 'acc \<Rightarrow> string + 'acc) \<Rightarrow> (string, 'c) gomap \<Rightarrow> 'acc \<Rightarrow> string option \<times> 'acc" where
  "groups_forEach fn [] acc = (None, acc)"
| "groups_forEach fn ((gid, ctx) # byID) acc = (case fn gid ctx acc of
     Inl err \<Rightarrow> (Some err, acc)
   | Inr acc \<Rightarrow> groups_forEach fn byID acc)"

section \<open>The controller\<close>

record 'a GroupConfig =
  cf_ID :: string
  cf_Properties :: "'a option"

record ('a, 'p, 'w) gController =
  ct_self :: "LogicalID option"
  ct_instancePlugins :: "string \<Rightarrow> string + ('p, 'w) instance_plugin"
  ct_flavorPlugins :: "string \<Rightarrow> string + ('p, 'w) flavor_plugin"
  ct_maxParallelNum :: nat
  ct_decode :: "'a \<Rightarrow> string + 'p GroupSpec"
  ct_encode :: "'p GroupSpec \<Rightarrow> string + 'a"
  ct_zeroSpec :: "'p GroupSpec"
  ct_digest :: "'p PluginSpec \<times> 'p PluginSpec \<Rightarrow> string"
  ct_groups :: "(string, ('p, 'w) groupContext) gomap"

text \<open>The options \<open>Self\<close> and \<open>MaxParallelNum\<close> are the ones an operation depends on.\<close>

definition NewGroupPlugin :: "(string \<Rightarrow> string + ('p, 'w) instance_plugin) \<Rightarrow> (string \<Rightarrow> string + ('p, 'w) flavor_plugin) \<Rightarrow> LogicalID option \<Rightarrow> nat \<Rightarrow>
    ('a \<Rightarrow> string + 'p GroupSpec) \<Rightarrow> ('p GroupSpec \<Rightarrow> string + 'a) \<Rightarrow> 'p GroupSpec \<Rightarrow> ('p PluginSpec \<times> 'p PluginSpec \<Rightarrow> string) \<Rightarrow> ('a, 'p, 'w) gController" where
  "NewGroupPlugin instancePlugins flavorPlugins self maxParallelNum decode encode zeroSpec digest =
     \<lparr>ct_self = self, ct_instancePlugins = instancePlugins, ct_flavorPlugins = flavorPlugins, ct_maxParallelNum = maxParallelNum,
      ct_decode = decode, ct_encode = encode, ct_zeroSpec = zeroSpec, ct_digest = digest, ct_groups = []\<rparr>"

definition ParseProperties :: "('a, 'p, 'w) gController \<Rightarrow> 'a GroupConfig \<Rightarrow> string + 'p GroupSpec" where
  "ParseProperties p config = (case cf_Properties config of
     None \<Rightarrow> Inr (ct_zeroSpec p)
   | Some props \<Rightarrow> (case ct_decode p props of Inl err \<Rightarrow> Inl (''Invalid properties: '' @ err) | Inr parsed \<Rightarrow> Inr parsed))"

definition UnparseProperties :: "('a, 'p, 'w) gController \<Rightarrow> string \<Rightarrow> 'p GroupSpec \<Rightarrow> string + 'a GroupConfig" where
  "UnparseProperties p gid props = (case ct_encode p props of
     Inl err \<Rightarrow> Inl err
   | Inr a \<Rightarrow> Inr \<lparr>cf_ID = gid, cf_Properties = Some a\<rparr>)"

abbreviation quoted :: "string \<Rightarrow> string" where
  "quoted x \<equiv> CHR 0x27 # x @ [CHR 0x27]"

definition gvalidate :: "('a, 'p, 'w) gController \<Rightarrow> 'a GroupConfig \<Rightarrow> 'w \<Rightarrow> string + ('p, 'w) groupSettings" where
  "gvalidate p config w =
     (if cf_ID config = [] then Inl ''Group ID must not be blank''
      else (case ParseProperties p config of
        Inl err \<Rightarrow> Inl err
      | Inr parsed \<Rightarrow> (let al = gs_Allocation parsed in
          if al_Size al = 0 \<and> length (al_LogicalIDs al) = 0 then Inl ''Allocation must not be blank''
          else if 0 < al_Size al \<and> 0 < length (al_LogicalIDs al) then Inl ''Only one Allocation method may be used''
          else if 0 < up_Count (gs_Updating parsed) \<and> 0 < up_Duration (gs_Updating parsed) then Inl ''Only one Updating method may be used''
          else (case ct_flavorPlugins p (ps_Plugin (gs_Flavor parsed)) of
            Inl err \<Rightarrow> Inl (''Failed to find Flavor plugin '' @ quoted (ps_Plugin (gs_Flavor parsed)) @ '':'' @ err)
          | Inr flavorPlugin \<Rightarrow> (case fp_Validate flavorPlugin (ps_Properties (gs_Flavor parsed)) al w of
              Some err \<Rightarrow> Inl err
            | None \<Rightarrow> (case ct_instancePlugins p (ps_Plugin (gs_Instance parsed)) of
                Inl err \<Rightarrow> Inl (''Failed to find Instance plugin '' @ quoted (ps_Plugin (gs_Instance parsed)) @ '':'' @ err)
              | Inr instancePlugin \<Rightarrow> (case ip_Validate instancePlugin (ps_Properties (gs_Instance parsed)) w of
                  Some err \<Rightarrow> Inl err
                | None \<Rightarrow> Inr \<lparr>gset_self = None, gset_instancePlugin = instancePlugin, gset_flavorPlugin = flavorPlugin,
                    gset_config = parsed, gset_digest = ct_digest p\<rparr>)))))))"

definition with_groups :: "(string, ('p, 'w) groupContext) gomap \<Rightarrow> ('a, 'p, 'w) gController \<Rightarrow> ('a, 'p, 'w) gController" where
  "with_groups g p = p\<lparr>ct_groups := g\<rparr>"

text \<open>The first commit of a group: its scaled group and its supervisor.\<close>

definition new_supervisor :: "('a, 'p, 'w) gController \<Rightarrow> string \<Rightarrow> ('p, 'w) groupSettings \<Rightarrow> supervisor outcome" where
  "new_supervisor p gid settings = (let al = gs_Allocation (gset_config settings) in
     if al_Size al \<noteq> 0 then Ret (Sup_Scaler (NewScalingGroup gid (al_Size al) (ct_maxParallelNum p)))
     else if 0 < length (al_LogicalIDs al) then Ret (Sup_Quorum (NewQuorum gid (al_LogicalIDs al)))
     else Panics)"

text \<open>The commit of a group that exists: the running update is halted, and a plan is made and started.\<close>

definition commit_update :: "('a, 'p, 'w) gController \<Rightarrow> string \<Rightarrow> ('p, 'w) groupSettings \<Rightarrow> bool \<Rightarrow> ('p, 'w) groupContext \<Rightarrow> 'w \<Rightarrow>
    (string \<times> string option) \<times> ('a, 'p, 'w) gController \<times> 'w \<times> ('p, 'w) go_effect list" where
  "commit_update p gid settings pretend context w =
     (let (context, stopped) = (if \<not> pretend then stopUpdating gid context else (context, [])) in
      case sup_PlanUpdate (gc_supervisor context) (gc_scaled context) (gc_settings context) settings w of
        (Inl err, w) \<Rightarrow> ((''unable to fulfill request'', Some err), with_groups (gm_put gid context (ct_groups p)) p, w, stopped)
      | (Inr plan, w) \<Rightarrow>
          if \<not> pretend then
            ((Explain plan, None), with_groups (gm_put gid (changeSettings settings (setUpdate (Some plan) context)) (ct_groups p)) p, w,
             stopped @ [Go_Update gid plan (gs_Updating (gset_config settings))])
          else ((Explain plan, None), with_groups (gm_put gid context (ct_groups p)) p, w, stopped))"

definition commit_new :: "('a, 'p, 'w) gController \<Rightarrow> string \<Rightarrow> ('p, 'w) groupSettings \<Rightarrow> bool \<Rightarrow> 'w \<Rightarrow>
    ((string \<times> string option) \<times> ('a, 'p, 'w) gController \<times> 'w \<times> ('p, 'w) go_effect list) outcome" where
  "commit_new p gid settings pretend w =
     andthen (new_supervisor p gid settings) (\<lambda>sup. let
       scaled = \<lparr>sg_settings = settings, sg_memberTags = [(GroupTag, gid)]\<rparr>;
       reply = (''Managing '' @ show_nat (sup_Size sup) @ '' instances'', None)
     in if \<not> pretend then
          andthen (groups_put gid \<lparr>gc_settings = settings, gc_supervisor = sup, gc_scaled = scaled, gc_update = None\<rparr> (ct_groups p))
            (\<lambda>g. Ret (reply, with_groups g p, w, [Go_Supervisor gid]))
        else Ret (reply, p, w, []))"

definition CommitGroup :: "'a GroupConfig \<Rightarrow> bool \<Rightarrow> ('a, 'p, 'w) gController \<Rightarrow> 'w \<Rightarrow>
    ((string \<times> string option) \<times> ('a, 'p, 'w) gController \<times> 'w \<times> ('p, 'w) go_effect list) outcome" where
  "CommitGroup config pretend p w = (case gvalidate p config w of
     Inl err \<Rightarrow> Ret (([], Some err), p, w, [])
   | Inr settings \<Rightarrow> (let settings = settings\<lparr>gset_self := ct_self p\<rparr> in
       case gm_get (ct_groups p) (cf_ID config) of
         Some context \<Rightarrow> Ret (commit_update p (cf_ID config) settings pretend context w)
       | None \<Rightarrow> commit_new p (cf_ID config) settings pretend w))"

text \<open>The goroutine of an update ends with \<open>context.setUpdate(nil)\<close>, on the context it was started for.\<close>

definition update_finished :: "string \<Rightarrow> ('a, 'p, 'w) gController \<Rightarrow> ('a, 'p, 'w) gController" where
  "update_finished gid p = (case gm_get (ct_groups p) gid of
     None \<Rightarrow> p
   | Some context \<Rightarrow> with_groups (gm_put gid (setUpdate None context) (ct_groups p)) p)"

definition not_watched :: "string \<Rightarrow> string" where
  "not_watched gid = ''Group '' @ quoted gid @ '' is not being watched''"

definition doFree :: "string \<Rightarrow> ('a, 'p, 'w) gController \<Rightarrow> (string + ('p, 'w) groupContext) \<times> ('a, 'p, 'w) gController \<times> ('p, 'w) go_effect list" where
  "doFree gid p = (case gm_get (ct_groups p) gid of
     None \<Rightarrow> (Inl (not_watched gid), p, [])
   | Some grp \<Rightarrow> (let (grp, stopped) = stopUpdating gid grp in
       (Inr grp, with_groups (gm_del gid (ct_groups p)) p, stopped @ [Stop_Supervisor gid])))"

definition FreeGroup :: "string \<Rightarrow> ('a, 'p, 'w) gController \<Rightarrow> string option \<times> ('a, 'p, 'w) gController \<times> ('p, 'w) go_effect list" where
  "FreeGroup gid p = (case doFree gid p of (r, p, eff) \<Rightarrow> (case r of Inl err \<Rightarrow> Some err | Inr _ \<Rightarrow> None, p, eff))"

definition DescribeGroup :: "string \<Rightarrow> ('a, 'p, 'w) gController \<Rightarrow> 'w \<Rightarrow> (string + 'p Description list \<times> bool) \<times> 'w" where
  "DescribeGroup gid p w = (case gm_get (ct_groups p) gid of
     None \<Rightarrow> (Inl (not_watched gid), w)
   | Some context \<Rightarrow> (case scaled_List (gc_scaled context) w of
       (Inl err, w) \<Rightarrow> (Inl err, w)
     | (Inr instances, w) \<Rightarrow> (Inr (instances, \<not> is_updating context), w)))"

definition DestroyGroup :: "string \<Rightarrow> ('a, 'p, 'w) gController \<Rightarrow> 'w \<Rightarrow> string option \<times> ('a, 'p, 'w) gController \<times> 'w \<times> ('p, 'w) go_effect list" where
  "DestroyGroup gid p w = (case doFree gid p of
     (Inl err, p, eff) \<Rightarrow> (Some err, p, w, eff)
   | (Inr context, p, eff) \<Rightarrow> (case scaled_List (gc_scaled context) w of
       (Inl err, w) \<Rightarrow> (Some err, p, w, eff)
     | (Inr descriptions, w) \<Rightarrow>
         (None, p, fold (\<lambda>desc w. snd (scaled_Destroy desc Termination (gc_scaled context) w))
           (go_sort (sortByID_Less (Some (gc_settings context))) descriptions) w, eff)))"

definition InspectGroups :: "('a, 'p, 'w) gController \<Rightarrow> string option \<times> 'a GroupConfig list" where
  "InspectGroups p = groups_forEach (\<lambda>gid ctx specs. case UnparseProperties p gid (gset_config (gc_settings ctx)) of
     Inl err \<Rightarrow> Inl err
   | Inr spec \<Rightarrow> Inr (specs @ [spec])) (ct_groups p) []"

definition gSize :: "string \<Rightarrow> ('a, 'p, 'w) gController \<Rightarrow> string + int" where
  "gSize gid p = (case InspectGroups p of
     (Some err, _) \<Rightarrow> Inl err
   | (None, all) \<Rightarrow> (case find (\<lambda>gg. cf_ID gg = gid) all of
       None \<Rightarrow> Inl (''group '' @ gid @ '' not found'')
     | Some gg \<Rightarrow> (case ParseProperties p gg of
         Inl err \<Rightarrow> Inl err
       | Inr g \<Rightarrow> if 0 < length (al_LogicalIDs (gs_Allocation g)) then Inr (int (length (al_LogicalIDs (gs_Allocation g))))
                  else Inr (wrap64 (int (al_Size (gs_Allocation g)))))))"

definition SetSize :: "string \<Rightarrow> int \<Rightarrow> ('a, 'p, 'w) gController \<Rightarrow> 'w \<Rightarrow> (string option \<times> ('a, 'p, 'w) gController \<times> 'w \<times> ('p, 'w) go_effect list) outcome" where
  "SetSize gid sz p w =
     (if sz < 0 then Ret (Some ''size cannot be negative'', p, w, [])
      else (case InspectGroups p of
        (Some err, _) \<Rightarrow> Ret (Some err, p, w, [])
      | (None, all) \<Rightarrow> (case find (\<lambda>gg. cf_ID gg = gid) all of
          None \<Rightarrow> Ret (Some (''group not found '' @ gid), p, w, [])
        | Some gg \<Rightarrow> (case ParseProperties p gg of
            Inl err \<Rightarrow> Ret (Some err, p, w, [])
          | Inr g \<Rightarrow>
              if 0 < length (al_LogicalIDs (gs_Allocation g)) then Ret (Some ''cannot set size if logic ids are explicitly set'', p, w, [])
              else (case ct_encode p (g\<lparr>gs_Allocation := (gs_Allocation g)\<lparr>al_Size := nat sz\<rparr>\<rparr>) of
                Inl _ \<Rightarrow> Panics
              | Inr props \<Rightarrow> andthen (CommitGroup (gg\<lparr>cf_Properties := Some props\<rparr>) False p w)
                  (\<lambda>((_, err), p, w, eff). Ret (err, p, w, eff)))))))"

fun destroy_each :: "('p, 'w) scaledGroup \<Rightarrow> 'p Description list \<Rightarrow> 'w \<Rightarrow> string option \<times> 'w" where
  "destroy_each s [] w = (None, w)"
| "destroy_each s (target # targets) w = (case scaled_Destroy target Termination s w of
     (Some err, w) \<Rightarrow> (Some err, w)
   | (None, w) \<Rightarrow> destroy_each s targets w)"

definition DestroyInstances :: "string \<Rightarrow> InstanceID list \<Rightarrow> ('a, 'p, 'w) gController \<Rightarrow> 'w \<Rightarrow>
    (string option \<times> ('a, 'p, 'w) gController \<times> 'w \<times> ('p, 'w) go_effect list) outcome" where
  "DestroyInstances gid toDestroy p w = (case gm_get (ct_groups p) gid of
     None \<Rightarrow> Ret (Some (not_watched gid), p, w, [])
   | Some context \<Rightarrow> (case scaled_List (gc_scaled context) w of
       (Inl err, w) \<Rightarrow> Ret (Some err, p, w, [])
     | (Inr instances, w) \<Rightarrow> (let
         index = fold (\<lambda>inst m. gm_put (de_ID inst) inst m) instances [];
         targets = List.map_filter (gm_get index) toDestroy;
         (context, stopped) = stopUpdating gid context;
         p = with_groups (gm_put gid context (ct_groups p)) p
       in case destroy_each (gc_scaled context) targets w of
            (Some err, w) \<Rightarrow> Ret (Some err, p, w, stopped)
          | (None, w) \<Rightarrow> (case gSize gid p of
              Inl err \<Rightarrow> Ret (Some err, p, w, stopped)
            | Inr sizeSpec \<Rightarrow> andthen (SetSize gid (wrap64 (sizeSpec - int (length toDestroy))) p w)
                (\<lambda>(err, p, w, eff). Ret (err, p, w, stopped @ eff))))))"

section \<open>Committing\<close>

lemma gm_put_same: "gm_get m k = Some v \<Longrightarrow> gm_put k v m = m"
  by (induction m) auto

lemma with_groups_same [simp]: "with_groups (ct_groups p) p = p"
  by (simp add: with_groups_def)

lemma ct_with_groups [simp]: "ct_groups (with_groups g p) = g" "ct_decode (with_groups g p) = ct_decode p" "ct_encode (with_groups g p) = ct_encode p"
  "ct_zeroSpec (with_groups g p) = ct_zeroSpec p" "ct_flavorPlugins (with_groups g p) = ct_flavorPlugins p" "ct_instancePlugins (with_groups g p) = ct_instancePlugins p"
  "ct_digest (with_groups g p) = ct_digest p" "ct_self (with_groups g p) = ct_self p"
  by (simp_all add: with_groups_def)

lemma gvalidate_ok:
  assumes "gvalidate p config w = Inr settings"
  shows "ParseProperties p config = Inr (gset_config settings)" "cf_ID config \<noteq> []"
    "(al_Size (gs_Allocation (gset_config settings)) = 0) \<noteq> (al_LogicalIDs (gs_Allocation (gset_config settings)) = [])"
  using assms by (auto simp: gvalidate_def Let_def split: sum.splits option.splits if_splits)

lemma CommitGroup_total: "\<exists>r. CommitGroup config pretend p w = Ret r"
proof (cases "gvalidate p config w")
  case (Inr settings)
  show ?thesis
  proof (cases "gm_get (ct_groups p) (cf_ID config)")
    case None
    then show ?thesis using Inr gvalidate_ok(3) [OF Inr]
      by (auto simp: CommitGroup_def commit_new_def new_supervisor_def groups_put_def gm_has_def Let_def)
  next
    case (Some ctx)
    have "CommitGroup config pretend p w = Ret (commit_update p (cf_ID config) (settings\<lparr>gset_self := ct_self p\<rparr>) pretend ctx w)"
      by (simp add: CommitGroup_def Inr Some Let_def)
    then show ?thesis by blast
  qed
qed (simp add: CommitGroup_def)

text \<open>
  \<open>CommitGroup\<close> returns: neither the panic on an empty allocation nor the one on overwriting a group
  can be reached.
\<close>

theorem CommitGroup_returns: "\<exists>r. CommitGroup config pretend p w = Ret r"
  by (rule CommitGroup_total)

text \<open>
  A commit that only pretends changes nothing of the controller and starts and stops no goroutine.
\<close>

theorem CommitGroup_pretend:
  assumes "CommitGroup config True p w = Ret ((reply, err), p', w', eff)"
  shows "p' = p \<and> eff = []"
proof (cases "gvalidate p config w")
  case (Inr settings)
  show ?thesis
  proof (cases "gm_get (ct_groups p) (cf_ID config)")
    case None
    then show ?thesis using assms Inr
      by (auto simp: CommitGroup_def commit_new_def andthen_Ret_iff Let_def)
  next
    case (Some c)
    then show ?thesis using assms Inr
      by (auto simp: CommitGroup_def commit_update_def Let_def gm_put_same split: prod.splits sum.splits)
  qed
qed (use assms in \<open>simp add: CommitGroup_def\<close>)

section \<open>What a controller says of its groups\<close>

lemma forEach_ok:
  assumes "\<forall>(k, v) \<in> set m. \<forall>acc. fn k v acc = Inr (acc @ [g k v])"
  shows "groups_forEach fn m acc = (None, acc @ map (\<lambda>(k, v). g k v) m)"
  using assms by (induction fn m acc rule: groups_forEach.induct) auto

text \<open>The JSON of a spec decodes to the spec.\<close>

definition codec_ok :: "('a, 'p, 'w) gController \<Rightarrow> bool" where
  "codec_ok p \<longleftrightarrow> (\<forall>g. \<exists>a. ct_encode p g = Inr a \<and> ct_decode p a = Inr g)"

definition spec_of :: "('a, 'p, 'w) gController \<Rightarrow> string \<Rightarrow> ('p, 'w) groupContext \<Rightarrow> 'a GroupConfig" where
  "spec_of p gid ctx = \<lparr>cf_ID = gid, cf_Properties = (case ct_encode p (gset_config (gc_settings ctx)) of Inr a \<Rightarrow> Some a | Inl _ \<Rightarrow> None)\<rparr>"

lemma InspectGroups_ok:
  assumes "codec_ok p"
  shows "InspectGroups p = (None, map (\<lambda>(gid, ctx). spec_of p gid ctx) (ct_groups p))"
proof -
  have "UnparseProperties p gid g = Inr \<lparr>cf_ID = gid, cf_Properties = (case ct_encode p g of Inr a \<Rightarrow> Some a | Inl _ \<Rightarrow> None)\<rparr>" for gid g
    using assms [unfolded codec_ok_def, rule_format, of g] by (auto simp: UnparseProperties_def)
  then show ?thesis unfolding InspectGroups_def by (subst forEach_ok [where g = "spec_of p"]) (simp_all add: spec_of_def prod.case_eq_if)
qed

lemma find_spec: "find (\<lambda>gg. cf_ID gg = gid) (map (\<lambda>(gid, ctx). spec_of p gid ctx) m) = map_option (spec_of p gid) (gm_get m gid)"
  by (induction m) (auto simp: spec_of_def)

lemma ParseProperties_spec_of: "codec_ok p \<Longrightarrow> ParseProperties p (spec_of p gid ctx) = Inr (gset_config (gc_settings ctx))"
  unfolding codec_ok_def by (drule spec [of _ "gset_config (gc_settings ctx)"]) (auto simp: ParseProperties_def spec_of_def)




text \<open>
  \<open>SetSize\<close> cannot empty a group: for a group with a size, the size 0 is refused and nothing changes.
\<close>

theorem SetSize_zero_refused:
  assumes "codec_ok p" "gm_get (ct_groups p) gid = Some ctx" "al_LogicalIDs (gs_Allocation (gset_config (gc_settings ctx))) = []" "gid \<noteq> []"
  shows "SetSize gid 0 p w = Ret (Some ''Allocation must not be blank'', p, w, [])"
proof -
  let ?g = "gset_config (gc_settings ctx)"
  obtain a where a: "ct_encode p (?g\<lparr>gs_Allocation := (gs_Allocation ?g)\<lparr>al_Size := 0\<rparr>\<rparr>) = Inr a"
    "ct_decode p a = Inr (?g\<lparr>gs_Allocation := (gs_Allocation ?g)\<lparr>al_Size := 0\<rparr>\<rparr>)" using assms(1) unfolding codec_ok_def by blast
  have "gvalidate p ((spec_of p gid ctx)\<lparr>cf_Properties := Some a\<rparr>) w = Inl ''Allocation must not be blank''"
    using a(2) assms(3,4) by (simp add: gvalidate_def ParseProperties_def spec_of_def Let_def)
  then show ?thesis using a(1) assms
    by (simp add: SetSize_def InspectGroups_ok find_spec ParseProperties_spec_of CommitGroup_def)
qed

end
