(* ===== verification/Group_Theorems.thy ===== *)
theory Group_Theorems
  imports Group_Sim Group_Controller
begin

text \<open>
  The properties of updates and of the controller over the simulator: what an update may destroy, what
  it has achieved when it returns, how long it waits, and how a group ends.
\<close>

section \<open>Destroying a group\<close>

context reliable_env
begin

lemma fold_destroys: "fold (exec_op supid supsz s) (map Op_Destroy ds) w = fold (\<lambda>d w. snd (scaled_Destroy d Termination s w)) ds w"
  by (induction ds arbitrary: w) (simp_all add: exec_op_def)

lemma destroy_listed:
  assumes "wf w" "scaled_List s w = (Inr ds, w1)" "mset ds' = mset ds"
  shows "inst (fold (\<lambda>d w. snd (scaled_Destroy d Termination s w)) ds' w1) = (\<lambda>iid. if iid \<in> group_ids gid (inst w) then None else inst w iid)"
proof -
  obtain found where f: "wf w1" "inst w1 = inst w" "described (inst w) (sg_memberTags s) found" "ds = map normalize found" using list_effect [OF assms(1,2)] by auto
  have ids: "distinct (map de_ID ds)" "set (map de_ID ds) = group_ids gid (inst w)" using described_ids [OF f(3)] by (simp_all add: f(4) comp_def)
  have m: "mset (map de_ID ds') = mset (map de_ID ds)" using assms(3) by simp
  let ?ops = "map Op_Destroy ds'"
  have D: "set (dids ?ops) = group_ids gid (inst w)" using mset_eq_setD [OF m] ids(2) by simp
  have "ready (inst w1) ?ops" using mset_eq_imp_distinct_iff [OF m] ids(1) D f(2) group_ids_Some by (auto simp: ready_def)
  from exec_all [OF f(1) this, of undefined undefined] have A: "all_done ?ops w1 (fold (\<lambda>d w. snd (scaled_Destroy d Termination s w)) ds' w1)"
    by (simp only: fold_destroys)
  have "\<not> made gid ?ops x" for x by (auto simp: made_def)
  then show ?thesis using all_doneD [OF A] f(2) unfolding D by (simp add: fun_eq_iff)
qed

end

context sim_group
begin

lemmas sim_updates = rolling_safe rolling_done

end


text \<open>A controller of simulated groups, whose properties are their own JSON.\<close>

definition demo_controller :: "(string, (unit, unit Description Mem sim_world) groupContext) gomap \<Rightarrow> (unit GroupSpec, unit, unit Description Mem sim_world) gController" where
  "demo_controller g = \<lparr>ct_self = None, ct_instancePlugins = \<lambda>_. Inr (sim_instance_plugin demo_env demo_sim),
     ct_flavorPlugins = \<lambda>_. Inr (vanilla_flavor_plugin demo_vanilla), ct_maxParallelNum = 0, ct_decode = Inr, ct_encode = Inr,
     ct_zeroSpec = gset_config (sg_settings (demo_group [])), ct_digest = \<lambda>_. ''sha'', ct_groups = g\<rparr>"

definition demo_context :: "(unit, unit Description Mem sim_world) groupContext" where
  "demo_context = \<lparr>gc_settings = sg_settings (demo_group ''g''), gc_supervisor = Sup_Scaler (NewScalingGroup ''g'' 2 0), gc_scaled = demo_group ''g'',
     gc_update = None\<rparr>"

definition demo_config :: "unit GroupSpec GroupConfig" where
  "demo_config = \<lparr>cf_ID = ''g'', cf_Properties = Some (gset_config (sg_settings (demo_group ''g'')))\<rparr>"

lemma demo_codec: "codec_ok (demo_controller g)"
  by (simp add: codec_ok_def demo_controller_def)



section \<open>Updates\<close>

text \<open>
  (C11) A rolling update destroys nobody but members of the group with another configuration, and never
  the instance the controller itself runs on: any other instance that the environment leaves alone is
  still there whenever the update has returned or waits, with its configuration hash and logical id.
\<close>

theorem rolling_update_safe:
  assumes "sim_setup env order sim ven s gid" "update_of r s" "sim_ok env sim w"
    "protected gid (config_hash (sg_settings s)) (gset_self (sg_settings s)) (sim_instances env w iid)"
    "\<forall>now f. U_Tick now f \<in> set evs \<longrightarrow> (\<forall>w. sim_ok env sim w \<and> protected gid (config_hash (sg_settings s)) (gset_self (sg_settings s)) (sim_instances env w iid) \<longrightarrow>
      sim_ok env sim (f w) \<and> protected gid (config_hash (sg_settings s)) (gset_self (sg_settings s)) (sim_instances env (f w) iid))"
  shows "protected gid (config_hash (sg_settings s)) (gset_self (sg_settings s)) (sim_instances env (snd (rolling_Run r s updating evs w)) iid)"
  using sim_group.sim_updates(1) [OF sim_setup_group [OF assms(1)] assms(2-5)] .

text \<open>
  (C13) When a rolling update returns without an error, every member of the group has the new
  configuration, except the instance of the controller itself.
\<close>

theorem rolling_update_done:
  assumes "sim_setup env order sim ven s gid" "update_of r s" "sim_ok env sim w"
    "\<forall>now f. U_Tick now f \<in> set evs \<longrightarrow> (\<forall>w. sim_ok env sim w \<longrightarrow> sim_ok env sim (f w))" "rolling_Run r s updating evs w = (U_Done, w')"
  shows "updated gid (config_hash (sg_settings s)) (gset_self (sg_settings s)) (sim_instances env w')"
  using sim_group.sim_updates(2) [OF sim_setup_group [OF assms(1)] assms(2-5)] .

text \<open>
  With \<open>Count\<close> set, the wait between two replacements ends exactly with the first run of that many
  polls in a row that find enough healthy instances of the new configuration.
\<close>

theorem waits_for_count:
  assumes "0 < n" "up_Count updating = int c" "0 < c" "c < 2 ^ 63" "waitUntilQuiesced r s updating n evs noCount w = (res, evs', w')"
  shows "quiesces c 0 res evs evs' (health_log r s n evs w)"
  by (rule wait_counts [OF assms(1-4) _ _ assms(5)]) (use assms(3) in \<open>simp_all add: counted_def noCount_def\<close>)

text \<open>
  The plan of a scaler: when it is done the scaler has the new size, and as long as it is not, a
  group that grows keeps its old size and one that shrinks already has the new one.
\<close>

theorem scaler_plan_size:
  assumes "scaler_PlanUpdate s settings newSettings w = (Inr plan, w')" "sc_size sc = al_Size (gs_Allocation (gset_config settings))"
    "al_Size (gs_Allocation (gset_config settings)) < 2 ^ 63" "al_Size (gs_Allocation (gset_config newSettings)) < 2 ^ 63"
    "plan_Run plan s updating evs sc w1 = (res, sc', w2)"
  shows "sc_size sc' = (if res = U_Done then al_Size (gs_Allocation (gset_config newSettings))
    else min (sc_size sc) (al_Size (gs_Allocation (gset_config newSettings))))"
  using scaler_plan_sizes [OF assms] by simp

section \<open>Witnesses\<close>

definition demo_update :: "(unit, unit Description Mem sim_world) rollingupdate" where
  "demo_update = \<lparr>ru_desc = [], ru_updatingFrom = sg_settings (demo_group ''g''), ru_updatingTo = sg_settings (demo_group ''g'')\<rparr>"

lemma demo_update_of: "update_of demo_update (demo_group ''g'')"
  by (simp add: update_of_def demo_update_def)

theorem rolling_update_safe_witness:
  "protected ''g'' ''sha'' None (sim_instances demo_env (snd (rolling_Run demo_update (demo_group ''g'')
     \<lparr>up_Duration = 0, up_Count = 0, up_Skip = None\<rparr> [U_Tick 1 (\<lambda>w. w)] demo_world1)) ''0'')"
  using rolling_update_safe [OF demo_setup(1) demo_update_of demo_ok1(1), of "''0''" "[U_Tick 1 (\<lambda>w. w)]" "\<lparr>up_Duration = 0, up_Count = 0, up_Skip = None\<rparr>"]
  by (simp add: demo_ok1(2) protected_def demo_other_def GroupTag_def demo_group_def InstanceHash_def)

theorem rolling_update_done_witness:
  "fst (rolling_Run demo_update (demo_group ''g'') \<lparr>up_Duration = 0, up_Count = 0, up_Skip = None\<rparr> [U_Tick 1 (\<lambda>w. w)] demo_world1) = U_Done \<and>
   updated ''g'' (config_hash (sg_settings (demo_group ''g''))) (gset_self (sg_settings (demo_group ''g'')))
     (sim_instances demo_env (snd (rolling_Run demo_update (demo_group ''g'') \<lparr>up_Duration = 0, up_Count = 0, up_Skip = None\<rparr> [U_Tick 1 (\<lambda>w. w)] demo_world1)))"
proof -
  let ?R = "rolling_Run demo_update (demo_group ''g'') \<lparr>up_Duration = 0, up_Count = 0, up_Skip = None\<rparr> [U_Tick 1 (\<lambda>w. w)] demo_world1"
  have d: "fst ?R = U_Done" by code_simp
  have "updated ''g'' (config_hash (sg_settings (demo_group ''g''))) (gset_self (sg_settings (demo_group ''g''))) (sim_instances demo_env (snd ?R))"
    by (rule rolling_update_done [OF demo_setup(1) demo_update_of demo_ok1(1), of "[U_Tick 1 (\<lambda>w. w)]" "\<lparr>up_Duration = 0, up_Count = 0, up_Skip = None\<rparr>"])
      (use d in \<open>simp_all add: prod_eq_iff\<close>)
  with d show ?thesis by blast
qed

text \<open>A member with the configuration of the group, healthy at every poll.\<close>

definition demo_member :: "unit Description" where
  "demo_member = \<lparr>de_ID = ''0'', de_LogicalID = None, de_Tags = [(GroupTag, ''g''), (simulatorTag, ''simulator''), (ConfigSHATag, ''sha'')], de_Properties = Some ()\<rparr>"

definition demo_world2 :: "unit Description Mem sim_world" where
  "demo_world2 = demo_world\<lparr>sw_kv := snd (Mem_Write ''0'' demo_member (Mem_NewStore ''compute'')), sw_reads := 1\<rparr>"

theorem waits_for_count_witness:
  "case waitUntilQuiesced demo_update (demo_group ''g'') \<lparr>up_Duration = 0, up_Count = 2, up_Skip = None\<rparr> 1
       [U_Tick 1 (\<lambda>w. w), U_Tick 2 (\<lambda>w. w), U_Tick 3 (\<lambda>w. w)] noCount demo_world2 of
     (res, evs', _) \<Rightarrow> res = U_Done \<and> length evs' = 1 \<and>
       quiesces 2 0 res [U_Tick 1 (\<lambda>w. w), U_Tick 2 (\<lambda>w. w), U_Tick 3 (\<lambda>w. w)] evs'
         (health_log demo_update (demo_group ''g'') 1 [U_Tick 1 (\<lambda>w. w), U_Tick 2 (\<lambda>w. w), U_Tick 3 (\<lambda>w. w)] demo_world2)"
proof -
  let ?evs = "[U_Tick 1 (\<lambda>w. w), U_Tick 2 (\<lambda>w. w), U_Tick 3 (\<lambda>w. w)]" and ?u = "\<lparr>up_Duration = 0, up_Count = 2, up_Skip = None\<rparr>"
  obtain res evs' w' where r: "waitUntilQuiesced demo_update (demo_group ''g'') ?u 1 ?evs noCount demo_world2 = (res, evs', w')" using prod_cases3 by blast
  have "case waitUntilQuiesced demo_update (demo_group ''g'') ?u 1 ?evs noCount demo_world2 of (res, evs', _) \<Rightarrow> res = U_Done \<and> length evs' = 1"
    by code_simp
  then show ?thesis using waits_for_count [OF _ _ _ _ r, of 2] unfolding r by simp
qed

theorem scaler_plan_size_witness:
  "case plan_Run (ScalerUpdatePlan (scaler_desc 3 5 0 0) 2 5 \<lparr>ru_desc = [], ru_updatingFrom = sg_settings (demo_group ''g''),
      ru_updatingTo = (sg_settings (demo_group ''g''))\<lparr>gset_config := (gset_config (sg_settings (demo_group ''g'')))\<lparr>gs_Allocation := \<lparr>al_Size = 5, al_LogicalIDs = []\<rparr>\<rparr>\<rparr>\<rparr>)
      (demo_group ''g'') \<lparr>up_Duration = 0, up_Count = 0, up_Skip = None\<rparr> [] (NewScalingGroup ''g'' 2 0) demo_world of
     (res, sc', _) \<Rightarrow> sc_size sc' = (if res = U_Done then 5 else 2)"
proof -
  let ?old = "sg_settings (demo_group ''g'')" and ?u = "\<lparr>up_Duration = 0, up_Count = 0, up_Skip = None\<rparr> :: Updating"
  let ?new = "?old\<lparr>gset_config := (gset_config ?old)\<lparr>gs_Allocation := \<lparr>al_Size = 5, al_LogicalIDs = []\<rparr>\<rparr>\<rparr>"
  let ?plan = "ScalerUpdatePlan (scaler_desc 3 5 0 0) 2 5 \<lparr>ru_desc = [], ru_updatingFrom = ?old, ru_updatingTo = ?new\<rparr>"
  have al: "al_Size (gs_Allocation (gset_config ?old)) = 2" "al_Size (gs_Allocation (gset_config ?new)) = 5" by (simp_all add: demo_group_def)
  have "returns (\<lambda>ds. ds = []) (case labelAndList (demo_group ''g'') demo_world of (Inr ds, _) \<Rightarrow> Ret ds | _ \<Rightarrow> Blocks)" by code_simp
  then obtain w' where l: "labelAndList (demo_group ''g'') demo_world = (Inr [], w')" by (auto simp: returns_iff split: prod.splits sum.splits)
  have p: "scaler_PlanUpdate (demo_group ''g'') ?old ?new demo_world = (Inr ?plan, w')"
    using al by (simp add: scaler_PlanUpdate_def l desiredAndUndesired_filter Let_def wrap64_def)
  obtain res sc' w2 where r: "plan_Run ?plan (demo_group ''g'') ?u [] (NewScalingGroup ''g'' 2 0) demo_world = (res, sc', w2)" using prod_cases3 by blast
  have sc: "sc_size (NewScalingGroup ''g'' 2 0) = 2" by (simp add: NewScalingGroup_def)
  have "sc_size sc' = (if res = U_Done then al_Size (gs_Allocation (gset_config ?new)) else min (sc_size (NewScalingGroup ''g'' 2 0)) (al_Size (gs_Allocation (gset_config ?new))))"
    by (rule scaler_plan_size [OF p _ _ _ r]) (simp_all only: al sc, simp_all)
  then show ?thesis unfolding r al sc by simp
qed

theorem CommitGroup_pretend_witness:
  "returns (\<lambda>(_, p', _, eff). p' = demo_controller [(''g'', demo_context)] \<and> eff = [])
     (CommitGroup demo_config True (demo_controller [(''g'', demo_context)]) demo_world)"
proof -
  obtain reply err p' w' eff where r: "CommitGroup demo_config True (demo_controller [(''g'', demo_context)]) demo_world = Ret ((reply, err), p', w', eff)"
    using CommitGroup_total [of demo_config True "demo_controller [(''g'', demo_context)]" demo_world] by auto
  then show ?thesis using CommitGroup_pretend [OF r] by (simp add: returns_iff)
qed


theorem SetSize_zero_refused_witness:
  "SetSize ''g'' 0 (demo_controller [(''g'', demo_context)]) demo_world =
     Ret (Some ''Allocation must not be blank'', demo_controller [(''g'', demo_context)], demo_world, [])"
  by (rule SetSize_zero_refused [OF demo_codec, where ctx = demo_context]) (simp_all add: demo_controller_def demo_context_def demo_group_def)

section \<open>Where the controller departs from its interface\<close>

text \<open>
  \<open>DestroyInstances\<close> does not report instances that are not in the group, as its interface says it
  does, and takes them off the size all the same: asked to destroy an instance of another group, it
  returns no error and the size of the group goes from 2 to 1.
\<close>

theorem DestroyInstances_foreign:
  "returns (\<lambda>(err, p', w', _). err = None \<and> gSize ''g'' p' = Inr 1 \<and> sim_instances demo_env w' ''0'' = sim_instances demo_env demo_world1 ''0'')
     (DestroyInstances ''g'' [''0''] (demo_controller [(''g'', demo_context)]) demo_world1)"
  by code_simp

definition config_of_size :: "nat \<Rightarrow> unit GroupSpec GroupConfig" where
  "config_of_size n = \<lparr>cf_ID = ''g'', cf_Properties = Some ((gset_config (sg_settings (demo_group ''g'')))\<lparr>gs_Allocation := \<lparr>al_Size = n, al_LogicalIDs = []\<rparr>\<rparr>)\<rparr>"
definition starts_update :: "('p, 'w) go_effect list \<Rightarrow> bool" where
  "starts_update eff = list_ex (\<lambda>e. case e of Go_Update _ _ _ \<Rightarrow> True | _ \<Rightarrow> False) eff"

definition stops_update :: "('p, 'w) go_effect list \<Rightarrow> bool" where
  "stops_update eff = list_ex (\<lambda>e. case e of Stop_Update _ _ \<Rightarrow> True | _ \<Rightarrow> False) eff"

text \<open>
  The end of an old update clears the mark of a newer one: the first update is halted by the second
  commit, its goroutine ends afterwards with \<open>setUpdate(nil)\<close>, and the group is reported as converged
  while the second update runs and can no longer be stopped.
\<close>

theorem finished_update_clobbers:
  "returns (\<lambda>(eff2, p3, w). starts_update eff2 \<and> stops_update eff2 \<and>
       (case fst (DescribeGroup ''g'' p3 w) of Inr (_, converged) \<Rightarrow> converged | Inl _ \<Rightarrow> False) \<and>
       (case FreeGroup ''g'' p3 of (err, _, eff3) \<Rightarrow> err = None \<and> \<not> stops_update eff3))
     (andthen (CommitGroup (config_of_size 3) False (demo_controller [(''g'', demo_context)]) demo_world) (\<lambda>(_, p1, w, _).
      andthen (CommitGroup (config_of_size 4) False p1 w) (\<lambda>(_, p2, w, eff2).
      Ret (eff2, update_finished ''g'' p2, w))))"
  by code_simp

end
