(* ===== verification/Ingress_Theorems.thy ===== *)
theory Ingress_Theorems
  imports Ingress_Sync Ingress_Fsm Group_Theorems
begin

text \<open>
  The ingress controller over simulated load balancers and over groups that the group controller
  watches on simulated instances: what a synchronisation achieves, when it happens, and where the
  code does not do what it means to.
\<close>

section \<open>Groups as the ingress controller sees them\<close>

text \<open>A client of the group controller \<open>p\<close>.\<close>

definition controller_client :: "('x, 'p, 'w) gController \<Rightarrow> ('p, 'w) GroupClient" where
  "controller_client p gid w = (case DescribeGroup gid p w of
     (Inl err, w) \<Rightarrow> (Inl err, w)
   | (Inr (ds, _), w) \<Rightarrow> (Inr ds, w))"

text \<open>The name \<open>g\<close> resolves to the controller \<open>p\<close>, which watches the group over the simulator.\<close>

definition watched :: "('x, 'p, 'b Mem sim_world) gController \<Rightarrow> ('a, 'n, 'p, 'b Mem sim_world) ingress_scope \<Rightarrow> ('b Mem, 'b, 'p) sim_env \<Rightarrow>
    ((string \<times> 'b) list \<Rightarrow> (string \<times> 'b) list) \<Rightarrow> simulator \<Rightarrow> Name \<Rightarrow> bool" where
  "watched p sc env order sim g \<longleftrightarrow> sc_Group sc g = Inr (controller_client p) \<and>
     (\<exists>ctx ven. gm_get (ct_groups p) (Group_ID g) = Some ctx \<and> sim_setup env order sim ven (gc_scaled ctx) (Group_ID g))"

context sim_group
begin

lemma describe_ids:
  assumes "wf w"
  shows "\<exists>ds. scaled_List s w = (Inr ds, w) \<and> de_ID ` set ds = group_ids gid (inst w)"
proof -
  obtain ds where ds: "sim_DescribeInstances env sim [(GroupTag, gid)] True w = (Inr ds, w)" "described (inst w) [(GroupTag, gid)] ds"
    using describe_ds [OF assms] by blast
  have "de_ID ` set ds = group_ids gid (inst w)"
    using ds(2) unfolding described_def tags_match_def group_ids_def group_member_def by (force split: option.splits)
  then show ?thesis using ds(1) by (simp add: scaled_List_def instancePlugin sim_instance_plugin_def sim_memberTags image_image)
qed

end

lemma watched_describes:
  assumes "watched p sc env order sim g" "sim_ok env sim w"
  shows "\<exists>cl ds. sc_Group sc g = Inr cl \<and> cl (Group_ID g) w = (Inr ds, w) \<and> de_ID ` set ds = group_ids (Group_ID g) (sim_instances env w)"
proof -
  from assms(1) obtain ctx ven where p: "sc_Group sc g = Inr (controller_client p)" "gm_get (ct_groups p) (Group_ID g) = Some ctx" "sim_setup env order sim ven (gc_scaled ctx) (Group_ID g)"
    unfolding watched_def by blast
  obtain ds where "scaled_List (gc_scaled ctx) w = (Inr ds, w)" "de_ID ` set ds = group_ids (Group_ID g) (sim_instances env w)"
    using sim_group.describe_ids [OF sim_setup_group [OF p(3)] assms(2)] by blast
  then show ?thesis using p(1,2) by (auto simp: controller_client_def DescribeGroup_def)
qed

section \<open>One synchronisation\<close>

text \<open>
  The load balancers are simulated ones, each behind the object of one host; the groups are watched by
  the controller \<open>p\<close>; there is no template for keys, and no health check.
\<close>

definition ingress_ready :: "('x, 'p, 'b Mem sim_world) gController \<Rightarrow> ('c Mem, 'c) l4_env \<Rightarrow> ((string \<times> 'c) list \<Rightarrow> (string \<times> 'c) list) \<Rightarrow>
    ('b Mem, 'b, 'p) sim_env \<Rightarrow> ((string \<times> 'b) list \<Rightarrow> (string \<times> 'b) list) \<Rightarrow> simulator \<Rightarrow> ('a, 'n, 'p, 'b Mem sim_world) ingress_scope \<Rightarrow>
    ('a, 'p, 'b Mem sim_world) ingress_managed \<Rightarrow> ('n, 'c Mem l4Simulator, 'b Mem sim_world) ingress_world \<Rightarrow>
    (Vhost, 'a) gomap \<Rightarrow> (Vhost, Route list) gomap \<Rightarrow> (Vhost, Name list) gomap \<Rightarrow> (Vhost, InstanceID list) gomap \<Rightarrow> bool" where
  "ingress_ready p lenv lorder env order sim sc c w elbs rv gv ids \<longleftrightarrow>
     l4_setup lenv lorder \<and> (\<forall>n. lb_ok lenv (iw_l4 w n)) \<and> sim_ok env sim (iw_env w) \<and>
     mg_l4s c (iw_env w) = Inr elbs \<and> distinct (map (sc_lb sc \<circ> snd) elbs) \<and>
     mg_routes c (iw_env w) = Inr rv \<and> mg_groups c (iw_env w) = Inr gv \<and> mg_instanceIDs c (iw_env w) = Inr ids \<and>
     (\<exists>hv. mg_healthChecks c (iw_env w) = Inr hv \<and> (\<forall>hs \<in> snd ` set hv. \<forall>h \<in> set hs. hc_BackendPort h \<le> 0)) \<and>
     io_SourceKeySelector (mg_options c) = [] \<and> caches_ok sc c \<and>
     (\<forall>v gs. gm_get gv v = Some gs \<longrightarrow> (\<forall>g \<in> set gs. watched p sc env order sim g))"




lemma ingress_ready_env:
  assumes "ingress_ready p lenv lorder env order sim sc c w elbs rv gv ids"
  shows "ingress_env (sim_L4 lenv) (lb_ok lenv) (lb_routes lenv) lb_backends sc None (\<lambda>e. e = iw_env w)
    {g. watched p sc env order sim g} (\<lambda>g. group_ids (Group_ID g) (sim_instances env (iw_env w)))"
proof -
  have "sim_l4 lenv mem_ok mem_get" using assms l4_setup_sim unfolding ingress_ready_def by blast
  then show ?thesis
  proof (intro ingress_env.intro ingress_env_axioms.intro sim_l4.contract)
    fix g e assume "g \<in> {g. watched p sc env order sim g}" "e = iw_env w"
    then show "\<exists>cl ds e'. sc_Group sc g = Inr cl \<and> cl (Group_ID g) e = (Inr ds, e') \<and> e' = iw_env w \<and>
        node_ids None ds = group_ids (Group_ID g) (sim_instances env (iw_env w))"
      using watched_describes [of p sc env order sim g e] assms by (auto simp: ingress_ready_def node_ids_def)
  qed
qed


section \<open>Examples\<close>

text \<open>
  \<open>fullScope.L4\<close>: the endpoint of the plugin is looked up, and every call makes a new client of it,
  an object of its own.
\<close>

definition DefaultL4Resolver :: "(Name \<Rightarrow> string + string) \<Rightarrow> nat \<Rightarrow> Name \<Rightarrow> string + (nat \<times> Name) option" where
  "DefaultL4Resolver finder i name = (case finder name of Inl err \<Rightarrow> Inl err | Inr endpoint \<Rightarrow> Inr (Some (i, name)))"

definition demo_scope :: "(nat \<times> Name, Name, unit, unit Description Mem sim_world) ingress_scope" where
  "demo_scope = \<lparr>sc_Group = \<lambda>_. Inr (controller_client (demo_controller [(''g'', demo_context)])),
     sc_L4 = DefaultL4Resolver (\<lambda>n. Inr n), sc_lb = snd, sc_Template = \<lambda>_. Inl ''no template''\<rparr>"

definition demo_route :: "int \<Rightarrow> Protocol \<Rightarrow> Route" where
  "demo_route p proto = \<lparr>ro_Port = 8080, ro_Protocol = proto, ro_LoadBalancerPort = p, ro_LoadBalancerProtocol = proto,
     ro_Certificate = None, ro_HealthMonitorPath = None\<rparr>"

definition demo_host :: "Vhost \<Rightarrow> Name \<Rightarrow> int \<Rightarrow> InstanceID \<Rightarrow> unit IngressSpec" where
  "demo_host v lb p node = \<lparr>in_Vhost = v, in_L4Plugin = lb, in_RouteSources = [], in_Routes = [demo_route p HTTP],
     in_Backends = \<lparr>bs_Groups = [''group/g''], bs_Instances = [node]\<rparr>, in_HealthChecks = []\<rparr>"

definition demo_options :: IngressOptions where
  "demo_options = \<lparr>io_HardSync = False, io_MatchByLabels = False, io_SyncInterval = 0, io_SourceKeySelector = []\<rparr>"

definition demo_managed :: "unit IngressProperties \<Rightarrow> (nat \<times> Name, unit, unit Description Mem sim_world) ingress_managed" where
  "demo_managed p = defaultBehaviors demo_scope ([] :: (string, string + (unit, unit Description Mem sim_world) RouteHandler) gomap) p demo_options"

text \<open>Load balancers without routes, and a group of two instances.\<close>

definition demo_members :: "unit Description Mem sim_world" where
  "demo_members = scaler_converge (\<lambda>ops. ops) (NewScalingGroup ''g'' 2 0) (demo_group ''g'') demo_world"

abbreviation demo_l4 :: "(l4_value Mem, l4_value) l4_env" where "demo_l4 \<equiv> mem_l4 (\<lambda>xs. xs)"

definition demo_ingress :: "(Name, l4_value Mem l4Simulator, unit Description Mem sim_world) ingress_world" where
  "demo_ingress = \<lparr>iw_l4 = NewL4 demo_l4, iw_env = demo_members\<rparr>"

lemma demo_members_ok: "sim_ok demo_env demo_sim demo_members"
  unfolding demo_members_def using demo.sim_rounds(1) [OF demo_setup(3), of "\<lambda>ops. ops"] by simp

lemma demo_ready:
  defines "m \<equiv> demo_managed [demo_host ''a.com'' ''lb1'' 80 ''n1'', demo_host ''b.com'' ''lb2'' 81 ''n2'']"
  shows "ingress_ready (demo_controller [(''g'', demo_context)]) demo_l4 (\<lambda>xs. xs) demo_env (\<lambda>xs. xs) demo_sim demo_scope m demo_ingress
    [(''a.com'', 0, ''lb1''), (''b.com'', 1, ''lb2'')] [(''a.com'', [demo_route 80 HTTP]), (''b.com'', [demo_route 81 HTTP])]
    [(''a.com'', [''group/g'']), (''b.com'', [''group/g''])] [(''a.com'', [''n1'']), (''b.com'', [''n2''])]"
proof -
  let ?p = "[demo_host ''a.com'' ''lb1'' 80 ''n1'', demo_host ''b.com'' ''lb2'' 81 ''n2'']"
  have L: "L4Func ?p (\<lambda>i spec. sc_L4 demo_scope i (in_L4Plugin spec)) = [(''a.com'', 0, ''lb1''), (''b.com'', 1, ''lb2'')]" by code_simp
  have R: "IngressRoutes ([] :: (string, string + (unit, unit Description Mem sim_world) RouteHandler) gomap) ?p demo_options g =
      Inr [(''a.com'', [demo_route 80 HTTP]), (''b.com'', [demo_route 81 HTTP])]" for g
    by code_simp
  have G: "Groups ?p = [(''a.com'', [''group/g'']), (''b.com'', [''group/g''])]" "InstanceIDs ?p = [(''a.com'', [''n1'']), (''b.com'', [''n2''])]"
    "HealthChecks ?p = [(''a.com'', []), (''b.com'', [])]" "Group_ID ''group/g'' = ''g''" by code_simp+
  have S: "io_SourceKeySelector demo_options = []" "sc_lb demo_scope = snd" by (simp_all add: demo_options_def demo_scope_def)
  have W: "watched (demo_controller [(''g'', demo_context)]) demo_scope demo_env (\<lambda>xs. xs) demo_sim ''group/g''"
    unfolding watched_def G(4) using demo_setup(1) [of "''g''"] by (auto simp: demo_scope_def demo_controller_def demo_context_def)
  show ?thesis
    using NewL4_ok [of demo_l4 "\<lambda>xs. xs"] demo_members_ok W
    by (auto simp: ingress_ready_def m_def demo_managed_def defaultBehaviors_def L R G demo_ingress_def S caches_ok_def)
qed

interpretation demo_in: ingress_env "sim_L4 demo_l4" "lb_ok demo_l4" "lb_routes demo_l4" lb_backends demo_scope None "\<lambda>e. e = demo_members"
  "{g. watched (demo_controller [(''g'', demo_context)]) demo_scope demo_env (\<lambda>xs. xs) demo_sim g}" "\<lambda>g. group_ids (Group_ID g) (sim_instances demo_env demo_members)"
  using ingress_ready_env [OF demo_ready] by (simp add: demo_ingress_def)

section \<open>Properties\<close>



text \<open>
  (C21) The poller and the state machine, run on the state machine library: over any sequence of polls,
  the controller synchronises exactly once for each poll that finds it the leader, and never for one
  that finds it is not, or that cannot tell. No signal is refused, and the poller goes on.
\<close>

theorem ingress_syncs_when_leading:
  assumes "length answers = Suc n"
  shows "\<exists>s s'. ingress_set name act w = Ret s \<and>
    poll_loop reader ingress_shouldRun ingress_work cleanup (replicate n P_Tick) (answers, Ret s) = P_Waiting ([], Ret s') \<and>
    set_world s' = (act ^^ length (filter mustTrue answers)) w"
proof -
  obtain s where "ingress_set name act w = Ret s" "ingress_at act follower w s" using ingress_set_start [of name act w] by blast
  with ingress_polls [OF \<open>ingress_at act follower w s\<close> _ assms, of reader cleanup] show ?thesis by auto
qed

theorem ingress_syncs_when_leading_witness:
  "\<exists>s s'. ingress_set ''ingress'' Suc 0 = Ret s \<and>
    poll_loop False ingress_shouldRun ingress_work (\<lambda>w. w) (replicate 3 P_Tick) ([Inr True, Inl ''no manager'', Inr False, Inr True], Ret s) = P_Waiting ([], Ret s') \<and>
    set_world s' = 2"
  using ingress_syncs_when_leading [of "[Inr True, Inl ''no manager'', Inr False, Inr True]" 3 "''ingress''" Suc 0 False "\<lambda>w. w"]
  by (simp add: mustTrue_def numeral_2_eq_2)



text \<open>
  A desired route that asks for another protocol on a port in use is never put in place: creating
  comes before removing, the load balancer refuses the port, and every later round fails in the same
  way, with the old route still there.
\<close>

theorem protocol_change_stuck:
  assumes "l4_setup env order" "lb_ok env l" "d \<in> set desired" "lb_routes env l (lb_port d) = Some r" "clash r d"
  shows "let l' = ((\<lambda>l. snd (configureL4 (sim_L4 env) desired opts l)) ^^ n) l in
    lb_routes env l' (lb_port d) = Some r \<and> fst (configureL4 (sim_L4 env) desired opts l') \<noteq> None"
proof -
  note step = sim_l4.configure_clash [OF l4_setup_sim [OF assms(1)] _ assms(3) _ assms(5)]
  let ?f = "\<lambda>l. snd (configureL4 (sim_L4 env) desired opts l)"
  have I: "lb_ok env ((?f ^^ n) l) \<and> lb_routes env ((?f ^^ n) l) (lb_port d) = Some r" for n
  proof (induction n)
    case (Suc n)
    then show ?case using step [of "(?f ^^ n) l" opts] by auto
  qed (use assms in simp)
  then show ?thesis using step [of "(?f ^^ n) l" opts] by (auto simp: Let_def)
qed

theorem protocol_change_stuck_witness:
  "let l' = ((\<lambda>l. snd (configureL4 (sim_L4 demo_l4) [demo_route 80 TCP] demo_options l)) ^^ 9)
        (snd (sl_Publish demo_l4 (demo_route 80 HTTP) (NewL4 demo_l4 ''lb''))) in
    lb_routes demo_l4 l' 80 = Some (demo_route 80 HTTP) \<and> fst (configureL4 (sim_L4 demo_l4) [demo_route 80 TCP] demo_options l') \<noteq> None"
proof -
  have n: "lb_ok demo_l4 (NewL4 demo_l4 ''lb'')" "lb_routes demo_l4 (NewL4 demo_l4 ''lb'') = Map.empty" using NewL4_ok [of demo_l4 "\<lambda>xs. xs" "''lb''"] by auto
  have "\<exists>l. sl_Publish demo_l4 (demo_route 80 HTTP) (NewL4 demo_l4 ''lb'') = (None, l) \<and> lb_ok demo_l4 l \<and> lb_routes demo_l4 l = [80 \<mapsto> demo_route 80 HTTP]"
    using mem_lb.sl_Publish_ok [OF n(1), of "demo_route 80 HTTP"] n(2) by (auto simp: demo_route_def)
  then obtain l where l: "sl_Publish demo_l4 (demo_route 80 HTTP) (NewL4 demo_l4 ''lb'') = (None, l)" "lb_ok demo_l4 l" "lb_routes demo_l4 l = [80 \<mapsto> demo_route 80 HTTP]"
    by blast
  have "clash (demo_route 80 HTTP) (demo_route 80 TCP)" by code_simp
  from protocol_change_stuck [OF mem_l4_setup l(2) _ _ this, where desired = "[demo_route 80 TCP]" and opts = demo_options and n = 9] show ?thesis
    using l by (simp add: demo_route_def)
qed

text \<open>
  The simulated load balancer writes a health check among its routes. From then on no
  configuration of routes succeeds, since what reads as a route on port 0 cannot be unpublished.
\<close>

theorem health_check_blocks_routes:
  assumes "l4_setup env order" "lb_ok env l" "lb_routes env l 0 = None" "hc_BackendPort hc \<noteq> 0" "0 \<notin> ports desired"
    "le_decode_route env (le_encode_check env hc) = Inr zero_route"
  shows "fst (sl_ConfigureHealthCheck env hc l) = None \<and>
    fst (configureL4 (sim_L4 env) desired opts (snd (sl_ConfigureHealthCheck env hc l))) \<noteq> None"
  using sim_l4.health_check_blocks [OF l4_setup_sim [OF assms(1)] assms(2-4,6) _ assms(5)] by (simp add: zero_route_def)

theorem health_check_blocks_routes_witness:
  "fst (configureL4 (sim_L4 demo_l4) [demo_route 80 TCP] demo_options
     (snd (sl_ConfigureHealthCheck demo_l4 \<lparr>hc_BackendPort = 8080, hc_Healthy = 2, hc_Unhealthy = 2, hc_Interval = 10, hc_Timeout = 5\<rparr> (NewL4 demo_l4 ''lb'')))) \<noteq> None"
proof -
  let ?hc = "\<lparr>hc_BackendPort = 8080, hc_Healthy = 2, hc_Unhealthy = 2, hc_Interval = 10, hc_Timeout = 5\<rparr>"
  have n: "lb_ok demo_l4 (NewL4 demo_l4 ''lb'')" "lb_routes demo_l4 (NewL4 demo_l4 ''lb'') = Map.empty" using NewL4_ok [of demo_l4 "\<lambda>xs. xs" "''lb''"] by auto
  show ?thesis
    using health_check_blocks_routes [OF mem_l4_setup n(1), of ?hc "[demo_route 80 TCP]" demo_options] n(2) by (simp add: demo_route_def mem_l4_def)
qed

text \<open>
  Two hosts that are aliases of one load balancer: the routes are collected by L4 object, and each
  host has an object of its own, so the second host's round removes the routes and the backends of the
  first.
\<close>

theorem aliases_overwrite:
  "case sync_action (sim_L4 demo_l4) demo_scope (\<lambda>xs. xs) (\<lambda>xs. xs) (\<lambda>xs. xs)
      (demo_managed [demo_host ''a.com'' ''lb'' 80 ''n1'', demo_host ''b.com'' ''lb'' 81 ''n2''], demo_ingress) of (c', w') \<Rightarrow>
    sl_Routes demo_l4 (iw_l4 w' ''lb'') = Inr [demo_route 81 HTTP] \<and>
    (case sl_Backends demo_l4 (iw_l4 w' ''lb'') of Inl _ \<Rightarrow> False | Inr ids \<Rightarrow> ''n2'' \<in> set ids \<and> ''n1'' \<notin> set ids)"
  by code_simp

section \<open>Load balancers stay well formed\<close>



end
