(* ===== verification/Managed_Controller.thy ===== *)
theory Managed_Controller
  imports Prelude
begin

text \<open>
  The controller that manages a collection of objects, \<open>pkg/controller/internal/controller.go\<close>, over
  the interface \<open>Managed\<close> of \<open>types.go\<close>. The ingress and the enrollment controllers are built with it.
  Its map holds pointers, which the controllers it hands out for single objects share; they are
  addresses of a store here. Metadata and events of the objects are left out.
\<close>

section \<open>Specs and objects\<close>

record Metadata =
  md_Identity :: "string option"
  md_Name :: string
  md_Tags :: tags

record 'a TSpec =
  ts_Kind :: string
  ts_Metadata :: Metadata
  ts_Properties :: "'a option"
  ts_Options :: "'a option"

record 'a TObject =
  ob_Spec :: "'a TSpec"
  ob_State :: "'a option"

text \<open>The operation is an integer in the source; any other value is an error of \<open>Commit\<close>.\<close>

datatype COperation = C_Enforce | C_Destroy | C_Other int

section \<open>The interface of managed objects\<close>

text \<open>
  An object is of type \<open>'m\<close>, the world it acts on \<open>'w\<close>. An operation may panic or block; with its result
  it returns an error, if any.
\<close>

type_synonym ('m, 'a, 'w) managed_call = "'m \<Rightarrow> 'w \<Rightarrow> (('a TObject option \<times> string option) \<times> 'm \<times> 'w) outcome"

record ('m, 'a, 'w) Managed =
  mo_Running :: "'m \<Rightarrow> bool outcome"
  mo_Stop :: "'m \<Rightarrow> 'w \<Rightarrow> ('m \<times> 'w) outcome"
  mo_CurrentSpec :: "'m \<Rightarrow> 'a TSpec"
  mo_SetPrevSpec :: "'a TSpec \<Rightarrow> 'm \<Rightarrow> 'm"
  mo_Plan :: "COperation \<Rightarrow> 'a TSpec \<Rightarrow> 'm \<Rightarrow> 'a TObject option \<times> string option"
  mo_Enforce :: "'a TSpec \<Rightarrow> ('m, 'a, 'w) managed_call"
  mo_Inspect :: "'m \<Rightarrow> 'a TObject option \<times> string option"
  mo_Free :: "('m, 'a, 'w) managed_call"
  mo_Terminate :: "('m, 'a, 'w) managed_call"

section \<open>The controller\<close>

record ('m, 'a, 'w) Controller =
  co_ops :: "('m, 'a, 'w) Managed"
  co_alloc :: "'a TSpec \<Rightarrow> string + 'm"
  co_keyfunc :: "Metadata \<Rightarrow> string"
  co_managed :: "(string, nat) gomap"

text \<open>What the pointers point to, and the next free address; and the world.\<close>

record ('m, 'w) mstate =
  ms_cell :: "nat \<Rightarrow> 'm"
  ms_next :: nat
  ms_world :: 'w

definition NewController :: "('m, 'a, 'w) Managed \<Rightarrow> ('a TSpec \<Rightarrow> string + 'm) \<Rightarrow> (Metadata \<Rightarrow> string) \<Rightarrow> ('m, 'a, 'w) Controller" where
  "NewController ops alloc keyfunc = \<lparr>co_ops = ops, co_alloc = alloc, co_keyfunc = keyfunc, co_managed = []\<rparr>"

definition getManaged :: "Metadata option \<Rightarrow> 'a TSpec option \<Rightarrow> ('m, 'a, 'w) Controller \<Rightarrow> ('m, 'w) mstate \<Rightarrow>
    (string + nat list) \<times> ('m, 'a, 'w) Controller \<times> ('m, 'w) mstate" where
  "getManaged search spec c s = (case search of
     None \<Rightarrow> (Inr (map snd (co_managed c)), c, s)
   | Some md \<Rightarrow> (let key = co_keyfunc c md in
       if key = [] \<and> spec \<noteq> None then (Inl ''must specify name'', c, s)
       else (case gm_get (co_managed c) key of
           Some ptr \<Rightarrow> (Inr [ptr], c, s)
         | None \<Rightarrow> (case spec of
             None \<Rightarrow> (Inr [], c, s)
           | Some sp \<Rightarrow> (case co_alloc c sp of
               Inl err \<Rightarrow> (Inl err, c, s)
             | Inr m \<Rightarrow> (Inr [ms_next s], c\<lparr>co_managed := gm_put key (ms_next s) (co_managed c)\<rparr>,
                 s\<lparr>ms_cell := (ms_cell s)(ms_next s := m), ms_next := Suc (ms_next s)\<rparr>))))))"

definition Controllers :: "('m, 'a, 'w) Controller \<Rightarrow> (string, ('m, 'a, 'w) Controller) gomap" where
  "Controllers c = fold (\<lambda>(k, v) out. gm_put k (c\<lparr>co_managed := [(k, v)]\<rparr>) out) (co_managed c) [([], c)]"

definition zero_spec :: "'a TSpec" where
  "zero_spec = \<lparr>ts_Kind = [], ts_Metadata = \<lparr>md_Identity = None, md_Name = [], md_Tags = []\<rparr>, ts_Properties = None, ts_Options = None\<rparr>"

definition zero_object :: "'a TObject" where
  "zero_object = \<lparr>ob_Spec = zero_spec, ob_State = None\<rparr>"

definition or_zero :: "'a TObject option \<Rightarrow> 'a TObject" where
  "or_zero ob = (case ob of Some v \<Rightarrow> v | None \<Rightarrow> zero_object)"

text \<open>\<open>m[0]\<close> of an empty slice panics; \<open>Plan\<close> has no check for it.\<close>

definition Controller_Plan :: "COperation \<Rightarrow> 'a TSpec \<Rightarrow> ('m, 'a, 'w) Controller \<Rightarrow> ('m, 'w) mstate \<Rightarrow>
    (('a TObject \<times> string option) \<times> ('m, 'a, 'w) Controller \<times> ('m, 'w) mstate) outcome" where
  "Controller_Plan operation spec c s = (case getManaged (Some (ts_Metadata spec)) (Some spec) c s of
     (Inl err, c, s) \<Rightarrow> Ret ((zero_object, Some err), c, s)
   | (Inr [], c, s) \<Rightarrow> Panics
   | (Inr (ptr # _), c, s) \<Rightarrow> (case mo_Plan (co_ops c) operation spec (ms_cell s ptr) of
       (o', e) \<Rightarrow> Ret ((or_zero o', e), c, s)))"

text \<open>The case of \<open>Enforce\<close> when the object runs: it is stopped and replaced by a new one.\<close>

definition replace_running :: "'a TSpec \<Rightarrow> nat \<Rightarrow> ('m, 'a, 'w) Controller \<Rightarrow> ('m, 'w) mstate \<Rightarrow>
    (string + 'a TSpec \<times> ('m, 'w) mstate) outcome \<times> ('m, 'w) mstate" where
  "replace_running spec ptr c s = (let
     spec = (if md_Identity (ts_Metadata spec) = None
       then spec\<lparr>ts_Metadata := (ts_Metadata spec)\<lparr>md_Identity := Some (md_Name (ts_Metadata spec))\<rparr>\<rparr> else spec)
   in case mo_Stop (co_ops c) (ms_cell s ptr) (ms_world s) of
        Panics \<Rightarrow> (Panics, s)
      | Blocks \<Rightarrow> (Blocks, s)
      | Ret (m, w) \<Rightarrow> (let s = s\<lparr>ms_cell := (ms_cell s)(ptr := m), ms_world := w\<rparr> in
          case co_alloc c spec of
            Inl err \<Rightarrow> (Ret (Inl err), s)
          | Inr new \<Rightarrow> (Ret (Inr (spec, s\<lparr>ms_cell := (ms_cell s)(ptr := mo_SetPrevSpec (co_ops c) (mo_CurrentSpec (co_ops c) m) new)\<rparr>)), s)))"

text \<open>A call of an operation of the object at an address.\<close>

definition managed_do :: "nat \<Rightarrow> ('m, 'a, 'w) managed_call \<Rightarrow> ('m, 'w) mstate \<Rightarrow> (('a TObject option \<times> string option) \<times> ('m, 'w) mstate) outcome" where
  "managed_do ptr f s = andthen (f (ms_cell s ptr) (ms_world s)) (\<lambda>(r, m, w). Ret (r, s\<lparr>ms_cell := (ms_cell s)(ptr := m), ms_world := w\<rparr>))"

definition Commit :: "COperation \<Rightarrow> 'a TSpec \<Rightarrow> ('m, 'a, 'w) Controller \<Rightarrow> ('m, 'w) mstate \<Rightarrow>
    (('a TObject \<times> string option) \<times> ('m, 'a, 'w) Controller \<times> ('m, 'w) mstate) outcome" where
  "Commit operation spec c s = (case getManaged (Some (ts_Metadata spec)) (Some spec) c s of
     (Inl err, c, s) \<Rightarrow> Ret ((zero_object, Some err), c, s)
   | (Inr [], c, s) \<Rightarrow> Ret ((zero_object, Some (''no managed object found '' @ md_Name (ts_Metadata spec))), c, s)
   | (Inr (ptr # _), c, s) \<Rightarrow> (case operation of
       C_Enforce \<Rightarrow> andthen (mo_Running (co_ops c) (ms_cell s ptr)) (\<lambda>running.
         case (if running then replace_running spec ptr c s else (Ret (Inr (spec, s)), s)) of (r, s') \<Rightarrow>
         andthen r (\<lambda>r. case r of
           Inl err \<Rightarrow> Ret ((zero_object, Some err), c, s')
         | Inr (spec, s) \<Rightarrow> andthen (managed_do ptr (mo_Enforce (co_ops c) spec) s) (\<lambda>((o', e), s). Ret ((or_zero o', e), c, s))))
     | C_Destroy \<Rightarrow> andthen (managed_do ptr (mo_Terminate (co_ops c)) s) (\<lambda>((o', e), s). Ret ((or_zero o', e), c, s))
     | C_Other i \<Rightarrow> Ret ((zero_object, Some (''unknown operation: '' @ show_int i)), c, s)))"

definition controller_describe :: "Metadata option \<Rightarrow> ('m, 'a, 'w) Controller \<Rightarrow> ('m, 'w) mstate \<Rightarrow> string + 'a TObject list" where
  "controller_describe search c s = (case getManaged search None c s of
     (Inl err, _) \<Rightarrow> Inl err
   | (Inr ms, _) \<Rightarrow> forM (\<lambda>objects ptr. case mo_Inspect (co_ops c) (ms_cell s ptr) of
         (_, Some err) \<Rightarrow> Inl err
       | (None, None) \<Rightarrow> Inr objects
       | (Some ob, None) \<Rightarrow> Inr (objects @ [ob])) [] ms)"

text \<open>\<open>Free\<close> discards what the object's \<open>Free\<close> returns.\<close>

fun free_each :: "'a TObject list \<Rightarrow> ('m, 'a, 'w) Controller \<Rightarrow> 'a TObject list \<Rightarrow> ('m, 'w) mstate \<Rightarrow>
    ((string + 'a TObject list) \<times> ('m, 'w) mstate) outcome" where
  "free_each [] c objects s = Ret (Inr objects, s)"
| "free_each (candidate # rest) c objects s = (case getManaged (Some (ts_Metadata (ob_Spec candidate))) None c s of
     (Inl err, _) \<Rightarrow> Ret (Inl err, s)
   | (Inr [ptr], _) \<Rightarrow> andthen (managed_do ptr (mo_Free (co_ops c)) s) (\<lambda>(_, s). free_each rest c (objects @ [candidate]) s)
   | (Inr _, _) \<Rightarrow> free_each rest c objects s)"

definition Controller_Free :: "Metadata option \<Rightarrow> ('m, 'a, 'w) Controller \<Rightarrow> ('m, 'w) mstate \<Rightarrow> ((string + 'a TObject list) \<times> ('m, 'w) mstate) outcome" where
  "Controller_Free search c s = (case controller_describe search c s of
     Inl err \<Rightarrow> Ret (Inl err, s)
   | Inr described \<Rightarrow> free_each described c [] s)"

section \<open>What a commit achieves\<close>

text \<open>The pointers of the map are different, and below the next free address.\<close>

definition controller_inv :: "('m, 'a, 'w) Controller \<Rightarrow> ('m, 'w) mstate \<Rightarrow> bool" where
  "controller_inv c s \<longleftrightarrow> gm_ok (co_managed c) \<and> distinct (map snd (co_managed c)) \<and> (\<forall>p \<in> snd ` set (co_managed c). p < ms_next s)"

lemma controller_inv_inj:
  assumes "controller_inv c s" "gm_get (co_managed c) k = Some p" "gm_get (co_managed c) k' = Some p"
  shows "k = k'"
proof -
  have "(k, p) \<in> set (co_managed c)" "(k', p) \<in> set (co_managed c)" using assms(2,3) by (auto dest: map_of_SomeD)
  moreover have "inj_on snd (set (co_managed c))" using assms(1) by (simp add: controller_inv_def distinct_map)
  ultimately have "(k, p) = (k', p)" using inj_onD [of snd "set (co_managed c)" "(k, p)" "(k', p)"] by simp
  then show ?thesis by simp
qed

lemma getManaged_found:
  assumes "controller_inv c s" "getManaged (Some md) (Some spec) c s = (Inr ps, c', s')"
  obtains ptr where "ps = [ptr]" "gm_get (co_managed c') (co_keyfunc c md) = Some ptr" "co_ops c' = co_ops c" "co_alloc c' = co_alloc c" "co_keyfunc c' = co_keyfunc c"
    "controller_inv c' s'" "ms_world s' = ms_world s"
    "\<And>k. k \<noteq> co_keyfunc c md \<Longrightarrow> gm_get (co_managed c') k = gm_get (co_managed c) k"
    "\<And>k p. gm_get (co_managed c) k = Some p \<Longrightarrow> ms_cell s' p = ms_cell s p"
proof (cases "gm_get (co_managed c) (co_keyfunc c md)")
  case (Some ptr)
  then have e: "ps = [ptr]" "c' = c" "s' = s" using assms(2) by (auto simp: getManaged_def Let_def split: if_splits)
  show thesis by (rule that [of ptr]) (use e Some assms(1) in simp_all)
next
  case None
  then obtain m where m: "co_alloc c spec = Inr m" "ps = [ms_next s]" "c' = c\<lparr>co_managed := gm_put (co_keyfunc c md) (ms_next s) (co_managed c)\<rparr>"
    "s' = s\<lparr>ms_cell := (ms_cell s)(ms_next s := m), ms_next := Suc (ms_next s)\<rparr>"
    using assms(2) by (auto simp: getManaged_def Let_def split: if_splits sum.splits)
  have p: "gm_put (co_keyfunc c md) (ms_next s) (co_managed c) = co_managed c @ [(co_keyfunc c md, ms_next s)]"
    using None by (intro gm_put_fresh) (simp add: gm_has_def)
  have "ms_next s \<notin> snd ` set (co_managed c)" using assms(1) by (auto simp: controller_inv_def)
  moreover have "gm_ok (co_managed c @ [(co_keyfunc c md, ms_next s)])"
    using assms(1) gm_ok_put [of "co_managed c" "co_keyfunc c md" "ms_next s"] by (simp add: controller_inv_def p)
  ultimately have "controller_inv c' s'" using assms(1) by (auto simp: controller_inv_def m(3,4) p less_Suc_eq)
  moreover have "ms_cell s' q = ms_cell s q" if "gm_get (co_managed c) k = Some q" for k q
  proof -
    have "q \<in> snd ` set (co_managed c)" using imageI [OF map_of_SomeD [OF that], of snd] by simp
    then have "q < ms_next s" using assms(1) unfolding controller_inv_def by blast
    then show ?thesis by (simp add: m(4))
  qed
  ultimately show thesis by (intro that [of "ms_next s"]) (use m(2-4) in simp_all)
qed

text \<open>A commit enforces the spec on some object, with the identity added or not.\<close>

definition identified :: "'a TSpec \<Rightarrow> 'a TSpec" where
  "identified spec = spec\<lparr>ts_Metadata := (ts_Metadata spec)\<lparr>md_Identity := Some (md_Name (ts_Metadata spec))\<rparr>\<rparr>"

lemma replace_running_spec: "replace_running spec ptr c s = (Ret (Inr (sp, s2)), s') \<Longrightarrow> sp \<in> {spec, identified spec}"
  by (auto simp: replace_running_def identified_def Let_def split: outcome.splits sum.splits)

lemma commit_enforces:
  assumes "Commit C_Enforce spec c s = Ret ((ob, None), c', s')"
  shows "\<exists>sp m w o' m' w'. mo_Enforce (co_ops c) sp m w = Ret ((o', None), m', w') \<and> ob = or_zero o' \<and> sp \<in> {spec, identified spec}"
proof -
  obtain r c1 s1 where g: "getManaged (Some (ts_Metadata spec)) (Some spec) c s = (r, c1, s1)" by (rule prod_cases3)
  then have ops: "co_ops c1 = co_ops c" by (auto simp: getManaged_def Let_def split: if_splits option.splits sum.splits)
  obtain ptr rest where r: "r = Inr (ptr # rest)" using assms g by (auto simp: Commit_def split: sum.splits list.splits)
  obtain b where b: "mo_Running (co_ops c) (ms_cell s1 ptr) = Ret b" using assms by (auto simp: Commit_def g r ops andthen_Ret_iff)
  obtain q s0 where q: "(if b then replace_running spec ptr c1 s1 else (Ret (Inr (spec, s1)), s1)) = (q, s0)" by force
  then have "andthen q (\<lambda>r. case r of Inl err \<Rightarrow> Ret ((zero_object, Some err), c1, s0)
      | Inr (spec, s) \<Rightarrow> andthen (managed_do ptr (mo_Enforce (co_ops c) spec) s) (\<lambda>((o', e), s). Ret ((or_zero o', e), c1, s))) = Ret ((ob, None), c', s')"
    using assms by (simp add: Commit_def g r ops b)
  then obtain q' where q': "q = Ret q'" "(case q' of Inl err \<Rightarrow> Ret ((zero_object, Some err), c1, s0)
      | Inr (spec, s) \<Rightarrow> andthen (managed_do ptr (mo_Enforce (co_ops c) spec) s) (\<lambda>((o', e), s). Ret ((or_zero o', e), c1, s))) = Ret ((ob, None), c', s')"
    unfolding andthen_Ret_iff by blast
  obtain sp s2 where i: "q' = Inr (sp, s2)" using q'(2) by (cases q') auto
  then have sp: "q = Ret (Inr (sp, s2))" "andthen (managed_do ptr (mo_Enforce (co_ops c) sp) s2) (\<lambda>((o', e), s). Ret ((or_zero o', e), c1, s)) = Ret ((ob, None), c', s')"
    using q' by simp_all
  have "sp \<in> {spec, identified spec}" using q sp(1) replace_running_spec [of spec ptr c1 s1 sp s2 s0] by (auto split: if_splits)
  moreover have "\<exists>m w o' m' w'. mo_Enforce (co_ops c) sp m w = Ret ((o', None), m', w') \<and> ob = or_zero o'"
    using sp(2) by (auto simp: managed_do_def andthen_Ret_iff) blast
  ultimately show ?thesis by blast
qed

text \<open>What the controller relies on: a successful \<open>Enforce\<close> gives the object that is inspected afterwards.\<close>

locale managed_contract =
  fixes ops :: "('m, 'a, 'w) Managed"
  assumes Enforce_object: "mo_Enforce ops spec m w = Ret ((ob, None), m', w') \<Longrightarrow> ob \<noteq> None \<and> mo_Inspect ops m' = (ob, None)"
begin

lemma commit_describes:
  assumes inv: "controller_inv c s" and ops: "co_ops c = ops" and r: "Commit C_Enforce spec c s = Ret ((ob, None), c', s')"
  shows "controller_inv c' s' \<and> controller_describe (Some (ts_Metadata spec)) c' s' = Inr [ob] \<and>
    (\<forall>md. co_keyfunc c md \<noteq> co_keyfunc c (ts_Metadata spec) \<longrightarrow> controller_describe (Some md) c' s' = controller_describe (Some md) c s)"
proof -
  obtain ps c1 s1 where g: "getManaged (Some (ts_Metadata spec)) (Some spec) c s = (Inr ps, c1, s1)"
    using r by (auto simp: Commit_def split: sum.splits prod.splits)
  obtain ptr where p: "ps = [ptr]" "gm_get (co_managed c1) (co_keyfunc c (ts_Metadata spec)) = Some ptr" "co_ops c1 = co_ops c" "co_keyfunc c1 = co_keyfunc c"
    "controller_inv c1 s1" "\<And>k. k \<noteq> co_keyfunc c (ts_Metadata spec) \<Longrightarrow> gm_get (co_managed c1) k = gm_get (co_managed c) k"
    "\<And>k p. gm_get (co_managed c) k = Some p \<Longrightarrow> ms_cell s1 p = ms_cell s p"
    using getManaged_found [OF inv g] by metis
  from r obtain b where b: "mo_Running ops (ms_cell s1 ptr) = Ret b" by (auto simp: Commit_def g p(1,3) ops andthen_Ret_iff)
  obtain r1 s0 where r1: "(if b then replace_running spec ptr c1 s1 else (Ret (Inr (spec, s1)), s1)) = (r1, s0)" by force
  then have "andthen r1 (\<lambda>r. case r of Inl err \<Rightarrow> Ret ((zero_object, Some err), c1, s0)
      | Inr (spec, s) \<Rightarrow> andthen (managed_do ptr (mo_Enforce ops spec) s) (\<lambda>((o', e), s). Ret ((or_zero o', e), c1, s))) = Ret ((ob, None), c', s')"
    using r by (simp add: Commit_def g p(1,3) ops b)
  then obtain q where q: "r1 = Ret q" "(case q of Inl err \<Rightarrow> Ret ((zero_object, Some err), c1, s0)
      | Inr (spec, s) \<Rightarrow> andthen (managed_do ptr (mo_Enforce ops spec) s) (\<lambda>((o', e), s). Ret ((or_zero o', e), c1, s))) = Ret ((ob, None), c', s')"
    by (auto simp: andthen_Ret_iff)
  obtain sp s2 where "q = Inr (sp, s2)" using q(2) by (cases q) auto
  then have s2: "(if b then replace_running spec ptr c1 s1 else (Ret (Inr (spec, s1)), s1)) = (Ret (Inr (sp, s2)), s0)"
    and e: "andthen (managed_do ptr (mo_Enforce ops sp) s2) (\<lambda>((o', e), s). Ret ((or_zero o', e), c1, s)) = Ret ((ob, None), c', s')"
    using q r1 by simp_all
  have f2: "ms_cell s2 q = ms_cell s1 q" if "q \<noteq> ptr" for q
    using s2 that by (auto simp: replace_running_def Let_def split: if_splits outcome.splits sum.splits prod.splits)
  have n2: "ms_next s2 = ms_next s1"
    using s2 by (auto simp: replace_running_def Let_def split: if_splits outcome.splits sum.splits prod.splits)
  from e obtain o' m' w' where m': "mo_Enforce ops sp (ms_cell s2 ptr) (ms_world s2) = Ret ((o', None), m', w')" "ob = or_zero o'" "c' = c1"
    "s' = s2\<lparr>ms_cell := (ms_cell s2)(ptr := m'), ms_world := w'\<rparr>" by (auto simp: managed_do_def andthen_Ret_iff)
  have o': "o' = Some ob" "mo_Inspect ops m' = (Some ob, None)" using Enforce_object [OF m'(1)] m'(2) by (auto simp: or_zero_def)
  have "controller_inv c' s'" using p(5) by (simp add: controller_inv_def m'(3,4) n2)
  moreover have "controller_describe (Some (ts_Metadata spec)) c' s' = Inr [ob]"
    using p(2,3,4) o'(2) by (simp add: controller_describe_def getManaged_def m'(3,4) ops Let_def)
  moreover have "controller_describe (Some md) c' s' = controller_describe (Some md) c s" if "co_keyfunc c md \<noteq> co_keyfunc c (ts_Metadata spec)" for md
  proof (cases "gm_get (co_managed c) (co_keyfunc c md)")
    case (Some q)
    then have "gm_get (co_managed c1) (co_keyfunc c md) = Some q" using p(6) that by simp
    then have "q \<noteq> ptr" using controller_inv_inj [OF p(5) _ p(2)] that by blast
    then have "ms_cell s' q = ms_cell s q" using f2 p(7) [OF Some] by (simp add: m'(4))
    then show ?thesis using Some p(3,4,6) that by (simp add: controller_describe_def getManaged_def m'(3) Let_def split: sum.splits)
  qed (use p(3,4,6) that in \<open>simp add: controller_describe_def getManaged_def m'(3) Let_def\<close>)
  ultimately show ?thesis by blast
qed

end

text \<open>
  The objects are built to be stopped once. An object that keeps reporting that it runs after it was
  stopped cannot be replaced any more.
\<close>

lemma commit_stopped_panics:
  assumes "gm_get (co_managed c) (co_keyfunc c (ts_Metadata spec)) = Some ptr" "co_keyfunc c (ts_Metadata spec) \<noteq> []"
    "mo_Running (co_ops c) (ms_cell s ptr) = Ret True" "mo_Stop (co_ops c) (ms_cell s ptr) (ms_world s) = Panics"
  shows "Commit C_Enforce spec c s = Panics"
  using assms by (simp add: Commit_def getManaged_def Let_def replace_running_def)

end
