(* ===== verification/Enrollment.thy ===== *)
theory Enrollment
  imports Descriptions Plugin_Name Poller Managed_Controller
begin

text \<open>
  The enrollment controller (\<open>pkg/controller/enrollment\<close>): it keeps the records of an instance plugin, the
  sink, in step with a list of source instances. Its options and properties (\<open>types/types.go\<close>), the
  difference of two lists (\<open>set.go\<close>), a round of synchronisation (\<open>sync.go\<close>), and the managed object
  (\<open>enroller.go\<close>, \<open>controller.go\<close>). \<open>'a\<close> is encoded data, \<open>'p\<close> the properties of instances, \<open>'w\<close> the world
  of the plugins.
\<close>

section \<open>Options and properties\<close>

definition SourceParseErrorEnableDestroy :: string where "SourceParseErrorEnableDestroy = ''EnableDestroy''"
definition SourceParseErrorDisableDestroy :: string where "SourceParseErrorDisableDestroy = ''DisableDestroy''"
definition EnrolledParseErrorEnableProvision :: string where "EnrolledParseErrorEnableProvision = ''EnableProvision''"
definition EnrolledParseErrorDisableProvision :: string where "EnrolledParseErrorDisableProvision = ''DisableProvision''"

datatype PluginPhase = PluginInit | PluginCommit

text \<open>Labels are a map that may be nil; a nil pointer to encoded data is \<open>None\<close>.\<close>

record 'a EnPluginSpec =
  ep_Plugin :: Name
  ep_Labels :: "tags option"
  ep_Properties :: "'a option"

record 'a EnProperties =
  en_List :: "'a option"
  en_Instance :: "'a EnPluginSpec"

record EnOptions =
  eo_SourceKeySelector :: string
  eo_SourceParseErrPolicy :: string
  eo_EnrollmentKeySelector :: string
  eo_EnrollmentParseErrPolicy :: string
  eo_SyncInterval :: int
  eo_DestroyOnTerminate :: bool

definition EnOptions_Validate :: "PluginPhase \<Rightarrow> EnOptions \<Rightarrow> string option" where
  "EnOptions_Validate phase op =
     (if phase = PluginInit \<and> eo_SyncInterval op \<le> 0 then Some ''SyncInterval must be greater than 0''
      else if eo_SourceParseErrPolicy op \<notin> {SourceParseErrorEnableDestroy, SourceParseErrorDisableDestroy} then
        Some (''SourceParseErrPolicy value '' @ [CHR 0x27] @ eo_SourceParseErrPolicy op @ [CHR 0x27] @ '' is not supported, valid values: [EnableDestroy DisableDestroy]'')
      else if eo_EnrollmentParseErrPolicy op \<notin> {EnrolledParseErrorEnableProvision, EnrolledParseErrorDisableProvision} then
        Some (''EnrollmentParseErrPolicy value '' @ [CHR 0x27] @ eo_EnrollmentParseErrPolicy op @ [CHR 0x27] @ '' is not supported, valid values: [EnableProvision DisableProvision]'')
      else None)"

definition DefaultEnOptions :: EnOptions where
  "DefaultEnOptions = \<lparr>eo_SourceKeySelector = [], eo_SourceParseErrPolicy = SourceParseErrorEnableDestroy, eo_EnrollmentKeySelector = [],
     eo_EnrollmentParseErrPolicy = EnrolledParseErrorEnableProvision, eo_SyncInterval = 5 * 10 ^ 9, eo_DestroyOnTerminate = False\<rparr>"

section \<open>The difference of two lists\<close>

definition Delta :: "(string list \<Rightarrow> string list) \<Rightarrow> 'p Description list \<Rightarrow> 'p KeyFunc \<Rightarrow> string \<Rightarrow> 'p Description list \<Rightarrow> 'p KeyFunc \<Rightarrow> string \<Rightarrow>
    'p Description list \<times> 'p Description list" where
  "Delta order list listKeyFunc listParseOp other otherKeyFunc otherParseOp =
     (case (Descriptions_Index list listKeyFunc, Descriptions_Index other otherKeyFunc) of ((thisIndex, errList), (thatIndex, errOther)) \<Rightarrow>
       let processRemove = (errList = None \<or> listParseOp \<noteq> SourceParseErrorDisableDestroy);
           remove = (if processRemove then Index_Select order thatIndex (set_Difference (ix_Keys thatIndex) (ix_Keys thisIndex)) else []);
           processAdd = (errOther = None \<or> otherParseOp \<noteq> EnrolledParseErrorDisableProvision);
           add = (if processAdd then Index_Select order thisIndex (set_Difference (ix_Keys thisIndex) (ix_Keys thatIndex)) else [])
       in (add, remove))"

section \<open>The enroller\<close>

text \<open>
  What the enroller is built with: the decoders of its data, the template engine, and the plugins the
  scope resolves.
\<close>

record ('a, 'p, 'w) en_env =
  ee_options :: "'a \<Rightarrow> EnOptions \<Rightarrow> string + EnOptions"
  ee_properties :: "'a \<Rightarrow> string + 'a EnProperties"
  ee_descriptions :: "'a option \<Rightarrow> string + 'p Description list"
  ee_name :: "'a option \<Rightarrow> string + Name"
  ee_template :: "string \<Rightarrow> string + 'p Template"
  ee_bytes :: "'a \<Rightarrow> string"
  ee_value :: "'p Description \<Rightarrow> string + 'p"
  ee_string :: "string \<Rightarrow> 'p"
  ee_Group :: "Name \<Rightarrow> string + ('p, 'w) GroupClient"
  ee_Instance :: "Name \<Rightarrow> string + ('p, 'w) instance_plugin"

text \<open>\<open>el_locked\<close>: the lock is held by a call that has returned.\<close>

record ('a, 'p) enroller =
  el_spec :: "'a TSpec"
  el_properties :: "'a EnProperties"
  el_options :: EnOptions
  el_poller :: poller
  el_running :: bool
  el_locked :: bool
  el_sourceTemplate :: "'p Template option"
  el_enrollmentTemplate :: "'p Template option"
  el_propertiesTemplate :: "'p Template option"

definition zero_properties :: "'a EnProperties" where
  "zero_properties = \<lparr>en_List = None, en_Instance = \<lparr>ep_Plugin = [], ep_Labels = None, ep_Properties = None\<rparr>\<rparr>"

definition newEnroller :: "EnOptions \<Rightarrow> string + ('a, 'p) enroller" where
  "newEnroller options = (case EnOptions_Validate PluginInit options of
     Some err \<Rightarrow> Inl err
   | None \<Rightarrow> Inr \<lparr>el_spec = zero_spec, el_properties = zero_properties, el_options = options, el_poller = Poll True, el_running = False,
       el_locked = False, el_sourceTemplate = None, el_enrollmentTemplate = None, el_propertiesTemplate = None\<rparr>)"

section \<open>A round\<close>

definition getSourceInstances :: "('a, 'p, 'w) en_env \<Rightarrow> ('a, 'p) enroller \<Rightarrow> 'w \<Rightarrow> (string + 'p Description list) \<times> 'w" where
  "getSourceInstances ee l w = (case ee_descriptions ee (en_List (el_properties l)) of
     Inr list \<Rightarrow> (Inr list, w)
   | Inl _ \<Rightarrow> (case ee_name ee (en_List (el_properties l)) of
       Inl _ \<Rightarrow> (Inl ''no list source specified'', w)
     | Inr pn \<Rightarrow> (case ee_Group ee pn of
         Inl _ \<Rightarrow> (Inl (''cannot connect to group '' @ pn), w)
       | Inr gp \<Rightarrow> gp (Name_Type pn) w)))"

definition getEnrolledInstances :: "('a, 'p, 'w) en_env \<Rightarrow> ('a, 'p) enroller \<Rightarrow> 'w \<Rightarrow> (string + 'p Description list) \<times> 'w" where
  "getEnrolledInstances ee l w = (case ee_Instance ee (ep_Plugin (en_Instance (el_properties l))) of
     Inl err \<Rightarrow> (Inl err, w)
   | Inr instancePlugin \<Rightarrow> ip_DescribeInstances instancePlugin (case ep_Labels (en_Instance (el_properties l)) of None \<Rightarrow> [] | Some t \<Rightarrow> t) True w)"

text \<open>The three templates: made once, unless there is nothing to make them from. The lock is taken.\<close>

definition en_template :: "('a, 'p, 'w) en_env \<Rightarrow> string option \<Rightarrow> 'p Template option \<Rightarrow> string + 'p Template option" where
  "en_template ee source cached = (case (source, cached) of
     (Some text, None) \<Rightarrow> (case ee_template ee text of Inl err \<Rightarrow> Inl err | Inr t \<Rightarrow> Inr (Some t))
   | _ \<Rightarrow> Inr cached)"

definition selector :: "string \<Rightarrow> string option" where
  "selector s = (if s \<noteq> [] then Some s else None)"

definition en_sourceTemplate :: "('a, 'p, 'w) en_env \<Rightarrow> ('a, 'p) enroller \<Rightarrow> string + 'p Template option" where
  "en_sourceTemplate ee l = en_template ee (selector (eo_SourceKeySelector (el_options l))) (el_sourceTemplate l)"

definition getEnrollmentKeySelectorTemplate :: "('a, 'p, 'w) en_env \<Rightarrow> ('a, 'p) enroller \<Rightarrow> string + 'p Template option" where
  "getEnrollmentKeySelectorTemplate ee l = en_template ee (selector (eo_EnrollmentKeySelector (el_options l))) (el_enrollmentTemplate l)"

definition getEnrollmentPropertiesTemplate :: "('a, 'p, 'w) en_env \<Rightarrow> ('a, 'p) enroller \<Rightarrow> string + 'p Template option" where
  "getEnrollmentPropertiesTemplate ee l = en_template ee (map_option (ee_bytes ee) (ep_Properties (en_Instance (el_properties l)))) (el_propertiesTemplate l)"

definition sourceIDTag :: string where "sourceIDTag = ''infrakit.enrollment.sourceID''"
definition enrollmentNameTag :: string where "enrollmentNameTag = ''infrakit.enrollment.name''"

definition sourceKeyFunc :: "('a, 'p, 'w) en_env \<Rightarrow> ('a, 'p) enroller \<Rightarrow> 'p KeyFunc" where
  "sourceKeyFunc ee l d = (case en_sourceTemplate ee l of
     Inl err \<Rightarrow> Inl err
   | Inr (Some t) \<Rightarrow> t d
   | Inr None \<Rightarrow> Inr (de_ID d))"

definition enrolledKeyFunc :: "('a, 'p, 'w) en_env \<Rightarrow> ('a, 'p) enroller \<Rightarrow> 'p KeyFunc" where
  "enrolledKeyFunc ee l d = (case getEnrollmentKeySelectorTemplate ee l of
     Inl err \<Rightarrow> Inl err
   | Inr (Some t) \<Rightarrow> t d
   | Inr None \<Rightarrow> (case gm_get (de_Tags d) sourceIDTag of Some v \<Rightarrow> Inr v | None \<Rightarrow> Inl (''not-matched:'' @ de_ID d)))"

definition buildProperties :: "('a, 'p, 'w) en_env \<Rightarrow> ('a, 'p) enroller \<Rightarrow> 'p Description \<Rightarrow> string + 'p" where
  "buildProperties ee l d = (case getEnrollmentPropertiesTemplate ee l of
     Inl err \<Rightarrow> Inl err
   | Inr None \<Rightarrow> ee_value ee d
   | Inr (Some t) \<Rightarrow> (case t d of Inl err \<Rightarrow> Inl err | Inr view \<Rightarrow> Inr (ee_string ee view)))"

text \<open>\<open>labels\<close> writes into the map of the properties, unless that is nil.\<close>

definition en_labels :: "'p Description \<Rightarrow> ('a, 'p) enroller \<Rightarrow> tags \<times> ('a, 'p) enroller" where
  "en_labels n l = (let
     put = (\<lambda>labels. gm_put enrollmentNameTag (md_Name (ts_Metadata (el_spec l))) (gm_put sourceIDTag (de_ID n) labels))
   in case ep_Labels (en_Instance (el_properties l)) of
        None \<Rightarrow> (put [], l)
      | Some labels \<Rightarrow> (put labels, l\<lparr>el_properties := (el_properties l)\<lparr>en_Instance := (en_Instance (el_properties l))\<lparr>ep_Labels := Some (put labels)\<rparr>\<rparr>\<rparr>))"

fun enroll_each :: "('a, 'p, 'w) en_env \<Rightarrow> ('p, 'w) instance_plugin \<Rightarrow> 'p Description list \<Rightarrow> ('a, 'p) enroller \<Rightarrow> 'w \<Rightarrow> ('a, 'p) enroller \<times> 'w" where
  "enroll_each ee plugin [] l w = (l, w)"
| "enroll_each ee plugin (n # add) l w = (case buildProperties ee l n of
     Inl err \<Rightarrow> enroll_each ee plugin add l w
   | Inr props \<Rightarrow> (case en_labels n l of (labels, l) \<Rightarrow>
       enroll_each ee plugin add l (snd (ip_Provision plugin
         \<lparr>is_Properties = props, is_Tags = labels, is_Init = [], is_LogicalID = None, is_Attachments = []\<rparr> w))))"

definition remove_each :: "('p, 'w) instance_plugin \<Rightarrow> 'p Description list \<Rightarrow> 'w \<Rightarrow> 'w" where
  "remove_each plugin ds w = fold (\<lambda>n w. snd (ip_Destroy plugin (de_ID n) Termination w)) ds w"

text \<open>The templates a round has made.\<close>

definition made_template :: "string + 'p Template option \<Rightarrow> 'p Template option" where
  "made_template r = (case r of Inl _ \<Rightarrow> None | Inr t \<Rightarrow> t)"

definition cache_templates :: "('a, 'p, 'w) en_env \<Rightarrow> 'p Description list \<Rightarrow> 'p Description list \<Rightarrow> 'p Description list \<Rightarrow> ('a, 'p) enroller \<Rightarrow> ('a, 'p) enroller" where
  "cache_templates ee source enrolled add l = l\<lparr>
     el_sourceTemplate := (if source = [] then el_sourceTemplate l else made_template (en_sourceTemplate ee l)),
     el_enrollmentTemplate := (if enrolled = [] then el_enrollmentTemplate l else made_template (getEnrollmentKeySelectorTemplate ee l)),
     el_propertiesTemplate := (if add = [] then el_propertiesTemplate l else made_template (getEnrollmentPropertiesTemplate ee l))\<rparr>"

definition enroller_sync :: "('a, 'p, 'w) en_env \<Rightarrow> (string list \<Rightarrow> string list) \<Rightarrow> ('a, 'p) enroller \<Rightarrow> 'w \<Rightarrow> (string option \<times> ('a, 'p) enroller \<times> 'w) outcome" where
  "enroller_sync ee order l w = (case getSourceInstances ee l w of
     (Inl err, w) \<Rightarrow> Ret (None, l, w)
   | (Inr source, w) \<Rightarrow> (case getEnrolledInstances ee l w of
       (Inl err, w) \<Rightarrow> Ret (None, l, w)
     | (Inr enrolled, w) \<Rightarrow>
         if el_locked l \<and> (source \<noteq> [] \<or> enrolled \<noteq> []) then Blocks
         else (case Delta order source (sourceKeyFunc ee l) (eo_SourceParseErrPolicy (el_options l))
             enrolled (enrolledKeyFunc ee l) (eo_EnrollmentParseErrPolicy (el_options l)) of (add, remove) \<Rightarrow>
           (case ee_Instance ee (ep_Plugin (en_Instance (el_properties l))) of
              Inl err \<Rightarrow> Ret (Some err, cache_templates ee source enrolled [] l, w)
            | Inr plugin \<Rightarrow> (case enroll_each ee plugin add (cache_templates ee source enrolled add l) w of
                (l, w) \<Rightarrow> Ret (None, l, remove_each plugin remove w))))))"

text \<open>What the poller is built with: its condition, and its work, over the enroller and the world.\<close>

definition enroller_shouldRun :: "'x \<Rightarrow> bool \<times> 'x" where
  "enroller_shouldRun s = (True, s)"

definition enroller_work :: "('a, 'p, 'w) en_env \<Rightarrow> (string list \<Rightarrow> string list) \<Rightarrow> (('a, 'p) enroller \<times> 'w) outcome \<Rightarrow>
    string option \<times> (('a, 'p) enroller \<times> 'w) outcome" where
  "enroller_work ee order s = (case s of
     Ret (l, w) \<Rightarrow> (case enroller_sync ee order l w of
       Ret (err, l, w) \<Rightarrow> (err, Ret (l, w))
     | Blocks \<Rightarrow> (None, Blocks)
     | Panics \<Rightarrow> (None, Panics))
   | Blocks \<Rightarrow> (None, Blocks)
   | Panics \<Rightarrow> (None, Panics))"

text \<open>\<open>destroy\<close> unlocks at its end only: an error in between leaves the lock taken.\<close>

definition enroller_destroy :: "('a, 'p, 'w) en_env \<Rightarrow> ('a, 'p) enroller \<Rightarrow> 'w \<Rightarrow> (string option \<times> ('a, 'p) enroller \<times> 'w) outcome" where
  "enroller_destroy ee l w = (case ee_Instance ee (ep_Plugin (en_Instance (el_properties l))) of
     Inl err \<Rightarrow> Ret (Some err, l, w)
   | Inr plugin \<Rightarrow> if el_locked l then Blocks else (case getEnrolledInstances ee l w of
       (Inl err, w) \<Rightarrow> Ret (Some err, l\<lparr>el_locked := True\<rparr>, w)
     | (Inr enrolled, w) \<Rightarrow> Ret (None, l, remove_each plugin enrolled w)))"

section \<open>The managed object\<close>

definition enroller_object :: "('a, 'p) enroller \<Rightarrow> 'a TObject" where
  "enroller_object l = \<lparr>ob_Spec = el_spec l, ob_State = None\<rparr>"

definition enroller_Plan :: "('a, 'p, 'w) en_env \<Rightarrow> COperation \<Rightarrow> 'a TSpec \<Rightarrow> ('a, 'p) enroller \<Rightarrow> 'a TObject option \<times> string option" where
  "enroller_Plan ee operation spec l =
     (if operation = C_Destroy then (Some (enroller_object l), None)
      else (case ts_Properties spec of
          None \<Rightarrow> (None, Some ''missing properties'')
        | Some p \<Rightarrow> (case ee_properties ee p of Inl err \<Rightarrow> (None, Some err) | Inr _ \<Rightarrow> (Some \<lparr>ob_Spec = spec, ob_State = None\<rparr>, None))))"

definition locked_call :: "('a, 'p) enroller \<Rightarrow> 'b outcome \<Rightarrow> 'b outcome" where
  "locked_call l r = (if el_locked l then Blocks else r)"

definition updateOptions :: "('a, 'p, 'w) en_env \<Rightarrow> 'a TSpec \<Rightarrow> ('a, 'p) enroller \<Rightarrow> string + EnOptions" where
  "updateOptions ee spec l = (case ts_Options spec of
     None \<Rightarrow> Inr (el_options l)
   | Some a \<Rightarrow> (case ee_options ee a (el_options l) of
       Inl err \<Rightarrow> Inl err
     | Inr options \<Rightarrow> (case EnOptions_Validate PluginCommit options of Some err \<Rightarrow> Inl err | None \<Rightarrow> Inr options)))"

definition updateSpec :: "('a, 'p, 'w) en_env \<Rightarrow> 'a TSpec \<Rightarrow> ('a, 'p) enroller \<Rightarrow> (string option \<times> ('a, 'p) enroller) outcome" where
  "updateSpec ee spec l = locked_call l (case updateOptions ee spec l of
     Inl err \<Rightarrow> Ret (Some err, l)
   | Inr options \<Rightarrow> (let l = l\<lparr>el_options := options\<rparr> in
       case (case ts_Properties spec of None \<Rightarrow> Inr (el_properties l) | Some a \<Rightarrow> ee_properties ee a) of
         Inl err \<Rightarrow> Ret (Some err, l)
       | Inr properties \<Rightarrow> Ret (None, l\<lparr>el_properties := properties,
           el_spec := spec\<lparr>ts_Metadata := (ts_Metadata spec)\<lparr>md_Identity := Some (md_Name (ts_Metadata spec))\<rparr>\<rparr>\<rparr>)))"

text \<open>\<open>Start\<close> starts the goroutine of the poller, which runs rounds on its own.\<close>

definition enroller_Start :: "('a, 'p) enroller \<Rightarrow> ('a, 'p) enroller outcome" where
  "enroller_Start l = locked_call l (Ret (l\<lparr>el_running := True\<rparr>))"

definition enroller_Stop :: "('a, 'p) enroller \<Rightarrow> ('a, 'p) enroller outcome" where
  "enroller_Stop l = locked_call l (andthen (Poller_Stop (el_poller l)) (\<lambda>p. Ret (l\<lparr>el_poller := p\<rparr>)))"

definition enroller_Running :: "('a, 'p) enroller \<Rightarrow> bool outcome" where
  "enroller_Running l = locked_call l (Ret (el_running l))"

definition stop_if_running :: "('a, 'p) enroller \<Rightarrow> ('a, 'p) enroller outcome" where
  "stop_if_running l = andthen (enroller_Running l) (\<lambda>r. if r then enroller_Stop l else Ret l)"

definition enroller_Enforce :: "('a, 'p, 'w) en_env \<Rightarrow> 'a TSpec \<Rightarrow> (('a, 'p) enroller, 'a, 'w) managed_call" where
  "enroller_Enforce ee spec l w = andthen (updateSpec ee spec l) (\<lambda>(err, l). case err of
     Some e \<Rightarrow> Ret ((None, Some e), l, w)
   | None \<Rightarrow> andthen (enroller_Start l) (\<lambda>l. Ret ((Some (enroller_object l), None), l, w)))"

definition enroller_Pause :: "(('a, 'p) enroller, 'a, 'w) managed_call" where
  "enroller_Pause l w = andthen (stop_if_running l) (\<lambda>l. Ret ((Some (enroller_object l), None), l, w))"

definition enroller_Terminate :: "('a, 'p, 'w) en_env \<Rightarrow> (('a, 'p) enroller, 'a, 'w) managed_call" where
  "enroller_Terminate ee l w = (let ob = enroller_object l in andthen (stop_if_running l) (\<lambda>l.
     if eo_DestroyOnTerminate (el_options l)
     then andthen (enroller_destroy ee l w) (\<lambda>(err, l, w). Ret ((Some ob, err), l, w))
     else Ret ((Some ob, None), l, w)))"

definition enroller_ops :: "('a, 'p, 'w) en_env \<Rightarrow> (('a, 'p) enroller, 'a, 'w) Managed" where
  "enroller_ops ee = \<lparr>mo_Running = enroller_Running, mo_Stop = \<lambda>l w. andthen (enroller_Stop l) (\<lambda>l. Ret (l, w)),
     mo_CurrentSpec = \<lambda>_. zero_spec, mo_SetPrevSpec = \<lambda>_ l. l, mo_Plan = enroller_Plan ee, mo_Enforce = enroller_Enforce ee,
     mo_Inspect = \<lambda>l. (Some (enroller_object l), None), mo_Free = enroller_Pause, mo_Terminate = enroller_Terminate ee\<rparr>"

text \<open>The controller of enrollments: the objects are found by the name in their metadata.\<close>

definition NewEnrollmentController :: "('a, 'p, 'w) en_env \<Rightarrow> EnOptions \<Rightarrow> (('a, 'p) enroller, 'a, 'w) Controller" where
  "NewEnrollmentController ee options = NewController (enroller_ops ee) (\<lambda>_. newEnroller options) md_Name"

end
