(* ===== verification/Enrollment_Sync.thy ===== *)
theory Enrollment_Sync
  imports Enrollment
begin

text \<open>
  What a round of the enrollment controller establishes, over the contract of the instance plugin that
  keeps the enrollments.
\<close>

section \<open>The difference, against its reference\<close>

text \<open>The descriptions whose key is not among the keys of the other list, in the order of their ids.\<close>

definition lacking :: "'p Description list \<Rightarrow> 'p KeyFunc \<Rightarrow> 'p Description list \<Rightarrow> 'p KeyFunc \<Rightarrow> 'p Description list" where
  "lacking ds f es g = sort_key de_ID (filter (\<lambda>d. case f d of Inl _ \<Rightarrow> False | Inr k \<Rightarrow> \<forall>e \<in> set es. g e \<noteq> Inr k) ds)"

definition one_per_key :: "'p KeyFunc \<Rightarrow> 'p Description list \<Rightarrow> bool" where
  "one_per_key f ds \<longleftrightarrow> distinct (map de_ID ds) \<and> distinct (map projr (filter (\<lambda>r. \<not> isl r) (map f ds)))"

lemma one_per_key_eq: "one_per_key f ds \<Longrightarrow> d \<in> set ds \<Longrightarrow> d' \<in> set ds \<Longrightarrow> f d = Inr k \<Longrightarrow> f d' = Inr k \<Longrightarrow> d = d'"
proof (induction ds)
  case (Cons x ds)
  have n: "k' \<in> set (map projr (filter (\<lambda>r. \<not> isl r) (map f ds)))" if "y \<in> set ds" "f y = Inr k'" for y k'
    using that by (force simp: image_iff)
  show ?case using Cons n by (cases "f x") (auto simp: one_per_key_def)
qed simp

lemma select_lacking:
  assumes "one_per_key f ds"
  shows "Index_Select order (fst (Descriptions_Index ds f)) (set_Difference (ix_Keys (fst (Descriptions_Index ds f))) (ix_Keys (fst (Descriptions_Index es g)))) = lacking ds f es g"
proof -
  let ?keys = "set_Difference (ix_Keys (fst (Descriptions_Index ds f))) (ix_Keys (fst (Descriptions_Index es g)))"
  let ?sel = "Index_Select order (fst (Descriptions_Index ds f)) ?keys"
  have k: "elems ?keys = keys_of f ds - keys_of g es" by (simp add: Descriptions_Index_holds(1))
  have ids: "distinct (map de_ID ds)" using assms by (simp add: one_per_key_def)
  have last: "last_with f ds j = Some d \<longleftrightarrow> d \<in> set ds \<and> f d = Inr j" for j d
    using one_per_key_eq [OF assms] last_with_Some [of f ds j] last_with_None [of f ds j] unfolding keys_of_def
    by (cases "last_with f ds j") blast+
  have L: "d \<in> set (lacking ds f es g) \<longleftrightarrow> d \<in> set ds \<and> (\<exists>j. f d = Inr j \<and> j \<notin> keys_of g es)" for d
    by (cases "f d") (auto simp: lacking_def keys_of_def)
  have "set ?sel = {d. \<exists>j \<in> elems ?keys. last_with f ds j = Some d}"
    by (rule Index_Select_holds(1)) (use k in auto)
  then have S: "set ?sel = set (lacking ds f es g)"
    unfolding k last by (auto simp: L) (auto simp: keys_of_def)
  have inj: "inj_on (\<lambda>d. projr (f d)) (set ?sel)" unfolding S
    using one_per_key_eq [OF assms] by (auto simp: inj_on_def L)
  have "(\<lambda>d. projr (f d)) ` set ?sel = elems ?keys"
    unfolding S k by (force simp: image_iff L keys_of_def [of f])
  then have "card (set ?sel) = card (elems ?keys)" using card_image [OF inj] by simp
  then have d: "distinct ?sel"
    using Index_Select_holds(2) [of ?keys f ds order] k by (intro card_distinct) auto
  have "distinct (lacking ds f es g)" using ids by (simp add: lacking_def distinct_map)
  then have "mset ?sel = mset (lacking ds f es g)" using d S by (simp add: set_eq_iff_mset_eq_distinct)
  moreover have "sorted (map de_ID (lacking ds f es g))" by (simp add: lacking_def)
  moreover have "?sel = go_sort Descriptions_Less (map (gm_get0 zero_description (ix_Map (fst (Descriptions_Index ds f)))) (set_Iter order ?keys))" (is "_ = go_sort _ ?xs")
    by (simp add: Index_Select_def)
  moreover have "distinct (map de_ID ?sel)"
    using ids S d unfolding lacking_def by (auto simp: distinct_map inj_on_def)
  ultimately show ?thesis
    using by_id.sort_unique [of "lacking ds f es g" ?xs] by (metis distinct_map_go_sort mset_go_sort)
qed

lemma Delta_lacking:
  assumes "one_per_key f ds" "one_per_key g es"
  shows "Delta order ds f p es g q =
    (if (\<forall>e \<in> set es. \<not> isl (g e)) \<or> q \<noteq> EnrolledParseErrorDisableProvision then lacking ds f es g else [],
     if (\<forall>d \<in> set ds. \<not> isl (f d)) \<or> p \<noteq> SourceParseErrorDisableDestroy then lacking es g ds f else [])"
proof -
  have e: "snd (Descriptions_Index xs h) = None \<longleftrightarrow> (\<forall>x \<in> set xs. \<not> isl (h x))" for xs :: "'a Description list" and h
  proof -
    have "(\<exists>k. r = Inr k) \<longleftrightarrow> \<not> isl r" for r :: "string + string" by (cases r) auto
    then show ?thesis by (simp add: Descriptions_Index_holds(4))
  qed
  show ?thesis
    using select_lacking [OF assms(1), of order es g] select_lacking [OF assms(2), of order ds f] e [of ds f] e [of es g]
    by (auto simp: Delta_def Let_def case_prod_beta)
qed

section \<open>The contract of the sink\<close>

text \<open>
  The plugin that keeps the enrollments holds tags for each instance; it finds all of them when no labels
  are asked for, and its operations succeed.
\<close>

locale sink_contract =
  fixes ip :: "('p, 'w) instance_plugin" and wf :: "'w \<Rightarrow> bool" and recs :: "'w \<Rightarrow> InstanceID \<Rightarrow> tags option"
  assumes describe: "wf w \<Longrightarrow> \<exists>ds. ip_DescribeInstances ip [] props w = (Inr ds, w) \<and> distinct (map de_ID ds) \<and>
      de_ID ` set ds = dom (recs w) \<and> (\<forall>d \<in> set ds. recs w (de_ID d) = Some (de_Tags d))"
    and provision: "wf w \<Longrightarrow> \<exists>iid w' t. ip_Provision ip spec w = (Inr iid, w') \<and> wf w' \<and> recs w iid = None \<and>
      recs w' = (recs w)(iid \<mapsto> t) \<and> gm_get t sourceIDTag = gm_get (is_Tags spec) sourceIDTag"
    and destroy: "wf w \<Longrightarrow> recs w iid \<noteq> None \<Longrightarrow> \<exists>w'. ip_Destroy ip iid ctx w = (None, w') \<and> wf w' \<and> recs w' = (recs w)(iid := None)"

text \<open>The enrollments of a source, by the id of the source instance.\<close>

definition enrolled_as :: "(InstanceID \<Rightarrow> tags option) \<Rightarrow> string \<Rightarrow> InstanceID set" where
  "enrolled_as m k = {i. \<exists>t. m i = Some t \<and> gm_get t sourceIDTag = Some k}"

text \<open>Every record is the enrollment of a source, and the only one of it.\<close>

definition enrolled_once :: "(InstanceID \<Rightarrow> tags option) \<Rightarrow> bool" where
  "enrolled_once m \<longleftrightarrow> (\<forall>i t. m i = Some t \<longrightarrow> gm_get t sourceIDTag \<noteq> None) \<and>
     (\<forall>k i j. i \<in> enrolled_as m k \<longrightarrow> j \<in> enrolled_as m k \<longrightarrow> i = j)"

text \<open>After a round: just the sources are enrolled, and who was enrolled still has the same record.\<close>

definition in_step :: "InstanceID set \<Rightarrow> (InstanceID \<Rightarrow> tags option) \<Rightarrow> (InstanceID \<Rightarrow> tags option) \<Rightarrow> bool" where
  "in_step ids m m' \<longleftrightarrow> enrolled_once m' \<and> (\<forall>k. enrolled_as m' k \<noteq> {} \<longleftrightarrow> k \<in> ids) \<and>
     (\<forall>k \<in> ids. enrolled_as m k \<noteq> {} \<longrightarrow> enrolled_as m' k = enrolled_as m k) \<and>
     (\<forall>k \<in> ids. \<forall>i \<in> enrolled_as m k. m' i = m i)"

text \<open>The configuration without templates for keys and without labels.\<close>

definition plain_enroller :: "('a, 'p, 'w) en_env \<Rightarrow> ('p, 'w) instance_plugin \<Rightarrow> ('a, 'p) enroller \<Rightarrow> bool" where
  "plain_enroller ee ip l \<longleftrightarrow> eo_SourceKeySelector (el_options l) = [] \<and> el_sourceTemplate l = None \<and>
     eo_EnrollmentKeySelector (el_options l) = [] \<and> el_enrollmentTemplate l = None \<and> ep_Labels (en_Instance (el_properties l)) = None \<and>
     ee_Instance ee (ep_Plugin (en_Instance (el_properties l))) = Inr ip \<and> \<not> el_locked l"

lemma plain_keys:
  assumes "plain_enroller ee ip l"
  shows "sourceKeyFunc ee l d = Inr (de_ID d)"
    "enrolledKeyFunc ee l d = (case gm_get (de_Tags d) sourceIDTag of Some v \<Rightarrow> Inr v | None \<Rightarrow> Inl (''not-matched:'' @ de_ID d))"
  using assms by (simp_all add: plain_enroller_def sourceKeyFunc_def enrolledKeyFunc_def en_sourceTemplate_def getEnrollmentKeySelectorTemplate_def
      en_template_def selector_def)

context sink_contract
begin

lemma enroll_each_ok:
  assumes "wf w" "ep_Labels (en_Instance (el_properties l)) = None" "\<forall>n \<in> set add. \<exists>p. buildProperties ee l n = Inr p" "distinct (map de_ID add)"
  shows "\<exists>w'. enroll_each ee ip add l w = (l, w') \<and> wf w' \<and> (\<forall>i. recs w i \<noteq> None \<longrightarrow> recs w' i = recs w i) \<and>
    (\<forall>i. recs w i = None \<longrightarrow> recs w' i \<noteq> None \<longrightarrow> (\<exists>k \<in> de_ID ` set add. i \<in> enrolled_as (recs w') k)) \<and>
    (\<forall>k \<in> de_ID ` set add. \<exists>i. recs w i = None \<and> enrolled_as (recs w') k = insert i (enrolled_as (recs w) k)) \<and>
    (\<forall>k. k \<notin> de_ID ` set add \<longrightarrow> enrolled_as (recs w') k = enrolled_as (recs w) k)"
  using assms(1,3,4)
proof (induction add arbitrary: w)
  case (Cons n add)
  obtain p where p: "buildProperties ee l n = Inr p" using Cons.prems(2) by auto
  obtain tags where lb: "en_labels n l = (tags, l)" "gm_get tags sourceIDTag = Some (de_ID n)"
    using assms(2) by (auto simp: en_labels_def sourceIDTag_def enrollmentNameTag_def)
  let ?spec = "\<lparr>is_Properties = p, is_Tags = tags, is_Init = [], is_LogicalID = None, is_Attachments = []\<rparr>"
  obtain iid w1 t where w1: "ip_Provision ip ?spec w = (Inr iid, w1)" "wf w1" "recs w iid = None" "recs w1 = (recs w)(iid \<mapsto> t)"
    "gm_get t sourceIDTag = Some (de_ID n)" using provision [OF Cons.prems(1), of ?spec] lb(2) by auto
  have e1: "enrolled_as (recs w1) k = (if k = de_ID n then insert iid (enrolled_as (recs w) k) else enrolled_as (recs w) k)" for k
    using w1(3-5) by (auto simp: enrolled_as_def)
  obtain w' where w': "enroll_each ee ip add l w1 = (l, w')" "wf w'" "\<forall>i. recs w1 i \<noteq> None \<longrightarrow> recs w' i = recs w1 i"
    "\<forall>i. recs w1 i = None \<longrightarrow> recs w' i \<noteq> None \<longrightarrow> (\<exists>k \<in> de_ID ` set add. i \<in> enrolled_as (recs w') k)"
    "\<forall>k \<in> de_ID ` set add. \<exists>i. recs w1 i = None \<and> enrolled_as (recs w') k = insert i (enrolled_as (recs w1) k)"
    "\<forall>k. k \<notin> de_ID ` set add \<longrightarrow> enrolled_as (recs w') k = enrolled_as (recs w1) k"
    using Cons.IH [OF w1(2)] Cons.prems(2,3) by auto
  have new: "de_ID n \<notin> de_ID ` set add" using Cons.prems(3) by simp
  have n: "enrolled_as (recs w') (de_ID n) = insert iid (enrolled_as (recs w) (de_ID n))" using w'(6) new e1 by simp
  have "\<forall>i. recs w i \<noteq> None \<longrightarrow> recs w' i = recs w i" using w'(3) w1(3,4) by auto
  moreover have "\<exists>k \<in> de_ID ` set (n # add). i \<in> enrolled_as (recs w') k" if "recs w i = None" "recs w' i \<noteq> None" for i
    using that w'(4) n w1(4) by (cases "i = iid") auto
  moreover have "\<exists>i. recs w i = None \<and> enrolled_as (recs w') k = insert i (enrolled_as (recs w) k)" if "k \<in> de_ID ` set add" for k
    using w'(5) that new e1 w1(4) by (metis fun_upd_apply option.distinct(1))
  moreover have "enrolled_as (recs w') k = enrolled_as (recs w) k" if "k \<notin> de_ID ` set (n # add)" for k using w'(6) e1 that by auto
  moreover have "enroll_each ee ip (n # add) l w = (l, w')" using p lb(1) w1(1) w'(1) by simp
  ultimately show ?case using w'(2) n w1(3) by auto
qed simp

lemma remove_each_ok:
  "wf w \<Longrightarrow> distinct (map de_ID ds) \<Longrightarrow> de_ID ` set ds \<subseteq> dom (recs w) \<Longrightarrow>
     wf (remove_each ip ds w) \<and> recs (remove_each ip ds w) = recs w |` (- de_ID ` set ds)"
proof (induction ds arbitrary: w)
  case (Cons d ds)
  obtain w1 where w1: "ip_Destroy ip (de_ID d) Termination w = (None, w1)" "wf w1" "recs w1 = (recs w)(de_ID d := None)"
    using destroy [OF Cons.prems(1), of "de_ID d" Termination] Cons.prems(3) by auto
  have "de_ID ` set ds \<subseteq> dom (recs w1)" using Cons.prems(2,3) w1(3) by (auto simp: image_iff)
  from Cons.IH [OF w1(2) _ this] Cons.prems(2) show ?case
    using w1 by (auto simp: remove_each_def restrict_map_def fun_eq_iff)
qed (simp add: remove_each_def restrict_map_def)

text \<open>What the two lists hold in terms of the records.\<close>

lemma lists_of_records:
  assumes plain: "plain_enroller ee ip l" and once: "enrolled_once (recs w)"
    and es: "distinct (map de_ID es)" "de_ID ` set es = dom (recs w)" "\<forall>d \<in> set es. recs w (de_ID d) = Some (de_Tags d)"
  shows "one_per_key (enrolledKeyFunc ee l) es" "\<forall>e \<in> set es. \<not> isl (enrolledKeyFunc ee l e)"
    "(\<exists>e \<in> set es. enrolledKeyFunc ee l e = Inr k) \<longleftrightarrow> enrolled_as (recs w) k \<noteq> {}"
    "de_ID ` {e \<in> set es. enrolledKeyFunc ee l e = Inr k} = enrolled_as (recs w) k"
proof -
  have key: "enrolledKeyFunc ee l e = Inr k \<longleftrightarrow> de_ID e \<in> enrolled_as (recs w) k" if "e \<in> set es" for e k
    using es(3) that by (auto simp: plain_keys(2) [OF plain] enrolled_as_def split: option.splits)
  have tag: "\<exists>k. enrolledKeyFunc ee l e = Inr k" if "e \<in> set es" for e
    using es(3) that once by (fastforce simp: plain_keys(2) [OF plain] enrolled_once_def split: option.splits)
  then show "\<forall>e \<in> set es. \<not> isl (enrolledKeyFunc ee l e)" by (metis sum.disc(2))
  have all: "filter (\<lambda>r. \<not> isl r) (map (enrolledKeyFunc ee l) es) = map (enrolledKeyFunc ee l) es"
    using tag by (force simp: filter_id_conv)
  have "inj_on (\<lambda>e. projr (enrolledKeyFunc ee l e)) (set es)"
  proof (rule inj_onI)
    fix d e assume d: "d \<in> set es" "e \<in> set es" "projr (enrolledKeyFunc ee l d) = projr (enrolledKeyFunc ee l e)"
    then obtain k where "enrolledKeyFunc ee l d = Inr k" "enrolledKeyFunc ee l e = Inr k" using tag by (metis sum.sel(2))
    then have "de_ID d = de_ID e" using key d(1,2) once unfolding enrolled_once_def by blast
    then show "d = e" using es(1) d(1,2) by (metis distinct_map inj_onD)
  qed
  then show "one_per_key (enrolledKeyFunc ee l) es"
    using es(1) unfolding one_per_key_def all by (simp add: distinct_map comp_def)
  have "enrolled_as (recs w) k \<subseteq> de_ID ` set es" unfolding es(2) by (auto simp: enrolled_as_def)
  then show "de_ID ` {e \<in> set es. enrolledKeyFunc ee l e = Inr k} = enrolled_as (recs w) k" using key by blast
  then show "(\<exists>e \<in> set es. enrolledKeyFunc ee l e = Inr k) \<longleftrightarrow> enrolled_as (recs w) k \<noteq> {}" by blast
qed

lemma one_per_id: "distinct (map de_ID ds) \<Longrightarrow> plain_enroller ee ip l \<Longrightarrow> one_per_key (sourceKeyFunc ee l) ds"
  by (simp add: one_per_key_def plain_keys(1) comp_def)

lemma records_in_step:
  assumes once: "enrolled_once m" and old: "\<forall>i. m i \<noteq> None \<longrightarrow> m1 i = m i"
    and new: "\<forall>i. m i = None \<longrightarrow> m1 i \<noteq> None \<longrightarrow> (\<exists>k \<in> K. i \<in> enrolled_as m1 k)" and K: "K = {k \<in> ids. enrolled_as m k = {}}"
    and one: "\<forall>k \<in> K. \<exists>i. m i = None \<and> enrolled_as m1 k = insert i (enrolled_as m k)"
    and same: "\<forall>k. k \<notin> K \<longrightarrow> enrolled_as m1 k = enrolled_as m k"
    and R: "R = \<Union> (enrolled_as m ` (- ids))" and m': "m' = m1 |` (- R)"
  shows "in_step ids m m'"
proof -
  have k': "enrolled_as m' k = enrolled_as m1 k - R" for k unfolding m' by (auto simp: enrolled_as_def restrict_map_def)
  have tagged: "\<exists>k. i \<in> enrolled_as m k" if "m i \<noteq> None" for i using once that by (auto simp: enrolled_once_def enrolled_as_def)
  have disj: "k = k2" if "i \<in> enrolled_as x k" "i \<in> enrolled_as x k2" for i k k2 x using that by (auto simp: enrolled_as_def)
  have dom: "m i \<noteq> None" if "i \<in> enrolled_as m k" for i k using that by (auto simp: enrolled_as_def)
  have in_K: "\<exists>i. enrolled_as m' k = {i}" if kK: "k \<in> K" for k
  proof -
    obtain i where "m i = None" "enrolled_as m1 k = insert i (enrolled_as m k)" using bspec [OF one kK] by blast
    moreover have "enrolled_as m k = {}" using kK unfolding K by blast
    ultimately have i: "m i = None" "enrolled_as m1 k = {i}" by simp_all
    have "i \<notin> R" using i(1) dom unfolding R by fastforce
    then show ?thesis using k' i by auto
  qed
  have kept: "enrolled_as m' k = enrolled_as m k" if "k \<in> ids" "k \<notin> K" for k
  proof -
    have "i \<notin> R" if "i \<in> enrolled_as m k" for i using disj [OF that] \<open>k \<in> ids\<close> unfolding R by blast
    then show ?thesis using same that(2) k' [of k] by blast
  qed
  have gone: "enrolled_as m' k = {}" if "k \<notin> ids" for k
  proof -
    have "enrolled_as m1 k = enrolled_as m k" using same that unfolding K by blast
    then show ?thesis using k' [of k] that unfolding R by blast
  qed
  have A: "gm_get t sourceIDTag \<noteq> None" if "m' i = Some t" for i t
  proof -
    have m1: "m1 i = Some t" using that by (auto simp: m' restrict_map_def split: if_splits)
    have "\<exists>k. i \<in> enrolled_as m1 k"
    proof (cases "m i")
      case (Some u)
      then have "m1 i = m i" using old by simp
      then show ?thesis using tagged [of i] Some by (simp add: enrolled_as_def)
    qed (use new m1 in blast)
    then show ?thesis using m1 by (auto simp: enrolled_as_def)
  qed
  have B: "i = j" if i: "i \<in> enrolled_as m' k" "j \<in> enrolled_as m' k" for i j k
  proof (cases "k \<in> K")
    case True
    then obtain x where "enrolled_as m' k = {x}" using in_K by blast
    then show ?thesis using i by simp
  next
    case False
    then have "enrolled_as m' k = enrolled_as m k" using kept [of k] gone [of k] i by (cases "k \<in> ids") auto
    then have "i \<in> enrolled_as m k" "j \<in> enrolled_as m k" using i by simp_all
    then show ?thesis using once unfolding enrolled_once_def by blast
  qed
  have "enrolled_once m'" unfolding enrolled_once_def using A B by blast
  moreover have "enrolled_as m' k \<noteq> {} \<longleftrightarrow> k \<in> ids" for k
    using in_K [of k] kept [of k] gone [of k] K by (cases "k \<in> ids"; cases "k \<in> K") auto
  moreover have "m' i = m i" if "k \<in> ids" "i \<in> enrolled_as m k" for k i
  proof -
    have "i \<notin> R" using disj [OF that(2)] that(1) unfolding R by blast
    then show ?thesis using old dom [OF that(2)] by (simp add: m' restrict_map_def)
  qed
  moreover have "enrolled_as m' k = enrolled_as m k" if "k \<in> ids" "enrolled_as m k \<noteq> {}" for k
    using kept [OF that(1)] that(2) unfolding K by blast
  ultimately show ?thesis unfolding in_step_def by blast
qed

lemma en_template_cached: "en_template ee s (made_template (en_template ee s c)) = en_template ee s c"
  by (cases s; cases c; cases "ee_template ee (the s)") (simp_all add: en_template_def made_template_def)

lemma cache_templates_plain:
  assumes "plain_enroller ee ip l"
  shows "plain_enroller ee ip (cache_templates ee src es add l)" "ep_Labels (en_Instance (el_properties (cache_templates ee src es add l))) = None"
    "buildProperties ee (cache_templates ee src es add l) n = buildProperties ee l n"
proof -
  let ?l = "cache_templates ee src es add l"
  show "plain_enroller ee ip ?l" "ep_Labels (en_Instance (el_properties ?l)) = None"
    using assms by (simp_all add: plain_enroller_def cache_templates_def en_sourceTemplate_def getEnrollmentKeySelectorTemplate_def en_template_def selector_def made_template_def)
  have "getEnrollmentPropertiesTemplate ee ?l = getEnrollmentPropertiesTemplate ee l"
    by (simp add: getEnrollmentPropertiesTemplate_def cache_templates_def en_template_cached)
  then show "buildProperties ee ?l n = buildProperties ee l n" by (simp add: buildProperties_def)
qed

lemma sync_in_step:
  assumes plain: "plain_enroller ee ip l" and w: "wf w" "enrolled_once (recs w)"
    and src: "getSourceInstances ee l w = (Inr src, w)" "distinct (map de_ID src)" "\<forall>n \<in> set src. \<exists>p. buildProperties ee l n = Inr p"
  shows "\<exists>l' w'. enroller_sync ee order l w = Ret (None, l', w') \<and> plain_enroller ee ip l' \<and> el_properties l' = el_properties l \<and>
    buildProperties ee l' = buildProperties ee l \<and> wf w' \<and> in_step (de_ID ` set src) (recs w) (recs w')"
proof -
  obtain es where es: "ip_DescribeInstances ip [] True w = (Inr es, w)" "distinct (map de_ID es)" "de_ID ` set es = dom (recs w)"
    "\<forall>d \<in> set es. recs w (de_ID d) = Some (de_Tags d)" using describe [OF w(1)] by blast
  note E = lists_of_records [OF plain w(2) es(2-4)] and S = one_per_id [OF src(2) plain]
  have enrolled: "getEnrolledInstances ee l w = (Inr es, w)" using plain es(1) by (simp add: getEnrolledInstances_def plain_enroller_def)
  define add rm where "add = lacking src (sourceKeyFunc ee l) es (enrolledKeyFunc ee l)" and "rm = lacking es (enrolledKeyFunc ee l) src (sourceKeyFunc ee l)"
  have delta: "Delta order src (sourceKeyFunc ee l) p es (enrolledKeyFunc ee l) q = (add, rm)" for p q
    using Delta_lacking [OF S E(1), of order p q] E(2) by (simp add: add_def rm_def plain_keys(1) [OF plain])
  define l1 where "l1 = cache_templates ee src es add l"
  note l1 = cache_templates_plain [OF plain, of src es add, folded l1_def]
  have L: "d \<in> set add \<longleftrightarrow> d \<in> set src \<and> enrolled_as (recs w) (de_ID d) = {}" for d
    using E(3) [of "de_ID d"] by (auto simp: add_def lacking_def plain_keys(1) [OF plain])
  have R: "d \<in> set rm \<longleftrightarrow> d \<in> set es \<and> (\<exists>k. enrolledKeyFunc ee l d = Inr k \<and> k \<notin> de_ID ` set src)" for d
    by (cases "enrolledKeyFunc ee l d") (auto simp: rm_def lacking_def plain_keys(1) [OF plain])
  have d: "distinct (map de_ID add)" "distinct (map de_ID rm)" using src(2) es(2) by (auto simp: add_def rm_def lacking_def distinct_map inj_on_def)
  have bp: "\<forall>n \<in> set add. \<exists>p. buildProperties ee l1 n = Inr p" using src(3) L l1(3) by simp
  obtain w1 where w1: "enroll_each ee ip add l1 w = (l1, w1)" "wf w1" "\<forall>i. recs w i \<noteq> None \<longrightarrow> recs w1 i = recs w i"
    "\<forall>i. recs w i = None \<longrightarrow> recs w1 i \<noteq> None \<longrightarrow> (\<exists>k \<in> de_ID ` set add. i \<in> enrolled_as (recs w1) k)"
    "\<forall>k \<in> de_ID ` set add. \<exists>i. recs w i = None \<and> enrolled_as (recs w1) k = insert i (enrolled_as (recs w) k)"
    "\<forall>k. k \<notin> de_ID ` set add \<longrightarrow> enrolled_as (recs w1) k = enrolled_as (recs w) k"
    using enroll_each_ok [OF w(1) l1(2) bp d(1)] by blast
  have K: "de_ID ` set add = {k \<in> de_ID ` set src. enrolled_as (recs w) k = {}}" using L by auto
  have rm: "de_ID ` set rm = \<Union> (enrolled_as (recs w) ` (- de_ID ` set src))"
  proof -
    have "de_ID ` set rm = (\<Union>k \<in> - de_ID ` set src. de_ID ` {e \<in> set es. enrolledKeyFunc ee l e = Inr k})" using R by blast
    then show ?thesis using E(4) by simp
  qed
  have sub: "de_ID ` set rm \<subseteq> dom (recs w1)" using w1(3) unfolding rm by (fastforce simp: enrolled_as_def)
  note r = remove_each_ok [OF w1(2) d(2) sub]
  have "in_step (de_ID ` set src) (recs w) (recs (remove_each ip rm w1))"
    by (rule records_in_step [OF w(2) w1(3,4) K w1(5,6) rm]) (use r in simp)
  moreover have "enroller_sync ee order l w = Ret (None, l1, remove_each ip rm w1)"
    using plain w1(1) by (simp add: enroller_sync_def src(1) enrolled delta plain_enroller_def l1_def)
  moreover have "el_properties l1 = el_properties l" "buildProperties ee l1 = buildProperties ee l" using l1(3) by (auto simp: l1_def cache_templates_def)
  ultimately show ?thesis using r l1(1) by blast
qed

end

section \<open>The rounds of the poller\<close>

lemma in_step_stable:
  assumes "in_step ids m0 m" "in_step ids m m'"
  shows "m' = m"
proof
  fix i
  have dom: "\<exists>k \<in> ids. i \<in> enrolled_as x k" if xy: "in_step ids y x" "x i \<noteq> None" for x y
  proof -
    obtain t where "x i = Some t" "gm_get t sourceIDTag \<noteq> None" using xy by (auto simp: in_step_def enrolled_once_def)
    then obtain k where k: "i \<in> enrolled_as x k" by (auto simp: enrolled_as_def)
    then show ?thesis using xy(1) unfolding in_step_def by blast
  qed
  have same: "enrolled_as m' k = enrolled_as m k" "j \<in> enrolled_as m k \<longrightarrow> m' j = m j" if "k \<in> ids" for k j
    using assms that unfolding in_step_def by blast+
  show "m' i = m i"
  proof (cases "m i = None \<and> m' i = None")
    case False
    then obtain k where "k \<in> ids" "i \<in> enrolled_as m k \<or> i \<in> enrolled_as m' k" using dom [OF assms(1)] dom [OF assms(2)] by blast
    then show ?thesis using same by blast
  qed simp
qed

context sink_contract
begin

lemma rounds_in_step:
  assumes plain: "plain_enroller ee ip l" and w: "wf w" "enrolled_once (recs w)"
    and src: "ee_descriptions ee (en_List (el_properties l)) = Inr src" "distinct (map de_ID src)" "\<forall>n \<in> set src. \<exists>p. buildProperties ee l n = Inr p"
  shows "\<exists>m'. in_step (de_ID ` set src) (recs w) m' \<and> (\<forall>n. \<exists>l' w'.
    (poll_round enroller_shouldRun (enroller_work ee order) ^^ Suc n) (Ret (l, w)) = Ret (l', w') \<and>
    \<not> round_error enroller_shouldRun (enroller_work ee order) ((poll_round enroller_shouldRun (enroller_work ee order) ^^ n) (Ret (l, w))) \<and> recs w' = m')"
proof -
  let ?r = "poll_round enroller_shouldRun (enroller_work ee order)"
  have step: "\<exists>l' w'. ?r (Ret (l1, w1)) = Ret (l', w') \<and> \<not> round_error enroller_shouldRun (enroller_work ee order) (Ret (l1, w1)) \<and> plain_enroller ee ip l' \<and>
      el_properties l' = el_properties l \<and> buildProperties ee l' = buildProperties ee l \<and> wf w' \<and> in_step (de_ID ` set src) (recs w1) (recs w')"
    if l1: "plain_enroller ee ip l1" "el_properties l1 = el_properties l" "buildProperties ee l1 = buildProperties ee l" "wf w1" "enrolled_once (recs w1)" for l1 w1
  proof -
    have "getSourceInstances ee l1 w1 = (Inr src, w1)" using src(1) l1(2) by (simp add: getSourceInstances_def)
    from sync_in_step [OF l1(1,4,5) this src(2), of order] src(3) l1 show ?thesis
      by (auto simp: poll_round_def round_error_def enroller_shouldRun_def enroller_work_def)
  qed
  obtain l1 w1 where first: "?r (Ret (l, w)) = Ret (l1, w1)" "\<not> round_error enroller_shouldRun (enroller_work ee order) (Ret (l, w))" "plain_enroller ee ip l1"
      "el_properties l1 = el_properties l" "buildProperties ee l1 = buildProperties ee l" "wf w1" "in_step (de_ID ` set src) (recs w) (recs w1)"
    using step [OF plain refl refl w] by blast
  have "\<exists>l' w'. (?r ^^ Suc n) (Ret (l, w)) = Ret (l', w') \<and> \<not> round_error enroller_shouldRun (enroller_work ee order) ((?r ^^ n) (Ret (l, w))) \<and>
      plain_enroller ee ip l' \<and> el_properties l' = el_properties l \<and> buildProperties ee l' = buildProperties ee l \<and> wf w' \<and> recs w' = recs w1" for n
  proof (induction n)
    case (Suc n)
    then obtain l2 w2 where s: "(?r ^^ Suc n) (Ret (l, w)) = Ret (l2, w2)" "plain_enroller ee ip l2" "el_properties l2 = el_properties l"
      "buildProperties ee l2 = buildProperties ee l" "wf w2" "recs w2 = recs w1" by blast
    have "enrolled_once (recs w2)" using first(7) s(6) by (simp add: in_step_def)
    from step [OF s(2-5) this] obtain l3 w3 where t: "?r (Ret (l2, w2)) = Ret (l3, w3)" "\<not> round_error enroller_shouldRun (enroller_work ee order) (Ret (l2, w2))"
      "plain_enroller ee ip l3" "el_properties l3 = el_properties l" "buildProperties ee l3 = buildProperties ee l" "wf w3" "in_step (de_ID ` set src) (recs w2) (recs w3)" by blast
    have "(?r ^^ Suc (Suc n)) (Ret (l, w)) = Ret (l3, w3)" using s(1) t(1) by simp
    moreover have "recs w3 = recs w1" using in_step_stable [OF first(7)] t(7) s(6) by simp
    ultimately show ?case using t s(1) by simp
  qed (use first in simp)
  then show ?thesis using first(7) by blast
qed

lemma polls_in_step:
  assumes plain: "plain_enroller ee ip l" and w: "wf w" "enrolled_once (recs w)"
    and src: "ee_descriptions ee (en_List (el_properties l)) = Inr src" "distinct (map de_ID src)" "\<forall>n \<in> set src. \<exists>p. buildProperties ee l n = Inr p"
  shows "\<exists>m'. in_step (de_ID ` set src) (recs w) m' \<and> (\<forall>n. \<exists>l' w'.
    poll_loop reader enroller_shouldRun (enroller_work ee order) cleanup (replicate n P_Tick) (Ret (l, w)) = P_Waiting (Ret (l', w')) \<and> recs w' = m')"
proof -
  let ?r = "poll_round enroller_shouldRun (enroller_work ee order)"
  obtain m' where m': "in_step (de_ID ` set src) (recs w) m'" "\<forall>n. \<exists>l' w'. (?r ^^ Suc n) (Ret (l, w)) = Ret (l', w') \<and>
    \<not> round_error enroller_shouldRun (enroller_work ee order) ((?r ^^ n) (Ret (l, w))) \<and> recs w' = m'"
    using rounds_in_step [OF assms, of order] by blast
  have "poll_loop reader enroller_shouldRun (enroller_work ee order) cleanup (replicate n P_Tick) (Ret (l, w)) = P_Waiting ((?r ^^ Suc n) (Ret (l, w)))" for n
    by (rule poll_loop_ticks) (use m'(2) in blast)
  then show ?thesis using m' by metis
qed

end

end
