(* ===== verification/Enrollment_Sim.thy ===== *)
theory Enrollment_Sim
  imports Enrollment_Sync Simulator
begin

text \<open>The simulator as the plugin that keeps enrollments: it meets the contract of a sink.\<close>

definition sink_entry :: "('s, 'b, 'p) sim_env \<Rightarrow> simulator \<Rightarrow> 's sim_world \<Rightarrow> string \<Rightarrow> 'b \<Rightarrow> bool" where
  "sink_entry env sim w k b \<longleftrightarrow> (\<exists>d. se_decode env b = Inr d \<and> de_ID d = k \<and> gm_get (de_Tags d) simulatorTag = Some (sim_plugin sim)) \<and>
     (\<exists>n < sw_reads w. k = show_int (sw_clock w n))"

definition sink_wf :: "('s, 'b, 'p) sim_env \<Rightarrow> simulator \<Rightarrow> ('s \<Rightarrow> bool) \<Rightarrow> ('s \<Rightarrow> string \<Rightarrow> 'b option) \<Rightarrow> 's sim_world \<Rightarrow> bool" where
  "sink_wf env sim ok get w \<longleftrightarrow> ok (sw_kv w) \<and> strict_mono (sw_clock w) \<and> (\<forall>k b. get (sw_kv w) k = Some b \<longrightarrow> sink_entry env sim w k b)"

definition sink_recs :: "('s, 'b, 'p) sim_env \<Rightarrow> ('s \<Rightarrow> string \<Rightarrow> 'b option) \<Rightarrow> 's sim_world \<Rightarrow> InstanceID \<Rightarrow> tags option" where
  "sink_recs env get w i = (case get (sw_kv w) i of None \<Rightarrow> None
     | Some b \<Rightarrow> (case se_decode env b of Inl _ \<Rightarrow> None | Inr d \<Rightarrow> Some (de_Tags d)))"

locale sim_sink = kv_contract "se_kv env" ok get
  for env :: "('s, 'b, 'p) sim_env" and ok :: "'s \<Rightarrow> bool" and get :: "'s \<Rightarrow> string \<Rightarrow> 'b option" +
  fixes sim :: simulator
  assumes encode: "\<exists>b. se_encode env d = Inr b \<and> se_decode env b = Inr d"
    and unlimited: "se_control env p = Inr cap \<Longrightarrow> cap \<le> 0"
begin

abbreviation swf :: "'s sim_world \<Rightarrow> bool" where "swf \<equiv> sink_wf env sim ok get"
abbreviation srecs :: "'s sim_world \<Rightarrow> InstanceID \<Rightarrow> tags option" where "srecs \<equiv> sink_recs env get"

lemma sink_get:
  assumes "swf w" "get (sw_kv w) k = Some b"
  obtains d where "se_decode env b = Inr d" "de_ID d = k" "gm_get (de_Tags d) simulatorTag = Some (sim_plugin sim)" "srecs w k = Some (de_Tags d)"
  using assms by (auto simp: sink_wf_def sink_entry_def sink_recs_def)

lemma srecs_None: "swf w \<Longrightarrow> srecs w k = None \<longleftrightarrow> get (sw_kv w) k = None"
  by (cases "get (sw_kv w) k") (auto simp: sink_recs_def elim: sink_get)

lemma sink_describe:
  assumes "swf w"
  shows "\<exists>ds. sim_DescribeInstances env sim [] props w = (Inr ds, w) \<and> distinct (map de_ID ds) \<and> de_ID ` set ds = dom (srecs w) \<and>
    (\<forall>d \<in> set ds. srecs w (de_ID d) = Some (de_Tags d))"
proof -
  define obj where "obj k = projr (se_decode env (the (get (sw_kv w) k)))" for k
  have obj: "\<exists>b. get (sw_kv w) k = Some b \<and> se_decode env b = Inr (obj k)" "de_ID (obj k) = k" "srecs w k = Some (de_Tags (obj k))"
    "gm_get (de_Tags (obj k)) simulatorTag = Some (sim_plugin sim)" if k: "k \<in> dom (get (sw_kv w))" for k
  proof -
    obtain b where b: "get (sw_kv w) k = Some b" using k by blast
    obtain d where "se_decode env b = Inr d" "de_ID d = k" "gm_get (de_Tags d) simulatorTag = Some (sim_plugin sim)" "srecs w k = Some (de_Tags d)"
      by (rule sink_get [OF assms b])
    then show "\<exists>b. get (sw_kv w) k = Some b \<and> se_decode env b = Inr (obj k)" "de_ID (obj k) = k" "srecs w k = Some (de_Tags (obj k))"
      "gm_get (de_Tags (obj k)) simulatorTag = Some (sim_plugin sim)" using b by (simp_all add: obj_def)
  qed
  let ?search = "tags_into [] [(simulatorTag, sim_plugin sim)]"
  have ok: "ok (sw_kv w)" using assms by (simp add: sink_wf_def)
  obtain ks where ks: "distinct ks" "set ks = dom (get (sw_kv w))"
    and v: "Visit (se_kv env) ?search (Some de_Tags) (se_decode env) collecting (sw_kv w) [] =
      (None, filter (\<lambda>d. \<not> (0 < length ?search \<and> hasDifferentTags ?search (de_Tags d))) (map obj ks), [])"
    using Visit_collects [OF ok, of "se_decode env" obj ?search de_Tags] obj(1) by blast
  have "\<not> hasDifferentTags ?search (de_Tags (obj k))" if "k \<in> set ks" for k
    using obj(4) [of k] that ks(2) by (auto simp: hasDifferentTags_def tags_into_def)
  then have f: "filter (\<lambda>d. \<not> (0 < length ?search \<and> hasDifferentTags ?search (de_Tags d))) (map obj ks) = map obj ks" by (auto simp: filter_id_conv)
  have ids: "map de_ID (map obj ks) = ks" unfolding map_map by (rule map_idI) (use obj(2) ks(2) in simp)
  have dom: "dom (srecs w) = set ks" unfolding ks(2) dom_def srecs_None [OF assms] ..
  have "de_ID ` set (map obj ks) = dom (srecs w)" unfolding dom set_map [symmetric] ids ..
  moreover have "\<forall>d \<in> set (map obj ks). srecs w (de_ID d) = Some (de_Tags d)" using obj(2,3) ks(2) by auto
  moreover have "sim_DescribeInstances env sim [] props w = (Inr (map obj ks), w)"
    using v unfolding f by (simp add: sim_DescribeInstances_def sim_describeInstances_def)
  ultimately show ?thesis using ids ks(1) by (intro exI [of _ "map obj ks"]) simp
qed

lemma sink_fresh:
  assumes "swf w"
  shows "get (sw_kv w) (show_int (sw_clock w (sw_reads w))) = None"
proof (rule ccontr)
  assume "get (sw_kv w) (show_int (sw_clock w (sw_reads w))) \<noteq> None"
  then obtain n where "n < sw_reads w" "sw_clock w (sw_reads w) = sw_clock w n" using assms by (fastforce simp: sink_wf_def sink_entry_def)
  moreover have "strict_mono (sw_clock w)" using assms by (simp add: sink_wf_def)
  ultimately show False by (metis less_irrefl strict_mono_less)
qed

lemma sink_provision:
  assumes w: "swf w"
  shows "\<exists>iid w' t. sim_Provision env sim spec w = (Inr iid, w') \<and> swf w' \<and> srecs w iid = None \<and> srecs w' = (srecs w)(iid \<mapsto> t) \<and>
    gm_get t sourceIDTag = gm_get (is_Tags spec) sourceIDTag"
proof -
  let ?t = "gm_put simulatorTag (sim_plugin sim) (is_Tags spec)" and ?k = "show_int (sw_clock w (sw_reads w))"
  define d where "d = \<lparr>de_ID = ?k, de_LogicalID = is_LogicalID spec, de_Tags = ?t, de_Properties = Some (is_Properties spec)\<rparr>"
  obtain b where b: "se_encode env d = Inr b" "se_decode env b = Inr d" using encode by blast
  have ok: "ok (sw_kv w)" using w by (simp add: sink_wf_def)
  obtain st where st: "kv_Write (se_kv env) ?k b (sw_kv w) = (None, st)" "ok st" "get st = (get (sw_kv w))(?k \<mapsto> b)" by (rule Write_E [OF ok])
  let ?w = "w\<lparr>sw_reads := sw_reads w + 1, sw_kv := st\<rparr>"
  have cap: "at_capacity env sim spec (sw_kv w) = None" using unlimited by (fastforce simp: at_capacity_def split: sum.splits)
  have "sim_Provision env sim spec w = (Inr ?k, ?w)"
    using b(1) st(1) cap by (simp add: sim_Provision_def UnixNano_def Let_def d_def)
  moreover have "swf ?w" using w st(2,3) b(2) by (auto simp: sink_wf_def sink_entry_def d_def less_Suc_eq)
  moreover have "srecs ?w = (srecs w)(?k \<mapsto> ?t)" using st(3) b(2) by (auto simp: sink_recs_def d_def fun_eq_iff)
  moreover have "srecs w ?k = None" using sink_fresh [OF w] by (simp add: sink_recs_def)
  moreover have "gm_get ?t sourceIDTag = gm_get (is_Tags spec) sourceIDTag" by (simp add: sourceIDTag_def simulatorTag_def)
  ultimately show ?thesis by blast
qed

lemma sink_destroy:
  assumes w: "swf w" "srecs w iid \<noteq> None"
  shows "\<exists>w'. sim_Destroy env sim iid ctx w = (None, w') \<and> swf w' \<and> srecs w' = (srecs w)(iid := None)"
proof -
  have ok: "ok (sw_kv w)" using w by (simp add: sink_wf_def)
  have has: "get (sw_kv w) iid \<noteq> None" using w(2) unfolding srecs_None [OF w(1)] .
  obtain st where st: "kv_Delete (se_kv env) iid (sw_kv w) = (None, st)" "ok st" "get st = (get (sw_kv w))(iid := None)" by (rule Delete_E [OF ok has])
  have "sim_Destroy env sim iid ctx w = (None, w\<lparr>sw_kv := st\<rparr>)" using Exists [OF ok, of iid] has st(1) by (simp add: sim_Destroy_def)
  moreover have "swf (w\<lparr>sw_kv := st\<rparr>)" using w(1) st(2,3) by (auto simp: sink_wf_def sink_entry_def)
  moreover have "srecs (w\<lparr>sw_kv := st\<rparr>) = (srecs w)(iid := None)" using st(3) by (auto simp: sink_recs_def fun_eq_iff)
  ultimately show ?thesis by blast
qed

end

sublocale sim_sink \<subseteq> sink: sink_contract "sim_instance_plugin env sim" swf srecs
  by unfold_locales (unfold sim_instance_plugin_def instance_plugin.simps, (rule sink_describe sink_provision sink_destroy; assumption)+)

context sim_sink
begin

lemmas sim_polls = sink.polls_in_step

end

end
