(* ===== verification/Enrollment_Theorems.thy ===== *)
theory Enrollment_Theorems
  imports Enrollment_Sim Group_Sim
begin

text \<open>
  The enrollment controller over a simulator that keeps the enrollments: what its rounds achieve, what a
  commit promises, and where the code does not do what it means to.
\<close>

section \<open>A simulator as the sink\<close>

text \<open>The simulator has its store in memory, and its capacity is not limited.\<close>

definition sink_setup :: "('b Mem, 'b, 'p) sim_env \<Rightarrow> ((string \<times> 'b) list \<Rightarrow> (string \<times> 'b) list) \<Rightarrow> bool" where
  "sink_setup env order \<longleftrightarrow> se_kv env = Mem_KV order \<and> (\<forall>d. \<exists>b. se_encode env d = Inr b \<and> se_decode env b = Inr d) \<and>
     (\<forall>p cap. se_control env p = Inr cap \<longrightarrow> cap \<le> 0)"

abbreviation sink_ok :: "('b Mem, 'b, 'p) sim_env \<Rightarrow> simulator \<Rightarrow> 'b Mem sim_world \<Rightarrow> bool" where "sink_ok env sim \<equiv> sink_wf env sim mem_ok mem_get"
abbreviation enrollments :: "('b Mem, 'b, 'p) sim_env \<Rightarrow> 'b Mem sim_world \<Rightarrow> InstanceID \<Rightarrow> tags option" where "enrollments env \<equiv> sink_recs env mem_get"

lemma sink_setup_sim: "sink_setup env order \<Longrightarrow> sim_sink env mem_ok mem_get"
  unfolding sim_sink_def sim_sink_axioms_def sink_setup_def using mem.kv_contract_axioms by metis

lemma demo_sink: "sink_setup demo_env (\<lambda>xs. xs)" "sink_ok demo_env demo_sim demo_world" "enrollments demo_env demo_world = Map.empty"
  by (auto simp: sink_setup_def demo_env_def demo_world_def sink_wf_def sink_recs_def strict_mono_def fun_eq_iff)

interpretation demo_en: sim_sink demo_env mem_ok mem_get demo_sim
  by (rule sink_setup_sim [OF demo_sink(1)])

text \<open>
  Data is a list of sources; it decodes to properties that name it as the list, with the given labels.
\<close>

definition demo_ee :: "tags option \<Rightarrow> (unit Description list, unit, unit Description Mem sim_world) en_env" where
  "demo_ee labels = \<lparr>ee_options = \<lambda>_ op. Inr op,
     ee_properties = \<lambda>a. Inr \<lparr>en_List = Some a, en_Instance = \<lparr>ep_Plugin = ''sink'', ep_Labels = labels, ep_Properties = None\<rparr>\<rparr>,
     ee_descriptions = \<lambda>a. case a of None \<Rightarrow> Inl ''no data'' | Some ds \<Rightarrow> Inr ds, ee_name = \<lambda>_. Inl ''not a name'',
     ee_template = \<lambda>_. Inl ''no template'', ee_bytes = \<lambda>_. [], ee_value = \<lambda>_. Inr (), ee_string = \<lambda>_. (),
     ee_Group = \<lambda>_. Inl ''no group'', ee_Instance = \<lambda>_. Inr (sim_instance_plugin demo_env demo_sim)\<rparr>"

definition demo_source :: "string \<Rightarrow> unit Description" where
  "demo_source i = \<lparr>de_ID = i, de_LogicalID = None, de_Tags = [], de_Properties = None\<rparr>"

definition demo_spec :: "unit Description list TSpec" where
  "demo_spec = \<lparr>ts_Kind = ''enrollment'', ts_Metadata = \<lparr>md_Identity = None, md_Name = ''nfs'', md_Tags = []\<rparr>,
     ts_Properties = Some [demo_source ''a'', demo_source ''b''], ts_Options = None\<rparr>"

text \<open>The enroller after a commit.\<close>

definition demo_enroller :: "tags option \<Rightarrow> (unit Description list, unit) enroller" where
  "demo_enroller labels = (case newEnroller DefaultEnOptions of Inr l \<Rightarrow> (case updateSpec (demo_ee labels) demo_spec l of Ret (_, l) \<Rightarrow> l))"

section \<open>The rounds\<close>

text \<open>
  (C20) However often the poller of an enrollment ticks, over a static list of sources and with no template
  for keys and no labels: the first round makes the records of the sink exactly the enrollments of the
  sources, one of each and without touching those that were there, no round fails, and the later
  rounds leave the records as the first one has made them. The hypotheses say that the sink is a simulator
  whose records are enrollments of different sources, and that properties can be built.
\<close>

theorem enrollment_in_step:
  assumes "sink_setup env order" "plain_enroller ee (sim_instance_plugin env sim) l" "sink_ok env sim w" "enrolled_once (enrollments env w)"
    "ee_descriptions ee (en_List (el_properties l)) = Inr src" "distinct (map de_ID src)" "\<forall>n \<in> set src. \<exists>p. buildProperties ee l n = Inr p"
  shows "\<exists>m'. in_step (de_ID ` set src) (enrollments env w) m' \<and> (\<forall>n. \<exists>l' w'.
    poll_loop reader enroller_shouldRun (enroller_work ee sched) cleanup (replicate n P_Tick) (Ret (l, w)) = P_Waiting (Ret (l', w')) \<and> enrollments env w' = m')"
  by (rule sim_sink.sim_polls [OF sink_setup_sim [OF assms(1)] assms(2-7)])

theorem enrollment_in_step_witness:
  "\<exists>m'. in_step {''a'', ''b''} Map.empty m' \<and> (\<exists>l' w'.
    poll_loop False enroller_shouldRun (enroller_work (demo_ee None) rev) (\<lambda>s. s) (replicate 3 P_Tick) (Ret (demo_enroller None, demo_world)) = P_Waiting (Ret (l', w')) \<and>
    enrollments demo_env w' = m')"
proof -
  have p: "plain_enroller (demo_ee None) (sim_instance_plugin demo_env demo_sim) (demo_enroller None)"
    "ee_descriptions (demo_ee None) (en_List (el_properties (demo_enroller None))) = Inr [demo_source ''a'', demo_source ''b'']"
    "\<exists>p. buildProperties (demo_ee None) (demo_enroller None) n = Inr p" for n
    by (simp_all add: plain_enroller_def demo_enroller_def demo_ee_def newEnroller_def EnOptions_Validate_def DefaultEnOptions_def updateSpec_def locked_call_def
        updateOptions_def demo_spec_def Let_def buildProperties_def getEnrollmentPropertiesTemplate_def en_template_def zero_properties_def)
  have o: "enrolled_once (enrollments demo_env demo_world)" by (simp add: demo_sink(3) enrolled_once_def enrolled_as_def)
  have "distinct (map de_ID [demo_source ''a'', demo_source ''b''])" by code_simp
  from enrollment_in_step [OF demo_sink(1) p(1) demo_sink(2) o p(2) this, of False rev "\<lambda>s. s"] p(3)
  obtain m' where "in_step (de_ID ` set [demo_source ''a'', demo_source ''b'']) (enrollments demo_env demo_world) m'"
    "\<forall>n. \<exists>l' w'. poll_loop False enroller_shouldRun (enroller_work (demo_ee None) rev) (\<lambda>s. s) (replicate n P_Tick) (Ret (demo_enroller None, demo_world)) =
      P_Waiting (Ret (l', w')) \<and> enrollments demo_env w' = m'" by blast
  then show ?thesis by (intro exI [of _ m']) (simp add: demo_sink(3) demo_source_def)
qed

text \<open>
  (C22) The difference of the two lists, computed by indexing them by key and taking differences of sets of
  keys, is the reference: the descriptions whose key the other list does not have, in the order of their
  ids. Either half is empty when a key could not be computed and the policy asks to do nothing then. The
  hypotheses say that each list has different ids and different keys.
\<close>

theorem Delta_reference:
  assumes "one_per_key listKey list" "one_per_key otherKey other"
  shows "Delta order list listKey p other otherKey q =
    (if (\<forall>e \<in> set other. \<not> isl (otherKey e)) \<or> q \<noteq> EnrolledParseErrorDisableProvision then lacking list listKey other otherKey else [],
     if (\<forall>d \<in> set list. \<not> isl (listKey d)) \<or> p \<noteq> SourceParseErrorDisableDestroy then lacking other otherKey list listKey else [])"
  by (rule Delta_lacking [OF assms])

theorem Delta_reference_witness:
  "Delta rev [demo_source ''b'', demo_source ''a''] (\<lambda>d. Inr (de_ID d)) SourceParseErrorDisableDestroy
      [demo_source ''a'', demo_source ''c''] (\<lambda>d. if de_ID d = ''c'' then Inl ''no key'' else Inr (de_ID d)) EnrolledParseErrorDisableProvision = ([], [])"
proof -
  have "one_per_key (\<lambda>d. Inr (de_ID d)) [demo_source ''b'', demo_source ''a'']"
    "one_per_key (\<lambda>d. if de_ID d = ''c'' then Inl ''no key'' else Inr (de_ID d)) [demo_source ''a'', demo_source ''c'']"
    by (simp_all add: one_per_key_def demo_source_def)
  from Delta_reference [OF this, of rev SourceParseErrorDisableDestroy EnrolledParseErrorDisableProvision] show ?thesis
    by (simp add: lacking_def demo_source_def)
qed




section \<open>Commits\<close>

interpretation enrolled: managed_contract "enroller_ops ee" for ee
  by unfold_locales (auto simp: enroller_ops_def enroller_Enforce_def andthen_Ret_iff split: option.splits)

text \<open>The object of a commit to a new controller runs, and nobody holds its lock.\<close>

lemma first_commit:
  assumes "Commit C_Enforce spec (NewEnrollmentController ee options) s = Ret ((ob, None), c, s1)"
  obtains l where "c = NewEnrollmentController ee options\<lparr>co_managed := [(md_Name (ts_Metadata spec), ms_next s)]\<rparr>"
    "ms_cell s1 (ms_next s) = l" "el_running l" "\<not> el_locked l" "\<not> po_stopped (el_poller l)" "md_Name (ts_Metadata (el_spec l)) = md_Name (ts_Metadata spec)"
    "md_Name (ts_Metadata spec) \<noteq> []" "updateOptions ee spec (l\<lparr>el_options := options\<rparr>) = Inr (el_options l)"
proof -
  show thesis
    using assms
    by (auto simp: Commit_def NewEnrollmentController_def NewController_def getManaged_def newEnroller_def Let_def enroller_ops_def enroller_Running_def
        locked_call_def managed_do_def andthen_Ret_iff enroller_Enforce_def updateSpec_def enroller_Start_def updateOptions_def Poll_def
        split: if_splits option.splits sum.splits intro!: that)
qed

lemma enforced_object:
  assumes "enroller_Enforce ee sp l w = Ret ((o', None), l', w')" "sp \<in> {spec, identified spec}"
  shows "ob_Spec (or_zero o') = identified spec"
  using assms by (auto simp: enroller_Enforce_def andthen_Ret_iff updateSpec_def locked_call_def enroller_Start_def enroller_object_def or_zero_def identified_def Let_def
      split: if_splits sum.splits option.splits)

text \<open>
  (C23) A successful commit of an enrollment is what the controller then describes under that name: one
  object, with the committed spec and the name as its identity. The objects under other names are described
  as before, and the pointers of the controller stay in order. The hypotheses say that the controller is one
  of enrollments and that the commit succeeds.
\<close>

theorem commit_described:
  assumes "controller_inv c s" "co_ops c = enroller_ops ee" "Commit C_Enforce spec c s = Ret ((ob, None), c', s')"
  shows "controller_inv c' s' \<and> controller_describe (Some (ts_Metadata spec)) c' s' = Inr [ob] \<and> ob_Spec ob = identified spec \<and>
    (\<forall>md. co_keyfunc c md \<noteq> co_keyfunc c (ts_Metadata spec) \<longrightarrow> controller_describe (Some md) c' s' = controller_describe (Some md) c s)"
proof -
  obtain sp l w o' l' w' where e: "enroller_Enforce ee sp l w = Ret ((o', None), l', w')" "ob = or_zero o'" "sp \<in> {spec, identified spec}"
    using commit_enforces [OF assms(3)] unfolding assms(2) by (auto simp: enroller_ops_def)
  then show ?thesis using enrolled.commit_describes [OF assms] enforced_object [OF e(1,3)] by blast
qed

text \<open>A controller of enrollments as it is started, and its state after the first commit.\<close>

abbreviation demo_new :: "((unit Description list, unit) enroller, unit Description list, unit Description Mem sim_world) Controller" where
  "demo_new \<equiv> NewEnrollmentController (demo_ee None) DefaultEnOptions"

definition demo_start :: "((unit Description list, unit) enroller, unit Description Mem sim_world) mstate" where
  "demo_start = \<lparr>ms_cell = \<lambda>_. demo_enroller None, ms_next = 0, ms_world = demo_world\<rparr>"

lemma demo_commit: "\<exists>c s. Commit C_Enforce demo_spec demo_new demo_start = Ret ((\<lparr>ob_Spec = identified demo_spec, ob_State = None\<rparr>, None), c, s)"
  by (simp add: Commit_def NewEnrollmentController_def NewController_def getManaged_def newEnroller_def Let_def enroller_ops_def enroller_Running_def demo_spec_def
      EnOptions_Validate_def DefaultEnOptions_def locked_call_def managed_do_def enroller_Enforce_def updateSpec_def enroller_Start_def updateOptions_def demo_ee_def
      enroller_object_def or_zero_def identified_def)

theorem commit_described_witness:
  "\<exists>ob c s. Commit C_Enforce demo_spec demo_new demo_start = Ret ((ob, None), c, s) \<and> controller_describe (Some (ts_Metadata demo_spec)) c s = Inr [ob] \<and>
    ob_Spec ob = identified demo_spec"
proof -
  obtain c s where r: "Commit C_Enforce demo_spec demo_new demo_start = Ret ((\<lparr>ob_Spec = identified demo_spec, ob_State = None\<rparr>, None), c, s)"
    using demo_commit by blast
  have "controller_inv demo_new demo_start" "co_ops demo_new = enroller_ops (demo_ee None)"
    by (simp_all add: controller_inv_def NewEnrollmentController_def NewController_def)
  from commit_described [OF this r] show ?thesis using r by blast
qed

section \<open>After a stop\<close>

lemma NewEnrollmentController_fields [simp]:
  "co_ops (NewEnrollmentController ee options) = enroller_ops ee" "co_keyfunc (NewEnrollmentController ee options) = md_Name"
  by (simp_all add: NewEnrollmentController_def NewController_def)

text \<open>
  (C33) \<open>Free\<close> is documented to pause an object until it is committed again, but committing again panics:
  \<open>Free\<close> returns the object, and has stopped its poller; the object still reports that it runs, so
  \<open>Commit\<close> stops the poller a second time, which closes a closed channel. The hypotheses say that the first
  commit to a new controller succeeds, and that the second one is for the same name.
\<close>

theorem free_then_commit_panics:
  assumes "Commit C_Enforce spec (NewEnrollmentController ee options) s = Ret ((ob, None), c, s1)"
    "md_Name (ts_Metadata again) = md_Name (ts_Metadata spec)"
  shows "\<exists>objects s2. Controller_Free (Some (ts_Metadata spec)) c s1 = Ret (Inr objects, s2) \<and> length objects = 1 \<and> Commit C_Enforce again c s2 = Panics"
proof -
  obtain l where l: "c = NewEnrollmentController ee options\<lparr>co_managed := [(md_Name (ts_Metadata spec), ms_next s)]\<rparr>"
    "ms_cell s1 (ms_next s) = l" "el_running l" "\<not> el_locked l" "\<not> po_stopped (el_poller l)" "md_Name (ts_Metadata (el_spec l)) = md_Name (ts_Metadata spec)"
    "md_Name (ts_Metadata spec) \<noteq> []"
    using first_commit [OF assms(1)] by metis
  let ?l = "l\<lparr>el_poller := (el_poller l)\<lparr>po_stopped := True\<rparr>\<rparr>"
  let ?s2 = "s1\<lparr>ms_cell := (ms_cell s1)(ms_next s := ?l)\<rparr>"
  have "Controller_Free (Some (ts_Metadata spec)) c s1 = Ret (Inr [enroller_object l], ?s2)"
    using l(2-6) by (simp add: Controller_Free_def controller_describe_def getManaged_def l(1) Let_def enroller_ops_def managed_do_def enroller_object_def
        enroller_Pause_def stop_if_running_def enroller_Running_def enroller_Stop_def Poller_Stop_def locked_call_def)
  moreover have "Commit C_Enforce again c ?s2 = Panics"
    by (rule commit_stopped_panics [where ptr = "ms_next s"])
      (use l assms(2) in \<open>simp_all add: enroller_ops_def enroller_Running_def enroller_Stop_def Poller_Stop_def locked_call_def\<close>)
  ultimately show ?thesis by (intro exI [of _ "[enroller_object l]"]) auto
qed

theorem free_then_commit_panics_witness:
  "\<exists>ob c s1 objects s2. Commit C_Enforce demo_spec demo_new demo_start = Ret ((ob, None), c, s1) \<and>
    Controller_Free (Some (ts_Metadata demo_spec)) c s1 = Ret (Inr objects, s2) \<and> Commit C_Enforce demo_spec c s2 = Panics"
proof -
  obtain ob c s1 where r: "Commit C_Enforce demo_spec demo_new demo_start = Ret ((ob, None), c, s1)" using demo_commit by blast
  from free_then_commit_panics [OF r refl] show ?thesis using r by blast
qed

text \<open>
  (C34) \<open>destroy\<close> takes the lock and gives it back at its end only. When the enrollments cannot be listed, a
  destroy that is to remove them returns the error with the lock taken, and every later commit for that name,
  to enforce or to destroy, blocks for ever; as it holds the lock of the controller, so does every
  other call. The hypotheses say that the first commit succeeds, that the option is set, and that the sink
  is connected and fails to describe its instances.
\<close>

theorem destroy_keeps_lock:
  assumes "Commit C_Enforce spec (NewEnrollmentController ee options) s = Ret ((ob, None), c, s1)"
    "eo_DestroyOnTerminate (el_options (ms_cell s1 (ms_next s)))"
    "ee_Instance ee (ep_Plugin (en_Instance (el_properties (ms_cell s1 (ms_next s))))) = Inr ip"
    "getEnrolledInstances ee (ms_cell s1 (ms_next s)) (ms_world s1) = (Inl err, w')"
    "md_Name (ts_Metadata again) = md_Name (ts_Metadata spec)"
  shows "\<exists>object s2. Commit C_Destroy spec c s1 = Ret ((object, Some err), c, s2) \<and> Commit C_Enforce again c s2 = Blocks \<and> Commit C_Destroy again c s2 = Blocks"
proof -
  obtain l where l: "c = NewEnrollmentController ee options\<lparr>co_managed := [(md_Name (ts_Metadata spec), ms_next s)]\<rparr>"
    "ms_cell s1 (ms_next s) = l" "el_running l" "\<not> el_locked l" "\<not> po_stopped (el_poller l)" "md_Name (ts_Metadata spec) \<noteq> []"
    using first_commit [OF assms(1)] by metis
  let ?l = "l\<lparr>el_poller := (el_poller l)\<lparr>po_stopped := True\<rparr>, el_locked := True\<rparr>"
  let ?s2 = "s1\<lparr>ms_cell := (ms_cell s1)(ms_next s := ?l), ms_world := w'\<rparr>"
  have "getEnrolledInstances ee (l\<lparr>el_poller := p\<rparr>) (ms_world s1) = (Inl err, w')" for p using assms(3,4) l(2) by (simp add: getEnrolledInstances_def)
  then have "Commit C_Destroy spec c s1 = Ret ((enroller_object l, Some err), c, ?s2)"
    using l(2-6) assms(2,3) by (simp add: Commit_def getManaged_def l(1) Let_def enroller_ops_def managed_do_def enroller_object_def enroller_destroy_def or_zero_def
        enroller_Terminate_def stop_if_running_def enroller_Running_def enroller_Stop_def Poller_Stop_def locked_call_def)
  moreover have "Commit C_Enforce again c ?s2 = Blocks" "Commit C_Destroy again c ?s2 = Blocks"
    using l(6) assms(5) by (simp_all add: Commit_def getManaged_def l(1) Let_def enroller_ops_def managed_do_def
        enroller_Terminate_def stop_if_running_def enroller_Running_def locked_call_def)
  ultimately show ?thesis by blast
qed

theorem destroy_keeps_lock_witness:
  "let down = sim_instance_plugin demo_env demo_sim\<lparr>ip_DescribeInstances := \<lambda>_ _ w. (Inl ''down'', w)\<rparr>;
       ee = (demo_ee None)\<lparr>ee_Instance := \<lambda>_. Inr down\<rparr>;
       options = DefaultEnOptions\<lparr>eo_DestroyOnTerminate := True\<rparr> in
   \<exists>ob c s1 object s2. Commit C_Enforce demo_spec (NewEnrollmentController ee options) demo_start = Ret ((ob, None), c, s1) \<and>
     Commit C_Destroy demo_spec c s1 = Ret ((object, Some ''down''), c, s2) \<and> Commit C_Enforce demo_spec c s2 = Blocks \<and> Commit C_Destroy demo_spec c s2 = Blocks"
proof -
  define down where "down = sim_instance_plugin demo_env demo_sim\<lparr>ip_DescribeInstances := \<lambda>_ _ w. (Inl ''down'', w)\<rparr>"
  define ee where "ee = (demo_ee None)\<lparr>ee_Instance := \<lambda>_. Inr down\<rparr>"
  define options where "options = DefaultEnOptions\<lparr>eo_DestroyOnTerminate := True\<rparr>"
  obtain ob c s1 where r: "Commit C_Enforce demo_spec (NewEnrollmentController ee options) demo_start = Ret ((ob, None), c, s1)"
    "eo_DestroyOnTerminate (el_options (ms_cell s1 (ms_next demo_start)))"
    by (simp add: Commit_def NewEnrollmentController_def NewController_def getManaged_def newEnroller_def Let_def enroller_ops_def enroller_Running_def demo_spec_def
      EnOptions_Validate_def DefaultEnOptions_def locked_call_def managed_do_def enroller_Enforce_def updateSpec_def enroller_Start_def updateOptions_def demo_ee_def
      ee_def options_def)
  have i: "ee_Instance ee n = Inr down" "getEnrolledInstances ee l w = (Inl ''down'', w)" for n l w
    by (simp_all add: getEnrolledInstances_def ee_def down_def)
  from destroy_keeps_lock [OF r i(1) i(2) refl] show ?thesis using r(1) unfolding Let_def down_def ee_def options_def by blast
qed

end
