(* ===== verification/Snapshot.thy ===== *)
theory Snapshot
  imports Prelude
begin

text \<open>
  Snapshots (\<open>Snapshot\<close> of \<open>pkg/store/store.go\<close>), which keep one object as a whole, and the one that keeps it
  in a file, \<open>pkg/store/file/file.go\<close>.
\<close>

section \<open>The interface\<close>

text \<open>\<open>Load\<close> leaves its argument alone, and returns no error, when there is no data: \<open>None\<close>.\<close>

record ('v, 's) snapshot =
  sn_Save :: "'v \<Rightarrow> 's \<Rightarrow> string option \<times> 's"
  sn_Load :: "'s \<Rightarrow> string + 'v option"

text \<open>What a client relies on: while the store is in order, what was saved last is what is loaded.\<close>

locale snapshot_contract =
  fixes sn :: "('v, 's) snapshot" and ok :: "'s \<Rightarrow> bool" and val :: "'s \<Rightarrow> 'v option"
  assumes Load: "ok s \<Longrightarrow> sn_Load sn s = Inr (val s)"
    and Save: "ok s \<Longrightarrow> \<exists>s'. sn_Save sn v s = (None, s') \<and> ok s' \<and> val s' = Some v"

section \<open>Snapshots in a file\<close>

text \<open>The errors of the operating system that matter here; \<open>os.IsExist\<close> looks for two of them.\<close>

datatype errno = ENOENT | EACCES | EIO | EMFILE | EEXIST | ENOTEMPTY

definition os_IsExist :: "errno \<Rightarrow> bool" where
  "os_IsExist e \<longleftrightarrow> e = EEXIST \<or> e = ENOTEMPTY"

definition errno_text :: "errno \<Rightarrow> string" where
  "errno_text e = (case e of ENOENT \<Rightarrow> ''no such file or directory'' | EACCES \<Rightarrow> ''permission denied'' | EIO \<Rightarrow> ''input/output error''
     | EMFILE \<Rightarrow> ''too many open files'' | EEXIST \<Rightarrow> ''file exists'' | ENOTEMPTY \<Rightarrow> ''directory not empty'')"

text \<open>The file: its contents, and the error that reading it gives at present, if any.\<close>

record 'b snap_file =
  sf_content :: "'b option"
  sf_fault :: "errno option"

definition ReadFile :: "'b snap_file \<Rightarrow> errno + 'b" where
  "ReadFile f = (case sf_fault f of
     Some e \<Rightarrow> Inl e
   | None \<Rightarrow> (case sf_content f of None \<Rightarrow> Inl ENOENT | Some b \<Rightarrow> Inr b))"

definition WriteFile :: "'b \<Rightarrow> 'b snap_file \<Rightarrow> 'b snap_file" where
  "WriteFile b f = f\<lparr>sf_content := Some b\<rparr>"

text \<open>\<open>marshal\<close> and \<open>unmarshal\<close> are those of JSON, for the type of the object.\<close>

definition file_Save :: "('v \<Rightarrow> string + 'b) \<Rightarrow> 'v \<Rightarrow> 'b snap_file \<Rightarrow> string option \<times> 'b snap_file" where
  "file_Save marshal v f = (case marshal v of Inl err \<Rightarrow> (Some err, f) | Inr buff \<Rightarrow> (None, WriteFile buff f))"

definition file_Load :: "('b \<Rightarrow> string + 'v) \<Rightarrow> 'b snap_file \<Rightarrow> string + 'v option" where
  "file_Load unmarshal f = (case ReadFile f of
     Inr buff \<Rightarrow> (case unmarshal buff of Inl err \<Rightarrow> Inl err | Inr v \<Rightarrow> Inr (Some v))
   | Inl e \<Rightarrow> if os_IsExist e then Inl (errno_text e) else Inr None)"

definition NewSnapshot :: "('v \<Rightarrow> string + 'b) \<Rightarrow> ('b \<Rightarrow> string + 'v) \<Rightarrow> ('v, 'b snap_file) snapshot" where
  "NewSnapshot marshal unmarshal = \<lparr>sn_Save = file_Save marshal, sn_Load = file_Load unmarshal\<rparr>"

text \<open>A file without a fault, whose contents can be decoded, keeps the contract.\<close>

definition file_ok :: "('b \<Rightarrow> string + 'v) \<Rightarrow> 'b snap_file \<Rightarrow> bool" where
  "file_ok unmarshal f \<longleftrightarrow> sf_fault f = None \<and> (\<forall>b. sf_content f = Some b \<longrightarrow> \<not> isl (unmarshal b))"

definition file_val :: "('b \<Rightarrow> string + 'v) \<Rightarrow> 'b snap_file \<Rightarrow> 'v option" where
  "file_val unmarshal f = map_option (\<lambda>b. projr (unmarshal b)) (sf_content f)"

locale json_codec =
  fixes marshal :: "'v \<Rightarrow> string + 'b" and unmarshal :: "'b \<Rightarrow> string + 'v"
  assumes codec: "\<exists>b. marshal v = Inr b \<and> unmarshal b = Inr v"

sublocale json_codec \<subseteq> disk: snapshot_contract "NewSnapshot marshal unmarshal" "file_ok unmarshal" "file_val unmarshal"
proof
  fix f assume "file_ok unmarshal f"
  then show "sn_Load (NewSnapshot marshal unmarshal) f = Inr (file_val unmarshal f)"
    by (auto simp: NewSnapshot_def file_Load_def ReadFile_def os_IsExist_def file_ok_def file_val_def split: option.splits sum.splits)
next
  fix f v assume "file_ok unmarshal f"
  then show "\<exists>f'. sn_Save (NewSnapshot marshal unmarshal) v f = (None, f') \<and> file_ok unmarshal f' \<and> file_val unmarshal f' = Some v"
    using codec [of v] by (auto simp: NewSnapshot_def file_Save_def WriteFile_def file_ok_def file_val_def)
qed

context json_codec
begin

lemmas in_file = disk.snapshot_contract_axioms

end

text \<open>Data that is its own encoding.\<close>

interpretation plain_json: json_codec Inr Inr
  by unfold_locales simp

end
