(* ===== verification/Stored_Specs.thy ===== *)
theory Stored_Specs
  imports Snapshot Managed_Controller Plugin_Name Group_Controller
begin

text \<open>
  The specs that the manager keeps, \<open>pkg/manager/stored.go\<close>: an index of specs by kind and name, written to
  and read from a snapshot as a list of entries. \<open>'a\<close> is encoded data. A nil index reads like an empty one,
  and every method that writes makes one first, so both are the empty map here.
\<close>

section \<open>Keys and their order\<close>

record mkey =
  mk_Kind :: string
  mk_Name :: string

definition kindRank :: "(string, int) gomap" where
  "kindRank = [(''group'', 100), (''ingress'', 200), (''enrollment'', 300)]"

abbreviation rank :: "mkey \<Rightarrow> int" where
  "rank k \<equiv> gm_get0 0 kindRank (mk_Kind k)"

definition keys_Less :: "mkey \<Rightarrow> mkey \<Rightarrow> bool" where
  "keys_Less i j = (let diff = rank i - rank j in if diff = 0 then mk_Name i < mk_Name j else diff < 0)"

interpretation by_rank: less_by_key keys_Less "\<lambda>k. (rank k, mk_Name k)"
  by unfold_locales (auto simp: keys_Less_def Let_def)

section \<open>The index\<close>

record 'a MRecord =
  mr_Handler :: Name
  mr_Spec :: "'a TSpec"

type_synonym 'a mentry = "mkey \<times> 'a MRecord"

record 'a globalSpec =
  gl_data :: "'a mentry list"
  gl_index :: "(mkey, 'a MRecord) gomap"

definition new_global :: "'a globalSpec" where
  "new_global = \<lparr>gl_data = [], gl_index = []\<rparr>"

definition zero_record :: "'a MRecord" where
  "zero_record = \<lparr>mr_Handler = [], mr_Spec = zero_spec\<rparr>"

text \<open>\<open>order\<close> is the order in which the runtime visits the map.\<close>

definition orderedKeys :: "(mkey list \<Rightarrow> mkey list) \<Rightarrow> 'a globalSpec \<Rightarrow> mkey list" where
  "orderedKeys order g = go_sort keys_Less (in_order order (map fst (gl_index g)))"

definition gl_visit :: "(mkey list \<Rightarrow> mkey list) \<Rightarrow> ('s \<Rightarrow> mkey \<Rightarrow> 'a MRecord \<Rightarrow> 'e + 's) \<Rightarrow> 'a globalSpec \<Rightarrow> 's \<Rightarrow> 'e + 's" where
  "gl_visit order f g s = forM (\<lambda>s k. f s k (gm_get0 zero_record (gl_index g) k)) s (orderedKeys order g)"

definition gl_store :: "('a mentry list \<Rightarrow> 'a mentry list) \<Rightarrow> ('a mentry list, 's) snapshot \<Rightarrow> 'a globalSpec \<Rightarrow> 's \<Rightarrow> string option \<times> 's" where
  "gl_store order sn g s = sn_Save sn (in_order order (gl_index g)) s"

definition gl_load :: "('a mentry list, 's) snapshot \<Rightarrow> 's \<Rightarrow> string + 'a globalSpec" where
  "gl_load sn s = (case sn_Load sn s of
     Inl err \<Rightarrow> Inl err
   | Inr v \<Rightarrow> (let data = (case v of None \<Rightarrow> [] | Some d \<Rightarrow> d) in
       Inr \<lparr>gl_data = data, gl_index = fold (\<lambda>(k, r) m. gm_put k r m) data []\<rparr>))"

definition gl_updateSpec :: "'a TSpec \<Rightarrow> Name \<Rightarrow> 'a globalSpec \<Rightarrow> 'a globalSpec" where
  "gl_updateSpec spec handler g = g\<lparr>gl_index := gm_put \<lparr>mk_Kind = ts_Kind spec, mk_Name = md_Name (ts_Metadata spec)\<rparr>
     \<lparr>mr_Handler = handler, mr_Spec = spec\<rparr> (gl_index g)\<rparr>"

definition keyFromGroupID :: "string \<Rightarrow> mkey" where
  "keyFromGroupID gid = \<lparr>mk_Kind = ''group'', mk_Name = gid\<rparr>"

definition gl_removeSpec :: "string \<Rightarrow> Metadata \<Rightarrow> 'a globalSpec \<Rightarrow> 'a globalSpec" where
  "gl_removeSpec kind metadata g = g\<lparr>gl_index := gm_del \<lparr>mk_Kind = kind, mk_Name = md_Name metadata\<rparr> (gl_index g)\<rparr>"

definition gl_getSpec :: "string \<Rightarrow> Metadata \<Rightarrow> 'a globalSpec \<Rightarrow> string + 'a TSpec" where
  "gl_getSpec kind metadata g = (case gm_get (gl_index g) \<lparr>mk_Kind = kind, mk_Name = md_Name metadata\<rparr> of
     None \<Rightarrow> Inl (''not found '' @ kind @ '' '' @ md_Name metadata)
   | Some r \<Rightarrow> Inr (mr_Spec r))"

definition gl_removeGroup :: "string \<Rightarrow> 'a globalSpec \<Rightarrow> 'a globalSpec" where
  "gl_removeGroup gid g = g\<lparr>gl_index := gm_del (keyFromGroupID gid) (gl_index g)\<rparr>"

definition gl_getGroupSpec :: "string \<Rightarrow> 'a globalSpec \<Rightarrow> string + 'a GroupConfig" where
  "gl_getGroupSpec gid g = (case gm_get (gl_index g) (keyFromGroupID gid) of
     None \<Rightarrow> Inl (''not found '' @ gid)
   | Some r \<Rightarrow> Inr \<lparr>cf_ID = gid, cf_Properties = ts_Properties (mr_Spec r)\<rparr>)"

text \<open>The record of a group that is there keeps its handler and everything of its spec but the properties.\<close>

definition gl_updateGroupSpec :: "'a GroupConfig \<Rightarrow> Name \<Rightarrow> 'a globalSpec \<Rightarrow> 'a globalSpec" where
  "gl_updateGroupSpec gspec handler g = (let
     key = keyFromGroupID (cf_ID gspec);
     record = (case gm_get (gl_index g) key of
         Some r \<Rightarrow> r
       | None \<Rightarrow> \<lparr>mr_Handler = handler, mr_Spec = zero_spec\<lparr>ts_Kind := ''group'', ts_Metadata := \<lparr>md_Identity = None, md_Name = cf_ID gspec, md_Tags = []\<rparr>\<rparr>\<rparr>)
   in g\<lparr>gl_index := gm_put key (record\<lparr>mr_Spec := (mr_Spec record)\<lparr>ts_Properties := cf_Properties gspec\<rparr>\<rparr>) (gl_index g)\<rparr>)"

section \<open>What is stored is what is loaded\<close>

lemma fold_put_get: "gm_get (fold (\<lambda>(k, r) m. gm_put k r m) data m) k = (case gm_get (rev data) k of Some r \<Rightarrow> Some r | None \<Rightarrow> gm_get m k)"
  by (induction data arbitrary: m) (auto simp: map_add_def split: option.splits)

lemma gm_ok_fold_put [simp]: "gm_ok m \<Longrightarrow> gm_ok (fold (\<lambda>(k, r) m. gm_put k r m) data m)"
  by (induction data arbitrary: m) auto

lemma gm_get_mset:
  assumes "gm_ok m" "mset m' = mset m"
  shows "gm_ok m'" "gm_get m' = gm_get m"
proof -
  have "mset (map fst m') = mset (map fst m)" using assms(2) by simp
  then show ok: "gm_ok m'" using assms(1) unfolding gm_ok_def by (metis mset_eq_imp_distinct_iff)
  have "gm_get m' k = Some v \<longleftrightarrow> gm_get m k = Some v" for k v
    using gm_mem_iff [OF ok, of k v] gm_mem_iff [OF assms(1), of k v] mset_eq_setD [OF assms(2)] by simp
  then show "gm_get m' = gm_get m" by (metis ext not_Some_eq)
qed

lemma gm_get_rev: "gm_ok m \<Longrightarrow> gm_get (rev m) = gm_get m"
  by (rule gm_get_mset(2)) simp_all

text \<open>Two indices that the lookups cannot tell apart.\<close>

definition same_specs :: "'a globalSpec \<Rightarrow> (mkey \<Rightarrow> 'a MRecord option) \<Rightarrow> bool" where
  "same_specs g m \<longleftrightarrow> gm_ok (gl_index g) \<and> gm_get (gl_index g) = m"

text \<open>The specs that a store holds.\<close>

definition held :: "'a mentry list option \<Rightarrow> mkey \<Rightarrow> 'a MRecord option" where
  "held v = (case v of None \<Rightarrow> Map.empty | Some d \<Rightarrow> gm_get (rev d))"

locale spec_store = snapshot_contract sn ok val
  for sn :: "('a mentry list, 's) snapshot" and ok :: "'s \<Rightarrow> bool" and val :: "'s \<Rightarrow> 'a mentry list option"
begin

lemma load_held:
  assumes "ok s"
  shows "\<exists>g. gl_load sn s = Inr g \<and> same_specs g (held (val s))"
  using Load [OF assms] by (auto simp: gl_load_def same_specs_def held_def fun_eq_iff fold_put_get split: option.splits)

lemma store_held:
  assumes "ok s" "same_specs g m"
  shows "\<exists>s'. gl_store order sn g s = (None, s') \<and> ok s' \<and> held (val s') = m"
proof -
  obtain s' where s': "sn_Save sn (in_order order (gl_index g)) s = (None, s')" "ok s'" "val s' = Some (in_order order (gl_index g))"
    using Save [OF assms(1)] by blast
  have g: "gm_ok (gl_index g)" "gm_get (gl_index g) = m" using assms(2) by (simp_all add: same_specs_def)
  have "gm_get (rev (in_order order (gl_index g))) = m"
    using gm_get_mset [OF g(1), of "in_order order (gl_index g)"] gm_get_rev [of "in_order order (gl_index g)"] g(2) by simp
  then show ?thesis using s' by (auto simp: gl_store_def held_def)
qed

end

text \<open>Specs in a file.\<close>

lemma file_spec_store: "json_codec marshal unmarshal \<Longrightarrow> spec_store (NewSnapshot marshal unmarshal) (file_ok unmarshal) (file_val unmarshal)"
  by (rule spec_store.intro) (rule json_codec.in_file)

interpretation plain_specs: spec_store "NewSnapshot Inr Inr" "file_ok Inr" "file_val Inr"
  by (rule file_spec_store) (rule plain_json.json_codec_axioms)

section \<open>The order of a visit\<close>

lemma orderedKeys_mset: "mset (orderedKeys order g) = mset (map fst (gl_index g))"
  by (simp add: orderedKeys_def)

lemma orderedKeys_set: "set (orderedKeys order g) = dom (gm_get (gl_index g))"
  by (metis orderedKeys_mset dom_map_of_conv_image_fst mset_eq_setD set_map)

lemma orderedKeys_distinct: "gm_ok (gl_index g) \<Longrightarrow> distinct (orderedKeys order g)"
  unfolding gm_ok_def by (metis orderedKeys_mset mset_eq_imp_distinct_iff)

lemma orderedKeys_sorted: "sorted (map (\<lambda>k. (rank k, mk_Name k)) (orderedKeys order g))"
  unfolding orderedKeys_def by (rule by_rank.sorted_go_sort)

text \<open>An operation on specs, as the lookups see it.\<close>

definition group_record :: "'a GroupConfig \<Rightarrow> Name \<Rightarrow> 'a MRecord option \<Rightarrow> 'a MRecord" where
  "group_record gspec handler r = (let
     record = (case r of Some r \<Rightarrow> r
       | None \<Rightarrow> \<lparr>mr_Handler = handler, mr_Spec = zero_spec\<lparr>ts_Kind := ''group'', ts_Metadata := \<lparr>md_Identity = None, md_Name = cf_ID gspec, md_Tags = []\<rparr>\<rparr>\<rparr>)
   in record\<lparr>mr_Spec := (mr_Spec record)\<lparr>ts_Properties := cf_Properties gspec\<rparr>\<rparr>)"

lemma same_specs_update: "same_specs g m \<Longrightarrow>
    same_specs (gl_updateGroupSpec gspec handler g) (m(keyFromGroupID (cf_ID gspec) \<mapsto> group_record gspec handler (m (keyFromGroupID (cf_ID gspec)))))"
  by (auto simp: same_specs_def gl_updateGroupSpec_def group_record_def Let_def fun_eq_iff)

lemma same_specs_updateSpec: "same_specs g m \<Longrightarrow>
    same_specs (gl_updateSpec spec handler g) (m(\<lparr>mk_Kind = ts_Kind spec, mk_Name = md_Name (ts_Metadata spec)\<rparr> \<mapsto> \<lparr>mr_Handler = handler, mr_Spec = spec\<rparr>))"
  by (auto simp: same_specs_def gl_updateSpec_def fun_eq_iff)

lemma same_specs_remove:
  "same_specs g m \<Longrightarrow> same_specs (gl_removeGroup gid g) (m(keyFromGroupID gid := None))"
  "same_specs g m \<Longrightarrow> same_specs (gl_removeSpec kind md g) (m(\<lparr>mk_Kind = kind, mk_Name = md_Name md\<rparr> := None))"
  by (auto simp: same_specs_def gl_removeGroup_def gl_removeSpec_def fun_eq_iff)

lemma getGroupSpec_same: "same_specs g m \<Longrightarrow> gl_getGroupSpec gid g = (case m (keyFromGroupID gid) of None \<Rightarrow> Inl (''not found '' @ gid)
    | Some r \<Rightarrow> Inr \<lparr>cf_ID = gid, cf_Properties = ts_Properties (mr_Spec r)\<rparr>)"
  by (simp add: same_specs_def gl_getGroupSpec_def)

end
