(* ===== verification/Manager.thy ===== *)
theory Manager
  imports Stored_Specs
begin

text \<open>
  The manager (\<open>pkg/manager\<close>): it stores the specs that the user commits, passes operations on to the
  group plugin and to controllers while its node is the leader (\<open>group_proxy.go\<close>,
  \<open>controller_proxy.go\<close>), and commits or frees everything when leadership is won or lost
  (\<open>manager.go\<close>). Metadata of the manager and its status are left out.

  Clients, the goroutine that follows leadership and the one that works off the queue of operations
  interleave; an interleaving is a list of events.
\<close>

section \<open>The plugins behind the manager\<close>

text \<open>
  The interfaces of groups and of controllers, over the world \<open>'w\<close> that the plugins act on. The sizes of groups are
  missing, which the manager answers by itself, and so are the messages of a plan, which are only handed on.
\<close>

record ('a, 'p, 'w) group_api =
  ga_CommitGroup :: "'a GroupConfig \<Rightarrow> bool \<Rightarrow> 'w \<Rightarrow> ((string \<times> string option) \<times> 'w) outcome"
  ga_FreeGroup :: "string \<Rightarrow> 'w \<Rightarrow> (string option \<times> 'w) outcome"
  ga_DescribeGroup :: "string \<Rightarrow> 'w \<Rightarrow> ((string + 'p Description list \<times> bool) \<times> 'w) outcome"
  ga_DestroyGroup :: "string \<Rightarrow> 'w \<Rightarrow> (string option \<times> 'w) outcome"
  ga_InspectGroups :: "'w \<Rightarrow> string option \<times> 'a GroupConfig list"
  ga_DestroyInstances :: "string \<Rightarrow> InstanceID list \<Rightarrow> 'w \<Rightarrow> (string option \<times> 'w) outcome"

record ('a, 'w) controller_api =
  ca_Plan :: "COperation \<Rightarrow> 'a TSpec \<Rightarrow> 'w \<Rightarrow> (('a TObject \<times> string option) \<times> 'w) outcome"
  ca_Commit :: "COperation \<Rightarrow> 'a TSpec \<Rightarrow> 'w \<Rightarrow> (('a TObject \<times> string option) \<times> 'w) outcome"
  ca_Describe :: "Metadata option \<Rightarrow> 'w \<Rightarrow> ((string + 'a TObject list) \<times> 'w) outcome"
  ca_Free :: "Metadata option \<Rightarrow> 'w \<Rightarrow> ((string + 'a TObject list) \<times> 'w) outcome"

text \<open>
  The options and the scope of the manager. \<open>me_dataOrder\<close> and \<open>me_keyOrder\<close> are the orders in which the runtime
  visits the index. \<open>me_loadMetadata\<close> is what \<open>loadMetadata\<close> does to the world; its error is only logged.
\<close>

record ('a, 'p, 's, 'w) mgr_env =
  me_snapshot :: "('a mentry list, 's) snapshot option"
  me_dataOrder :: "'a mentry list \<Rightarrow> 'a mentry list"
  me_keyOrder :: "mkey list \<Rightarrow> mkey list"
  me_groupName :: Name
  me_plugin :: "('a, 'p, 'w) group_api"
  me_Group :: "Name \<Rightarrow> string + ('a, 'p, 'w) group_api"
  me_Controller :: "Name \<Rightarrow> string + ('a, 'w) controller_api"
  me_ParseProperties :: "'a GroupConfig \<Rightarrow> string + 'p GroupSpec"
  me_encode :: "'p GroupSpec \<Rightarrow> string + 'a"
  me_loadMetadata :: "'w \<Rightarrow> 'w"
  me_retries :: int

section \<open>Operations in the queue\<close>

text \<open>The closures of the source, by what they capture. Those of \<open>execPlugins\<close> are retried when they fail.\<close>

datatype ('a, 'p, 'w) backendOp =
    Op_CommitGroup "'a GroupConfig" bool
  | Op_DescribeGroup string
  | Op_DestroyGroup string
  | Op_FreeGroup string
  | Op_DestroyInstances string "InstanceID list"
  | Op_Plan "('a, 'w) controller_api" COperation "'a TSpec"
  | Op_Commit "('a, 'w) controller_api" COperation "'a TSpec"
  | Op_Describe "('a, 'w) controller_api" "Metadata option"
  | Op_Free "('a, 'w) controller_api" "Metadata option"
  | Op_execCommit "('a, 'w) controller_api" "'a TSpec"
  | Op_execFree "('a, 'w) controller_api" "'a TSpec"
  | Op_execCommitGroup "('a, 'p, 'w) group_api" "'a GroupConfig"
  | Op_execFreeGroup "('a, 'p, 'w) group_api" "'a GroupConfig"

datatype ('a, 'p) reply = Rp_None | Rp_Text string | Rp_Group "'p Description list" bool | Rp_Object "'a TObject" | Rp_Objects "'a TObject list"

text \<open>
  \<open>mn_notify\<close>: a change of leadership that the goroutine which follows leadership waits to hand over.
  \<open>mn_stopping\<close>: that goroutine has closed its channels and returned. \<open>mn_alive\<close>: the goroutine that works off
  the queue has not returned. \<open>mn_done\<close>: the channel \<open>running\<close> is closed.
\<close>

record ('a, 'p, 's, 'w) manager =
  mn_isLeader :: bool
  mn_specs :: 's
  mn_world :: 'w
  mn_queue :: "('a, 'p, 'w) backendOp list"
  mn_notify :: "bool option"
  mn_stopping :: bool
  mn_alive :: bool
  mn_done :: bool

text \<open>A manager that was just started: the two goroutines wait.\<close>

definition started_manager :: "'s \<Rightarrow> 'w \<Rightarrow> ('a, 'p, 's, 'w) manager" where
  "started_manager s w = \<lparr>mn_isLeader = False, mn_specs = s, mn_world = w, mn_queue = [], mn_notify = None, mn_stopping = False,
     mn_alive = True, mn_done = False\<rparr>"

definition errNotLeader :: string where
  "errNotLeader = ''not a leader''"

section \<open>The store of specs\<close>

text \<open>Reading, changing and writing the specs. The store must not be nil here.\<close>

definition with_store :: "('a, 'p, 's, 'w) mgr_env \<Rightarrow> ('a globalSpec \<Rightarrow> 'a globalSpec) \<Rightarrow> ('a, 'p, 's, 'w) manager \<Rightarrow>
    (string option \<times> ('a, 'p, 's, 'w) manager) outcome" where
  "with_store env f m = (case me_snapshot env of
     None \<Rightarrow> Panics
   | Some sn \<Rightarrow> (case gl_load sn (mn_specs m) of
       Inl err \<Rightarrow> Ret (Some err, m)
     | Inr stored \<Rightarrow> (case gl_store (me_dataOrder env) sn (f stored) (mn_specs m) of
         (err, s) \<Rightarrow> Ret (err, m\<lparr>mn_specs := s\<rparr>))))"

definition updateConfig :: "('a, 'p, 's, 'w) mgr_env \<Rightarrow> 'a GroupConfig \<Rightarrow> ('a, 'p, 's, 'w) manager \<Rightarrow> (string option \<times> ('a, 'p, 's, 'w) manager) outcome" where
  "updateConfig env spec = with_store env (gl_updateGroupSpec spec (me_groupName env))"

definition removeConfig :: "('a, 'p, 's, 'w) mgr_env \<Rightarrow> string \<Rightarrow> ('a, 'p, 's, 'w) manager \<Rightarrow> (string option \<times> ('a, 'p, 's, 'w) manager) outcome" where
  "removeConfig env gid = with_store env (gl_removeGroup gid)"

definition mgr_updateSpec :: "('a, 'p, 's, 'w) mgr_env \<Rightarrow> 'a TSpec \<Rightarrow> Name \<Rightarrow> ('a, 'p, 's, 'w) manager \<Rightarrow> (string option \<times> ('a, 'p, 's, 'w) manager) outcome" where
  "mgr_updateSpec env spec handler = with_store env (gl_updateSpec spec handler)"

definition mgr_removeSpec :: "('a, 'p, 's, 'w) mgr_env \<Rightarrow> 'a TSpec \<Rightarrow> ('a, 'p, 's, 'w) manager \<Rightarrow> (string option \<times> ('a, 'p, 's, 'w) manager) outcome" where
  "mgr_removeSpec env spec = with_store env (gl_removeSpec (ts_Kind spec) (ts_Metadata spec))"

definition loadGroupSpec :: "('a, 'p, 's, 'w) mgr_env \<Rightarrow> string \<Rightarrow> ('a, 'p, 's, 'w) manager \<Rightarrow> (string + 'a GroupConfig) outcome" where
  "loadGroupSpec env gid m = (case me_snapshot env of
     None \<Rightarrow> Panics
   | Some sn \<Rightarrow> (case gl_load sn (mn_specs m) of Inl err \<Rightarrow> Ret (Inl err) | Inr config \<Rightarrow> Ret (gl_getGroupSpec gid config)))"

section \<open>Running an operation\<close>

text \<open>Whether to retry, the error, what the client is told, and the manager. \<open>on_world\<close> calls a plugin.\<close>

type_synonym ('a, 'p, 's, 'w) op_result = "(bool \<times> string option \<times> ('a, 'p) reply \<times> ('a, 'p, 's, 'w) manager) outcome"

definition on_world :: "bool \<Rightarrow> ('w \<Rightarrow> ('r \<times> 'w) outcome) \<Rightarrow> ('r \<Rightarrow> string option \<times> ('a, 'p) reply) \<Rightarrow> ('a, 'p, 's, 'w) manager \<Rightarrow> ('a, 'p, 's, 'w) op_result" where
  "on_world retry f k m = andthen (f (mn_world m)) (\<lambda>(r, w). case k r of (err, reply) \<Rightarrow> Ret (retry, err, reply, m\<lparr>mn_world := w\<rparr>))"

definition reply_err :: "string option \<Rightarrow> string option \<times> ('a, 'p) reply" where
  "reply_err err = (err, Rp_None)"

definition reply_text :: "string \<times> string option \<Rightarrow> string option \<times> ('a, 'p) reply" where
  "reply_text r = (snd r, Rp_Text (fst r))"

definition reply_object :: "'a TObject \<times> string option \<Rightarrow> string option \<times> ('a, 'p) reply" where
  "reply_object r = (snd r, Rp_Object (fst r))"

definition reply_objects :: "string + 'a TObject list \<Rightarrow> string option \<times> ('a, 'p) reply" where
  "reply_objects r = (case r of Inl err \<Rightarrow> (Some err, Rp_None) | Inr objects \<Rightarrow> (None, Rp_Objects objects))"

definition reply_group :: "string + 'p Description list \<times> bool \<Rightarrow> string option \<times> ('a, 'p) reply" where
  "reply_group r = (case r of Inl err \<Rightarrow> (Some err, Rp_None) | Inr (ds, converged) \<Rightarrow> (None, Rp_Group ds converged))"

text \<open>The desired state is stored first; an error in that ends the operation.\<close>

definition after_store :: "('a, 'p) reply \<Rightarrow> (string option \<times> ('a, 'p, 's, 'w) manager) outcome \<Rightarrow> (('a, 'p, 's, 'w) manager \<Rightarrow> ('a, 'p, 's, 'w) op_result) \<Rightarrow> ('a, 'p, 's, 'w) op_result" where
  "after_store failed r k = andthen r (\<lambda>(err, m). case err of Some e \<Rightarrow> Ret (False, Some e, failed, m) | None \<Rightarrow> k m)"

fun run_op :: "('a, 'p, 's, 'w) mgr_env \<Rightarrow> ('a, 'p, 'w) backendOp \<Rightarrow> ('a, 'p, 's, 'w) manager \<Rightarrow> ('a, 'p, 's, 'w) op_result" where
  "run_op env (Op_CommitGroup grp pretend) m = after_store (Rp_Text ''Cannot update spec. Abort'') (if \<not> pretend then updateConfig env grp m else Ret (None, m))
     (on_world False (ga_CommitGroup (me_plugin env) grp pretend) reply_text)"
| "run_op env (Op_DescribeGroup gid) m = on_world False (ga_DescribeGroup (me_plugin env) gid) reply_group m"
| "run_op env (Op_DestroyGroup gid) m = after_store Rp_None (removeConfig env gid m) (on_world False (ga_DestroyGroup (me_plugin env) gid) reply_err)"
| "run_op env (Op_FreeGroup gid) m = after_store Rp_None (removeConfig env gid m) (on_world False (ga_FreeGroup (me_plugin env) gid) reply_err)"
| "run_op env (Op_DestroyInstances gid ids) m = on_world False (ga_DestroyInstances (me_plugin env) gid ids) reply_err m"
| "run_op env (Op_Plan c op spec) m = on_world False (ca_Plan c op spec) reply_object m"
| "run_op env (Op_Commit c op spec) m = on_world False (ca_Commit c op spec) reply_object m"
| "run_op env (Op_Describe c search) m = on_world False (ca_Describe c search) reply_objects m"
| "run_op env (Op_Free c search) m = on_world False (ca_Free c search) reply_objects m"
| "run_op env (Op_execCommit c spec) m = on_world True (ca_Commit c C_Enforce spec) reply_object m"
| "run_op env (Op_execFree c spec) m = on_world True (ca_Free c (Some (ts_Metadata spec))) reply_objects m"
| "run_op env (Op_execCommitGroup g spec) m = on_world True (ga_CommitGroup g spec False) reply_text m"
| "run_op env (Op_execFreeGroup g spec) m = on_world True (ga_FreeGroup g (cf_ID spec)) reply_err m"

section \<open>Calls of clients\<close>

text \<open>
  A call checks leadership, queues its operation and waits for it. This is the call as it runs when no other
  operation is queued; \<open>mgr_step\<close> below has all interleavings.
\<close>

type_synonym ('a, 'p, 's, 'w) call_result = "(string option \<times> ('a, 'p) reply \<times> ('a, 'p, 's, 'w) manager) outcome"

definition mgr_queue :: "('a, 'p, 's, 'w) mgr_env \<Rightarrow> ('a, 'p, 'w) backendOp \<Rightarrow> ('a, 'p, 's, 'w) manager \<Rightarrow> ('a, 'p, 's, 'w) call_result" where
  "mgr_queue env op m = andthen (run_op env op m) (\<lambda>(_, err, reply, m). Ret (err, reply, m))"

definition mgr_call :: "('a, 'p, 's, 'w) mgr_env \<Rightarrow> ('a, 'p, 'w) backendOp \<Rightarrow> ('a, 'p, 's, 'w) manager \<Rightarrow> ('a, 'p, 's, 'w) call_result" where
  "mgr_call env op m = (if \<not> mn_isLeader m then Ret (Some errNotLeader, Rp_None, m) else mgr_queue env op m)"

definition mgr_CommitGroup :: "('a, 'p, 's, 'w) mgr_env \<Rightarrow> 'a GroupConfig \<Rightarrow> bool \<Rightarrow> ('a, 'p, 's, 'w) manager \<Rightarrow> ('a, 'p, 's, 'w) call_result" where
  "mgr_CommitGroup env grp pretend = mgr_call env (Op_CommitGroup grp pretend)"

definition mgr_DescribeGroup :: "('a, 'p, 's, 'w) mgr_env \<Rightarrow> string \<Rightarrow> ('a, 'p, 's, 'w) manager \<Rightarrow> ('a, 'p, 's, 'w) call_result" where
  "mgr_DescribeGroup env gid = mgr_call env (Op_DescribeGroup gid)"

definition mgr_DestroyGroup :: "('a, 'p, 's, 'w) mgr_env \<Rightarrow> string \<Rightarrow> ('a, 'p, 's, 'w) manager \<Rightarrow> ('a, 'p, 's, 'w) call_result" where
  "mgr_DestroyGroup env gid = mgr_call env (Op_DestroyGroup gid)"

definition mgr_FreeGroup :: "('a, 'p, 's, 'w) mgr_env \<Rightarrow> string \<Rightarrow> ('a, 'p, 's, 'w) manager \<Rightarrow> ('a, 'p, 's, 'w) call_result" where
  "mgr_FreeGroup env gid = mgr_call env (Op_FreeGroup gid)"

definition mgr_DestroyInstances :: "('a, 'p, 's, 'w) mgr_env \<Rightarrow> string \<Rightarrow> InstanceID list \<Rightarrow> ('a, 'p, 's, 'w) manager \<Rightarrow> ('a, 'p, 's, 'w) call_result" where
  "mgr_DestroyInstances env gid ids = mgr_call env (Op_DestroyInstances gid ids)"

text \<open>The size is converted to \<open>uint\<close>, of 64 bits.\<close>

definition mgr_SetSize :: "('a, 'p, 's, 'w) mgr_env \<Rightarrow> string \<Rightarrow> int \<Rightarrow> ('a, 'p, 's, 'w) manager \<Rightarrow> (string option \<times> ('a, 'p, 's, 'w) manager) outcome" where
  "mgr_SetSize env gid sz m = (if \<not> mn_isLeader m then Ret (Some errNotLeader, m)
     else andthen (loadGroupSpec env gid m) (\<lambda>r. case r of
       Inl err \<Rightarrow> Ret (Some err, m)
     | Inr spec \<Rightarrow> (case me_ParseProperties env spec of
         Inl err \<Rightarrow> Ret (Some err, m)
       | Inr parsed \<Rightarrow>
           if 0 < length (al_LogicalIDs (gs_Allocation parsed)) then Ret (Some ''cannot set size when logical ids are explicitly set'', m)
           else (case me_encode env (parsed\<lparr>gs_Allocation := (gs_Allocation parsed)\<lparr>al_Size := nat (sz mod 2 ^ 64)\<rparr>\<rparr>) of
             Inl _ \<Rightarrow> Panics
           | Inr a \<Rightarrow> andthen (mgr_CommitGroup env (spec\<lparr>cf_Properties := Some a\<rparr>) False m) (\<lambda>(err, _, m). Ret (err, m))))))"

definition mgr_Size :: "('a, 'p, 's, 'w) mgr_env \<Rightarrow> string \<Rightarrow> ('a, 'p, 's, 'w) manager \<Rightarrow> (string + int) outcome" where
  "mgr_Size env gid m = (if \<not> mn_isLeader m then Ret (Inl errNotLeader)
     else andthen (loadGroupSpec env gid m) (\<lambda>r. case r of
       Inl err \<Rightarrow> Ret (Inl err)
     | Inr spec \<Rightarrow> (case me_ParseProperties env spec of
         Inl err \<Rightarrow> Ret (Inl err)
       | Inr parsed \<Rightarrow> Ret (Inr (if 0 < length (al_LogicalIDs (gs_Allocation parsed)) then int (length (al_LogicalIDs (gs_Allocation parsed)))
             else wrap64 (int (al_Size (gs_Allocation parsed))))))))"

text \<open>The adapter of a controller. Its \<open>Commit\<close> stores the spec before it queues.\<close>

definition adapter_Plan :: "('a, 'p, 's, 'w) mgr_env \<Rightarrow> ('a, 'w) controller_api \<Rightarrow> COperation \<Rightarrow> 'a TSpec \<Rightarrow> ('a, 'p, 's, 'w) manager \<Rightarrow> ('a, 'p, 's, 'w) call_result" where
  "adapter_Plan env backend op spec = mgr_call env (Op_Plan backend op spec)"

definition adapter_Commit :: "('a, 'p, 's, 'w) mgr_env \<Rightarrow> Name \<Rightarrow> ('a, 'w) controller_api \<Rightarrow> COperation \<Rightarrow> 'a TSpec \<Rightarrow> ('a, 'p, 's, 'w) manager \<Rightarrow> ('a, 'p, 's, 'w) call_result" where
  "adapter_Commit env name backend op spec m = (if \<not> mn_isLeader m then Ret (Some errNotLeader, Rp_None, m)
     else andthen (case op of C_Enforce \<Rightarrow> mgr_updateSpec env spec name m | C_Destroy \<Rightarrow> mgr_removeSpec env spec m | C_Other _ \<Rightarrow> Ret (None, m))
       (\<lambda>(err, m). case err of Some e \<Rightarrow> Ret (Some e, Rp_None, m) | None \<Rightarrow> mgr_queue env (Op_Commit backend op spec) m))"

definition adapter_Describe :: "('a, 'p, 's, 'w) mgr_env \<Rightarrow> ('a, 'w) controller_api \<Rightarrow> Metadata option \<Rightarrow> ('a, 'p, 's, 'w) manager \<Rightarrow> ('a, 'p, 's, 'w) call_result" where
  "adapter_Describe env backend search = mgr_call env (Op_Describe backend search)"

definition adapter_Free :: "('a, 'p, 's, 'w) mgr_env \<Rightarrow> ('a, 'w) controller_api \<Rightarrow> Metadata option \<Rightarrow> ('a, 'p, 's, 'w) manager \<Rightarrow> ('a, 'p, 's, 'w) call_result" where
  "adapter_Free env backend search = mgr_call env (Op_Free backend search)"

section \<open>Leadership\<close>

datatype Status = NotLeader | Leader | Unknown

text \<open>The channel of operations has room for 100. A send from the goroutine that empties it blocks for ever when it is full.\<close>

definition backendCap :: nat where "backendCap = 100"

definition send_op :: "('a, 'p, 'w) backendOp \<Rightarrow> ('a, 'p, 's, 'w) manager \<Rightarrow> ('a, 'p, 's, 'w) manager outcome" where
  "send_op op m = (if length (mn_queue m) < backendCap then Ret (m\<lparr>mn_queue := mn_queue m @ [op]\<rparr>) else Blocks)"

fun send_ops :: "('a, 'p, 'w) backendOp list \<Rightarrow> ('a, 'p, 's, 'w) manager \<Rightarrow> ('a, 'p, 's, 'w) manager outcome" where
  "send_ops [] m = Ret m"
| "send_ops (op # ops) m = andthen (send_op op m) (send_ops ops)"

text \<open>
  The operation for a record, if there is one: a plugin that cannot be contacted, a group without
  properties and any other kind are skipped. The \<open>err\<close> that the first two assign is declared in the
  branch, so the visit goes on and reports no error.
\<close>

definition plugin_op :: "('a, 'p, 's, 'w) mgr_env \<Rightarrow> (('a, 'w) controller_api \<Rightarrow> 'a TSpec \<Rightarrow> ('a, 'p, 'w) backendOp) \<Rightarrow>
    (('a, 'p, 'w) group_api \<Rightarrow> 'a GroupConfig \<Rightarrow> ('a, 'p, 'w) backendOp) \<Rightarrow> mkey \<Rightarrow> 'a MRecord \<Rightarrow> ('a, 'p, 'w) backendOp option" where
  "plugin_op env controllerWork groupWork k r =
     (if mk_Kind k \<in> {''ingress'', ''enrollment'', ''gc'', ''resource'', ''inventory'', ''pool''} then
        (case me_Controller env (mr_Handler r) of Inl _ \<Rightarrow> None | Inr cp \<Rightarrow> Some (controllerWork cp (mr_Spec r)))
      else if mk_Kind k = ''group'' then
        (case me_Group env (mr_Handler r) of Inl _ \<Rightarrow> None | Inr gp \<Rightarrow>
          (case ts_Properties (mr_Spec r) of None \<Rightarrow> None
           | Some props \<Rightarrow> Some (groupWork gp \<lparr>cf_ID = mk_Name k, cf_Properties = Some props\<rparr>)))
      else None)"

definition execPlugins :: "('a, 'p, 's, 'w) mgr_env \<Rightarrow> 'a globalSpec \<Rightarrow> (('a, 'w) controller_api \<Rightarrow> 'a TSpec \<Rightarrow> ('a, 'p, 'w) backendOp) \<Rightarrow>
    (('a, 'p, 'w) group_api \<Rightarrow> 'a GroupConfig \<Rightarrow> ('a, 'p, 'w) backendOp) \<Rightarrow> bool \<Rightarrow> ('a, 'p, 's, 'w) manager \<Rightarrow> ('a, 'p, 's, 'w) manager outcome" where
  "execPlugins env config controllerWork groupWork groupRequeue m =
     (case gl_visit (me_keyOrder env) (\<lambda>(m, deferred) k r. case plugin_op env controllerWork groupWork k r of
         None \<Rightarrow> Inr (m, deferred)
       | Some op \<Rightarrow> (case send_op op m of
           Ret m \<Rightarrow> Inr (m, if groupRequeue \<and> mk_Kind k = ''group'' then deferred @ [op] else deferred)
         | _ \<Rightarrow> Inl ())) config (m, []) of
        Inl _ \<Rightarrow> Blocks
      | Inr (m, deferred) \<Rightarrow> send_ops deferred m)"

definition doCommitAll :: "('a, 'p, 's, 'w) mgr_env \<Rightarrow> 'a globalSpec \<Rightarrow> ('a, 'p, 's, 'w) manager \<Rightarrow> ('a, 'p, 's, 'w) manager outcome" where
  "doCommitAll env config = execPlugins env config Op_execCommit Op_execCommitGroup True"

definition doFreeAll :: "('a, 'p, 's, 'w) mgr_env \<Rightarrow> 'a globalSpec \<Rightarrow> ('a, 'p, 's, 'w) manager \<Rightarrow> ('a, 'p, 's, 'w) manager outcome" where
  "doFreeAll env config = execPlugins env config Op_execFree Op_execFreeGroup False"

definition loadAndCommitSpecs :: "('a, 'p, 's, 'w) mgr_env \<Rightarrow> ('a, 'p, 's, 'w) manager \<Rightarrow> (string option \<times> ('a, 'p, 's, 'w) manager) outcome" where
  "loadAndCommitSpecs env m = (case me_snapshot env of
     None \<Rightarrow> Ret (None, m)
   | Some sn \<Rightarrow> (case gl_load sn (mn_specs m) of
       Inl err \<Rightarrow> Ret (Some err, m)
     | Inr config \<Rightarrow> andthen (doCommitAll env config m) (\<lambda>m. Ret (None, m))))"

text \<open>The loop of retries, with the number of attempts that are left. In between it waits.\<close>

fun retry_commit :: "('a, 'p, 's, 'w) mgr_env \<Rightarrow> nat \<Rightarrow> string option \<Rightarrow> ('a, 'p, 's, 'w) manager \<Rightarrow> (string option \<times> ('a, 'p, 's, 'w) manager) outcome" where
  "retry_commit env 0 err m = Ret (err, m)"
| "retry_commit env (Suc n) err m = andthen (loadAndCommitSpecs env m) (\<lambda>(err, m). if err = None then Ret (None, m) else retry_commit env n err m)"

definition onAssumeLeadership :: "('a, 'p, 's, 'w) mgr_env \<Rightarrow> ('a, 'p, 's, 'w) manager \<Rightarrow> (string option \<times> ('a, 'p, 's, 'w) manager) outcome" where
  "onAssumeLeadership env m = andthen (loadAndCommitSpecs env (m\<lparr>mn_world := me_loadMetadata env (mn_world m)\<rparr>)) (\<lambda>(err, m).
     if err \<noteq> None \<and> me_retries env > 0 then retry_commit env (nat (me_retries env - 1)) err m else Ret (err, m))"

definition getCurrentState :: "('a, 'p, 's, 'w) mgr_env \<Rightarrow> 'w \<Rightarrow> string + 'a globalSpec" where
  "getCurrentState env w = (case ga_InspectGroups (me_plugin env) w of
     (Some err, _) \<Rightarrow> Inl err
   | (None, specs) \<Rightarrow> Inr (fold (\<lambda>spec global. gl_updateGroupSpec spec (me_groupName env) global) specs new_global))"

definition onLostLeadership :: "('a, 'p, 's, 'w) mgr_env \<Rightarrow> ('a, 'p, 's, 'w) manager \<Rightarrow> (string option \<times> ('a, 'p, 's, 'w) manager) outcome" where
  "onLostLeadership env m = (case getCurrentState env (mn_world m) of
     Inl err \<Rightarrow> Ret (Some err, m)
   | Inr config \<Rightarrow> andthen (doFreeAll env config m) (\<lambda>m. Ret (None, m)))"

text \<open>An event about leadership: an unknown status counts as not being the leader. Only a change is passed on.\<close>

definition leader_event :: "Status \<Rightarrow> ('a, 'p, 's, 'w) manager \<Rightarrow> ('a, 'p, 's, 'w) manager" where
  "leader_event status m = (let next = (if status = Unknown then False else status = Leader) in
     m\<lparr>mn_isLeader := next, mn_notify := (if mn_isLeader m \<noteq> next then Some next else mn_notify m)\<rparr>)"

section \<open>Interleavings\<close>

text \<open>
  \<open>Ev_Call\<close>: a client that found the manager to be the leader queues an operation, if there is room.
  \<open>Ev_Work\<close>: the next operation is run. \<open>Ev_Leader\<close>: a status is received. \<open>Ev_Notify\<close>: a change of leadership
  is handled. \<open>Ev_Stop\<close>: the stop is handled, which closes two channels; the goroutine of the queue may see
  either of them first, \<open>Ev_Stopped\<close> or \<open>Ev_Closed\<close>. An event that is not enabled changes nothing.
\<close>

datatype ('a, 'p, 'w) mgr_event = Ev_Call "('a, 'p, 'w) backendOp" | Ev_Work | Ev_Leader Status | Ev_Notify | Ev_Stop | Ev_Stopped | Ev_Closed

definition work_step :: "('a, 'p, 's, 'w) mgr_env \<Rightarrow> ('a, 'p, 's, 'w) manager \<Rightarrow> ('a, 'p, 's, 'w) manager outcome" where
  "work_step env m = (case mn_queue m of
     [] \<Rightarrow> Ret m
   | op # ops \<Rightarrow> andthen (run_op env op (m\<lparr>mn_queue := ops\<rparr>)) (\<lambda>(retry, err, _, m). if err \<noteq> None \<and> retry then send_op op m else Ret m))"

definition notify_step :: "('a, 'p, 's, 'w) mgr_env \<Rightarrow> ('a, 'p, 's, 'w) manager \<Rightarrow> ('a, 'p, 's, 'w) manager outcome" where
  "notify_step env m = (case mn_notify m of
     None \<Rightarrow> Ret m
   | Some leader \<Rightarrow> (let m = m\<lparr>mn_notify := None\<rparr> in
       andthen (if leader then onAssumeLeadership env m else onLostLeadership env m) (\<lambda>(_, m). Ret m)))"

fun mgr_step :: "('a, 'p, 's, 'w) mgr_env \<Rightarrow> ('a, 'p, 'w) mgr_event \<Rightarrow> ('a, 'p, 's, 'w) manager \<Rightarrow> ('a, 'p, 's, 'w) manager outcome" where
  "mgr_step env (Ev_Call op) m = Ret (if mn_isLeader m \<and> length (mn_queue m) < backendCap then m\<lparr>mn_queue := mn_queue m @ [op]\<rparr> else m)"
| "mgr_step env Ev_Work m = (if mn_alive m then work_step env m else Ret m)"
| "mgr_step env (Ev_Leader status) m = Ret (if mn_stopping m \<or> mn_notify m \<noteq> None then m else leader_event status m)"
| "mgr_step env Ev_Notify m = (if mn_alive m then notify_step env m else Ret m)"
| "mgr_step env Ev_Stop m = Ret (if mn_notify m = None then m\<lparr>mn_stopping := True\<rparr> else m)"
| "mgr_step env Ev_Stopped m = Ret (if mn_alive m \<and> mn_stopping m then m\<lparr>mn_alive := False, mn_done := True\<rparr> else m)"
| "mgr_step env Ev_Closed m = Ret (if mn_alive m \<and> mn_stopping m then m\<lparr>mn_alive := False\<rparr> else m)"

fun mgr_run :: "('a, 'p, 's, 'w) mgr_env \<Rightarrow> ('a, 'p, 'w) mgr_event list \<Rightarrow> ('a, 'p, 's, 'w) manager \<Rightarrow> ('a, 'p, 's, 'w) manager outcome" where
  "mgr_run env [] m = Ret m"
| "mgr_run env (ev # evs) m = andthen (mgr_step env ev m) (mgr_run env evs)"

lemma mgr_run_append: "mgr_run env (xs @ ys) m = andthen (mgr_run env xs m) (mgr_run env ys)"
proof (induction xs arbitrary: m)
  case (Cons ev xs)
  then show ?case by (cases "mgr_step env ev m") simp_all
qed simp

end
