(* ===== verification/Manager_Takeover.thy ===== *)
theory Manager_Takeover
  imports Manager
begin

text \<open>
  What the manager does with its store and its queue, over the contract of a store of specs, and the group
  controller as its group plugin.
\<close>

section \<open>The queue\<close>

lemma send_ops_eq: "length (mn_queue m) \<le> backendCap \<Longrightarrow> send_ops ops m =
    (if length (mn_queue m) + length ops \<le> backendCap then Ret (m\<lparr>mn_queue := mn_queue m @ ops\<rparr>) else Blocks)"
  by (induction ops arbitrary: m) (auto simp: send_op_def)

text \<open>The operations that a visit queues, and those of groups among them, which are queued again.\<close>

definition exec_ops :: "(mkey \<Rightarrow> ('a, 'p, 'w) backendOp option) \<Rightarrow> mkey list \<Rightarrow> ('a, 'p, 'w) backendOp list" where
  "exec_ops f ks = List.map_filter f ks"

definition exec_again :: "bool \<Rightarrow> (mkey \<Rightarrow> ('a, 'p, 'w) backendOp option) \<Rightarrow> mkey list \<Rightarrow> ('a, 'p, 'w) backendOp list" where
  "exec_again requeue f ks = (if requeue then List.map_filter f (filter (\<lambda>k. mk_Kind k = ''group'') ks) else [])"

lemma visit_sends:
  assumes "length (mn_queue m) \<le> backendCap"
  shows "forM (\<lambda>(m, deferred) k. case f k of None \<Rightarrow> Inr (m, deferred)
      | Some op \<Rightarrow> (case send_op op m of Ret m \<Rightarrow> Inr (m, if requeue \<and> mk_Kind k = ''group'' then deferred @ [op] else deferred) | _ \<Rightarrow> Inl ())) (m, deferred) ks =
    (if length (mn_queue m) + length (exec_ops f ks) \<le> backendCap
     then Inr (m\<lparr>mn_queue := mn_queue m @ exec_ops f ks\<rparr>, deferred @ exec_again requeue f ks) else Inl ())"
  using assms by (induction ks arbitrary: m deferred) (auto simp: send_op_def exec_ops_def exec_again_def List.map_filter_simps split: option.splits)

lemma execPlugins_eq:
  fixes env :: "('a, 'p, 's, 'w) mgr_env" and config :: "'a globalSpec" and m :: "('a, 'p, 's, 'w) manager"
    and cw :: "('a, 'w) controller_api \<Rightarrow> 'a TSpec \<Rightarrow> ('a, 'p, 'w) backendOp" and gw :: "('a, 'p, 'w) group_api \<Rightarrow> 'a GroupConfig \<Rightarrow> ('a, 'p, 'w) backendOp"
  assumes "length (mn_queue m) \<le> backendCap"
  defines "f \<equiv> \<lambda>k. plugin_op env cw gw k (gm_get0 zero_record (gl_index config) k)" and "ks \<equiv> orderedKeys (me_keyOrder env) config"
  shows "execPlugins env config cw gw requeue m =
    (if length (mn_queue m) + length (exec_ops f ks) + length (exec_again requeue f ks) \<le> backendCap
     then Ret (m\<lparr>mn_queue := mn_queue m @ exec_ops f ks @ exec_again requeue f ks\<rparr>) else Blocks)"
proof -
  have "gl_visit (me_keyOrder env) (\<lambda>(m, deferred) k r. case plugin_op env cw gw k r of None \<Rightarrow> Inr (m, deferred)
       | Some op \<Rightarrow> (case send_op op m of Ret m \<Rightarrow> Inr (m, if requeue \<and> mk_Kind k = ''group'' then deferred @ [op] else deferred) | _ \<Rightarrow> Inl ())) config (m, []) =
     (if length (mn_queue m) + length (exec_ops f ks) \<le> backendCap then Inr (m\<lparr>mn_queue := mn_queue m @ exec_ops f ks\<rparr>, [] @ exec_again requeue f ks) else Inl ())"
    unfolding gl_visit_def visit_sends [OF assms(1), where f = f and ks = ks and requeue = requeue, symmetric] by (simp add: f_def ks_def case_prod_unfold cong: if_cong)
  then show ?thesis by (simp add: execPlugins_def send_ops_eq)
qed

section \<open>The store\<close>

context spec_store
begin

lemma with_store_ok:
  assumes "me_snapshot env = Some sn" "ok (mn_specs m)" "\<And>g. same_specs g (held (val (mn_specs m))) \<Longrightarrow> same_specs (f g) M"
  shows "\<exists>s'. with_store env f m = Ret (None, m\<lparr>mn_specs := s'\<rparr>) \<and> ok s' \<and> held (val s') = M"
proof -
  obtain g where g: "gl_load sn (mn_specs m) = Inr g" "same_specs g (held (val (mn_specs m)))" using load_held [OF assms(2)] by blast
  obtain s' where "gl_store (me_dataOrder env) sn (f g) (mn_specs m) = (None, s')" "ok s'" "held (val s') = M"
    using store_held [OF assms(2) assms(3) [OF g(2)]] by blast
  then show ?thesis using g(1) assms(1) by (auto simp: with_store_def)
qed

lemma updateConfig_ok:
  assumes "me_snapshot env = Some sn" "ok (mn_specs m)" "held (val (mn_specs m)) = M" "keyFromGroupID (cf_ID spec) = k"
  shows "\<exists>s'. updateConfig env spec m = Ret (None, m\<lparr>mn_specs := s'\<rparr>) \<and> ok s' \<and> held (val s') = M(k \<mapsto> group_record spec (me_groupName env) (M k))"
  unfolding updateConfig_def assms(3,4) [symmetric] by (rule with_store_ok [OF assms(1,2)]) (rule same_specs_update)

lemma loadGroupSpec_ok:
  assumes "me_snapshot env = Some sn" "ok (mn_specs m)"
  shows "loadGroupSpec env gid m = Ret (case held (val (mn_specs m)) (keyFromGroupID gid) of None \<Rightarrow> Inl (''not found '' @ gid)
    | Some r \<Rightarrow> Inr \<lparr>cf_ID = gid, cf_Properties = ts_Properties (mr_Spec r)\<rparr>)"
proof -
  obtain g where "gl_load sn (mn_specs m) = Inr g" "same_specs g (held (val (mn_specs m)))" using load_held [OF assms(2)] by blast
  then show ?thesis using assms(1) getGroupSpec_same by (simp add: loadGroupSpec_def)
qed

end

section \<open>The group controller behind the manager\<close>

text \<open>The world: the controller, what its plugins act on, and the goroutines it has started and stopped.\<close>

type_synonym ('a, 'p, 'x) group_world = "('a, 'p, 'x) gController \<times> 'x \<times> ('p, 'x) go_effect list"

definition group_backend :: "('a, 'p, ('a, 'p, 'x) group_world) group_api" where
  "group_backend = \<lparr>
     ga_CommitGroup = \<lambda>grp pretend (p, x, eff). andthen (CommitGroup grp pretend p x) (\<lambda>(r, p, x, e). Ret (r, p, x, eff @ e)),
     ga_FreeGroup = \<lambda>gid (p, x, eff). (case FreeGroup gid p of (err, p, e) \<Rightarrow> Ret (err, p, x, eff @ e)),
     ga_DescribeGroup = \<lambda>gid (p, x, eff). (case DescribeGroup gid p x of (r, x) \<Rightarrow> Ret (r, p, x, eff)),
     ga_DestroyGroup = \<lambda>gid (p, x, eff). (case DestroyGroup gid p x of (err, p, x, e) \<Rightarrow> Ret (err, p, x, eff @ e)),
     ga_InspectGroups = \<lambda>(p, x, eff). InspectGroups p,
     ga_DestroyInstances = \<lambda>gid ids (p, x, eff). andthen (DestroyInstances gid ids p x) (\<lambda>(err, p, x, e). Ret (err, p, x, eff @ e))\<rparr>"

lemma group_backend_calls [simp]:
  "ga_CommitGroup group_backend grp pretend (p, x, eff) = andthen (CommitGroup grp pretend p x) (\<lambda>(r, p, x, e). Ret (r, p, x, eff @ e))"
  "ga_FreeGroup group_backend gid (p, x, eff) = (case FreeGroup gid p of (err, p, e) \<Rightarrow> Ret (err, p, x, eff @ e))"
  "ga_InspectGroups group_backend (p, x, eff) = InspectGroups p"
  by (simp_all add: group_backend_def)

abbreviation watched_groups :: "('a, 'p, 's, ('a, 'p, 'x) group_world) manager \<Rightarrow> (string, ('p, 'x) groupContext) gomap" where
  "watched_groups m \<equiv> ct_groups (fst (mn_world m))"

text \<open>
  The environment of a manager over one group controller: its store is \<open>sn\<close>, every name of a group plugin leads to
  the controller, no metadata is kept, and its codecs are those of the controller.
\<close>

definition group_manager :: "('a mentry list, 's) snapshot \<Rightarrow> ('a, 'p, 'x) gController \<Rightarrow> ('a, 'p, 's, ('a, 'p, 'x) group_world) mgr_env \<Rightarrow> bool" where
  "group_manager sn p env \<longleftrightarrow> me_snapshot env = Some sn \<and> me_plugin env = group_backend \<and> me_Group env = (\<lambda>_. Inr group_backend) \<and>
     me_ParseProperties env = ParseProperties p \<and> me_encode env = ct_encode p \<and> me_loadMetadata env = (\<lambda>w. w)"

text \<open>The spec of a group that is stored, and the configuration it stands for.\<close>

definition stored_group :: "(mkey \<Rightarrow> 'a MRecord option) \<Rightarrow> string \<Rightarrow> 'a GroupConfig option" where
  "stored_group M gid = map_option (\<lambda>r. \<lparr>cf_ID = gid, cf_Properties = ts_Properties (mr_Spec r)\<rparr>) (M (keyFromGroupID gid))"

section \<open>Committing groups\<close>

text \<open>A configuration that the controller accepts, whatever the plugins act on.\<close>

definition accepted :: "('a, 'p, 'x) gController \<Rightarrow> 'a GroupConfig \<Rightarrow> bool" where
  "accepted p cfg \<longleftrightarrow> (\<forall>x. \<not> isl (gvalidate p cfg x))"

text \<open>The group is watched with that configuration.\<close>

definition manages :: "('a, 'p, 'x) gController \<Rightarrow> 'a GroupConfig \<Rightarrow> bool" where
  "manages p cfg \<longleftrightarrow> (\<exists>ctx. gm_get (ct_groups p) (cf_ID cfg) = Some ctx \<and> ParseProperties p cfg = Inr (gset_config (gc_settings ctx)))"

lemma ParseProperties_groups [simp]: "ParseProperties (with_groups G p) = ParseProperties p"
  unfolding fun_eq_iff ParseProperties_def ct_with_groups by simp

lemma gvalidate_groups [simp]: "gvalidate (with_groups G p) = gvalidate p"
  unfolding fun_eq_iff gvalidate_def ParseProperties_groups ct_with_groups by simp

lemma accepted_groups [simp]: "accepted (with_groups G p) = accepted p"
  by (simp add: accepted_def fun_eq_iff)

lemma with_groups_twice [simp]: "with_groups G (with_groups H p) = with_groups G p"
  by (simp add: with_groups_def)

lemma commit_first:
  assumes "accepted p cfg" "gm_get (ct_groups p) (cf_ID cfg) = None"
  shows "\<exists>reply ctx e. CommitGroup cfg False p x = Ret ((reply, None), with_groups (gm_put (cf_ID cfg) ctx (ct_groups p)) p, x, e) \<and>
    ParseProperties p cfg = Inr (gset_config (gc_settings ctx))"
proof -
  obtain settings where v: "gvalidate p cfg x = Inr settings" using assms(1) unfolding accepted_def by (metis sum.collapse(2))
  note s = gvalidate_ok [OF v]
  show ?thesis
    using s assms(2) by (auto simp: CommitGroup_def v Let_def commit_new_def new_supervisor_def groups_put_def gm_has_def)
qed

abbreviation commit_op :: "'a GroupConfig \<Rightarrow> ('a, 'p, ('a, 'p, 'x) group_world) backendOp" where
  "commit_op \<equiv> Op_execCommitGroup group_backend"

lemma work_commit:
  assumes "mn_queue m = commit_op cfg # ops" "mn_alive m" "mn_world m = (p, x, eff)" "accepted p cfg" "gm_get (ct_groups p) (cf_ID cfg) = None"
  shows "\<exists>ctx e. mgr_step env Ev_Work m = Ret (m\<lparr>mn_queue := ops, mn_world := (with_groups (gm_put (cf_ID cfg) ctx (ct_groups p)) p, x, eff @ e)\<rparr>) \<and>
    ParseProperties p cfg = Inr (gset_config (gc_settings ctx))"
proof -
  obtain reply ctx e where c: "CommitGroup cfg False p x = Ret ((reply, None), with_groups (gm_put (cf_ID cfg) ctx (ct_groups p)) p, x, e)"
    "ParseProperties p cfg = Inr (gset_config (gc_settings ctx))" using commit_first [OF assms(4,5), of x] by blast
  have "mgr_step env Ev_Work m = Ret (m\<lparr>mn_queue := ops, mn_world := (with_groups (gm_put (cf_ID cfg) ctx (ct_groups p)) p, x, eff @ e)\<rparr>)"
    using assms(1-3) c(1) by (simp add: work_step_def on_world_def reply_text_def)
  then show ?thesis using c(2) by blast
qed

lemma drain_commits:
  "mn_queue m = map commit_op cfgs @ rest \<Longrightarrow> mn_alive m \<Longrightarrow> mn_world m = (p, x, eff) \<Longrightarrow> distinct (map cf_ID cfgs) \<Longrightarrow>
     \<forall>cfg \<in> set cfgs. accepted p cfg \<and> gm_get (ct_groups p) (cf_ID cfg) = None \<Longrightarrow>
   \<exists>G eff'. mgr_run env (replicate (length cfgs) Ev_Work) m = Ret (m\<lparr>mn_queue := rest, mn_world := (with_groups G p, x, eff')\<rparr>) \<and>
     (\<forall>cfg \<in> set cfgs. manages (with_groups G p) cfg) \<and> (\<forall>gid. gid \<notin> cf_ID ` set cfgs \<longrightarrow> gm_get G gid = gm_get (ct_groups p) gid)"
proof (induction cfgs arbitrary: m p eff)
  case Nil
  then show ?case by (intro exI [of _ "ct_groups p"] exI [of _ eff]) simp
next
  case (Cons cfg cfgs)
  obtain ctx e where step: "mgr_step env Ev_Work m = Ret (m\<lparr>mn_queue := map commit_op cfgs @ rest, mn_world := (with_groups (gm_put (cf_ID cfg) ctx (ct_groups p)) p, x, eff @ e)\<rparr>)"
    "ParseProperties p cfg = Inr (gset_config (gc_settings ctx))" using work_commit [of m cfg "map commit_op cfgs @ rest" p x eff env] Cons.prems by auto
  let ?p = "with_groups (gm_put (cf_ID cfg) ctx (ct_groups p)) p"
  let ?m = "m\<lparr>mn_queue := map commit_op cfgs @ rest, mn_world := (?p, x, eff @ e)\<rparr>"
  have "\<forall>c \<in> set cfgs. accepted ?p c \<and> gm_get (ct_groups ?p) (cf_ID c) = None" using Cons.prems(4,5) by (auto simp: image_iff)
  then obtain G eff' where run: "mgr_run env (replicate (length cfgs) Ev_Work) ?m = Ret (m\<lparr>mn_queue := rest, mn_world := (with_groups G p, x, eff')\<rparr>)"
    "\<forall>c \<in> set cfgs. manages (with_groups G p) c" "\<forall>gid. gid \<notin> cf_ID ` set cfgs \<longrightarrow> gm_get G gid = gm_get (ct_groups ?p) gid"
    using Cons.IH [of ?m ?p "eff @ e"] Cons.prems by (auto simp: with_groups_twice)
  have "gm_get G (cf_ID cfg) = Some ctx" using run(3) Cons.prems(4) by auto
  then have "manages (with_groups G p) cfg" using step(2) by (simp add: manages_def)
  then show ?case using run step(1) by (intro exI [of _ G] exI [of _ eff']) auto
qed

section \<open>Winning leadership\<close>

text \<open>Only groups are stored, each with properties.\<close>

definition groups_only :: "(mkey \<Rightarrow> 'a MRecord option) \<Rightarrow> bool" where
  "groups_only M \<longleftrightarrow> (\<forall>k r. M k = Some r \<longrightarrow> mk_Kind k = ''group'' \<and> ts_Properties (mr_Spec r) \<noteq> None)"

definition cfg_of :: "(mkey \<Rightarrow> 'a MRecord option) \<Rightarrow> mkey \<Rightarrow> 'a GroupConfig" where
  "cfg_of M k = \<lparr>cf_ID = mk_Name k, cf_Properties = ts_Properties (mr_Spec (the (M k)))\<rparr>"

text \<open>A manager that is not the leader, with nothing to do.\<close>

definition standby :: "('a, 'p, 's, 'w) manager \<Rightarrow> bool" where
  "standby m \<longleftrightarrow> \<not> mn_isLeader m \<and> mn_queue m = [] \<and> mn_notify m = None \<and> \<not> mn_stopping m \<and> mn_alive m"

lemma map_filter_all: "\<forall>x \<in> set xs. f x = Some (g x) \<Longrightarrow> List.map_filter f xs = map g xs"
  by (induction xs) (auto simp: List.map_filter_simps)

lemma plugin_op_group:
  assumes "group_manager sn p env" "same_specs g M" "groups_only M" "k \<in> dom M"
  shows "plugin_op env cw gw k (gm_get0 zero_record (gl_index g) k) = Some (gw group_backend (cfg_of M k))" "mk_Kind k = ''group''"
proof -
  obtain r where r: "M k = Some r" using assms(4) by (cases "M k") auto
  have gr: "mk_Kind k = ''group'' \<and> ts_Properties (mr_Spec r) \<noteq> None" using assms(3) r unfolding groups_only_def by simp
  then obtain a where a: "ts_Properties (mr_Spec r) = Some a" by (cases "ts_Properties (mr_Spec r)") simp_all
  have i: "gm_get0 zero_record (gl_index g) k = r" using r assms(2) by (simp add: gm_get0_def same_specs_def)
  have e: "me_Group env h = Inr group_backend" for h using assms(1) by (simp add: group_manager_def)
  show "mk_Kind k = ''group''" using gr by simp
  then show "plugin_op env cw gw k (gm_get0 zero_record (gl_index g) k) = Some (gw group_backend (cfg_of M k))"
    unfolding i plugin_op_def cfg_of_def e by (simp add: a r)
qed

lemma ordered_dom: "same_specs g M \<Longrightarrow> distinct (orderedKeys order g) \<and> set (orderedKeys order g) = dom M"
  using orderedKeys_distinct [of g order] orderedKeys_set [of order g] by (simp add: same_specs_def)

context spec_store
begin

lemma takeover_queue:
  assumes env: "group_manager sn p env" and m: "ok (mn_specs m)" "mn_queue m = []" and M: "held (val (mn_specs m)) = M" "groups_only M"
  shows "\<exists>ks. distinct ks \<and> set ks = dom M \<and> loadAndCommitSpecs env m = (if 2 * length ks \<le> backendCap
    then Ret (None, m\<lparr>mn_queue := map (commit_op \<circ> cfg_of M) ks @ map (commit_op \<circ> cfg_of M) ks\<rparr>) else Blocks)"
proof -
  obtain g where g: "gl_load sn (mn_specs m) = Inr g" "same_specs g M" using load_held [OF m(1)] M(1) by blast
  let ?ks = "orderedKeys (me_keyOrder env) g"
  have ks: "distinct ?ks" "set ?ks = dom M" using ordered_dom [OF g(2)] by simp_all
  let ?f = "\<lambda>k. plugin_op env Op_execCommit Op_execCommitGroup k (gm_get0 zero_record (gl_index g) k)"
  have f: "?f k = Some (commit_op (cfg_of M k))" "mk_Kind k = ''group''" if "k \<in> set ?ks" for k
    using plugin_op_group [OF env g(2) M(2), of k] that ks(2) by simp_all
  have q: "exec_ops ?f ?ks = map (commit_op \<circ> cfg_of M) ?ks"
    unfolding exec_ops_def by (rule map_filter_all) (use f(1) in simp)
  have "filter (\<lambda>k. mk_Kind k = ''group'') ?ks = ?ks" using f(2) by (simp add: filter_id_conv)
  then have "exec_again True ?f ?ks = map (commit_op \<circ> cfg_of M) ?ks" using q by (simp add: exec_again_def exec_ops_def)
  then have "doCommitAll env g m = (if 2 * length ?ks \<le> backendCap
      then Ret (m\<lparr>mn_queue := map (commit_op \<circ> cfg_of M) ?ks @ map (commit_op \<circ> cfg_of M) ?ks\<rparr>) else Blocks)"
    unfolding doCommitAll_def
    using execPlugins_eq [where m = m and env = env and cw = Op_execCommit and gw = Op_execCommitGroup and config = g and requeue = True] m(2) q by simp
  then have "loadAndCommitSpecs env m = (if 2 * length ?ks \<le> backendCap
      then Ret (None, m\<lparr>mn_queue := map (commit_op \<circ> cfg_of M) ?ks @ map (commit_op \<circ> cfg_of M) ?ks\<rparr>) else Blocks)"
    using env g(1) by (simp add: loadAndCommitSpecs_def group_manager_def)
  then show ?thesis using ks by blast
qed

text \<open>The events of a takeover: the status is received, and the change is handled.\<close>

lemma takeover_events:
  assumes env: "group_manager sn p env" and m: "standby m" "ok (mn_specs m)" and M: "held (val (mn_specs m)) = M" "groups_only M"
  shows "\<exists>ks. distinct ks \<and> set ks = dom M \<and> mgr_run env [Ev_Leader Leader, Ev_Notify] m = (if 2 * length ks \<le> backendCap
    then Ret (m\<lparr>mn_isLeader := True, mn_queue := map (commit_op \<circ> cfg_of M) ks @ map (commit_op \<circ> cfg_of M) ks\<rparr>) else Blocks)"
proof -
  let ?m = "m\<lparr>mn_isLeader := True, mn_notify := None\<rparr>"
  have s: "mn_queue m = []" "mn_notify m = None" "\<not> mn_stopping m" "mn_alive m" "\<not> mn_isLeader m" using m(1) by (simp_all add: standby_def)
  obtain ks where ks: "distinct ks" "set ks = dom M" "loadAndCommitSpecs env ?m = (if 2 * length ks \<le> backendCap
      then Ret (None, ?m\<lparr>mn_queue := map (commit_op \<circ> cfg_of M) ks @ map (commit_op \<circ> cfg_of M) ks\<rparr>) else Blocks)"
    using takeover_queue [OF env _ _ _ M(2), of ?m] m(2) M(1) s(1) by auto
  have e: "me_loadMetadata env = (\<lambda>w. w)" using env by (simp add: group_manager_def)
  have same: "?m\<lparr>mn_queue := q\<rparr> = m\<lparr>mn_isLeader := True, mn_queue := q\<rparr>" for q using s(2) by simp
  have "mgr_run env [Ev_Leader Leader, Ev_Notify] m = andthen (onAssumeLeadership env ?m) (\<lambda>(_, m). Ret m)"
    using s by (cases "onAssumeLeadership env ?m") (simp_all add: leader_event_def notify_step_def Let_def case_prod_unfold)
  also have "onAssumeLeadership env ?m = loadAndCommitSpecs env ?m"
    using ks(3) by (simp add: onAssumeLeadership_def e split: if_splits)
  finally show ?thesis using ks same by (intro exI [of _ ks]) simp
qed

end

context spec_store
begin

lemma takeover_watches:
  assumes env: "group_manager sn p env" and m: "standby m" "ok (mn_specs m)" "mn_world m = (p, x, eff)" "ct_groups p = []"
    and M: "held (val (mn_specs m)) = M" "groups_only M" "2 * card (dom M) \<le> backendCap" "\<forall>k \<in> dom M. accepted p (cfg_of M k)"
  shows "\<exists>m'. mgr_run env ([Ev_Leader Leader, Ev_Notify] @ replicate (card (dom M)) Ev_Work) m = Ret m' \<and> mn_isLeader m' \<and>
    (\<forall>k \<in> dom M. manages (fst (mn_world m')) (cfg_of M k)) \<and> dom (gm_get (watched_groups m')) = mk_Name ` dom M"
proof -
  obtain ks where ks: "distinct ks" "set ks = dom M" "mgr_run env [Ev_Leader Leader, Ev_Notify] m = (if 2 * length ks \<le> backendCap
    then Ret (m\<lparr>mn_isLeader := True, mn_queue := map (commit_op \<circ> cfg_of M) ks @ map (commit_op \<circ> cfg_of M) ks\<rparr>) else Blocks)"
    using takeover_events [OF env m(1,2) M(1,2)] by blast
  have len: "length ks = card (dom M)" using distinct_card [OF ks(1)] ks(2) by simp
  let ?m = "m\<lparr>mn_isLeader := True, mn_queue := map (commit_op \<circ> cfg_of M) ks @ map (commit_op \<circ> cfg_of M) ks\<rparr>"
  let ?cfgs = "map (cfg_of M) ks"
  have kind: "mk_Kind k = ''group''" if "k \<in> dom M" for k using that M(2) by (auto simp: groups_only_def)
  have "inj_on mk_Name (dom M)"
  proof (rule inj_onI)
    fix i j assume "i \<in> dom M" "j \<in> dom M" "mk_Name i = mk_Name j"
    then show "i = j" using kind [of i] kind [of j] by simp
  qed
  then have d: "distinct (map cf_ID ?cfgs)" using ks(1,2) by (simp add: distinct_map cfg_of_def comp_def)
  have ids: "cf_ID ` set ?cfgs = mk_Name ` dom M" using ks(2) by (simp add: image_image cfg_of_def)
  obtain G eff' where r: "mgr_run env (replicate (length ?cfgs) Ev_Work) ?m = Ret (?m\<lparr>mn_queue := map (commit_op \<circ> cfg_of M) ks, mn_world := (with_groups G p, x, eff')\<rparr>)"
    "\<forall>cfg \<in> set ?cfgs. manages (with_groups G p) cfg" "\<forall>gid. gid \<notin> cf_ID ` set ?cfgs \<longrightarrow> gm_get G gid = gm_get (ct_groups p) gid"
    using drain_commits [of ?m ?cfgs "map (commit_op \<circ> cfg_of M) ks" p x eff env] m M(4) d ks(2) by (auto simp: standby_def)
  have "mgr_run env ([Ev_Leader Leader, Ev_Notify] @ replicate (card (dom M)) Ev_Work) m =
      Ret (?m\<lparr>mn_queue := map (commit_op \<circ> cfg_of M) ks, mn_world := (with_groups G p, x, eff')\<rparr>)"
    unfolding mgr_run_append using ks(3) r(1) M(3) len by simp
  moreover have man: "\<forall>k \<in> dom M. manages (with_groups G p) (cfg_of M k)" using r(2) ks(2) by simp
  moreover have "dom (gm_get G) = mk_Name ` dom M"
  proof
    show "dom (gm_get G) \<subseteq> mk_Name ` dom M" using r(3) m(4) unfolding ids by (force simp: dom_def)
    show "mk_Name ` dom M \<subseteq> dom (gm_get G)" using man by (auto simp: manages_def cfg_of_def)
  qed
  ultimately show ?thesis by (intro exI [of _ "?m\<lparr>mn_queue := map (commit_op \<circ> cfg_of M) ks, mn_world := (with_groups G p, x, eff')\<rparr>"]) simp
qed

end

section \<open>Losing leadership\<close>

lemma fold_update_groups:
  assumes "same_specs g M" "groups_only M" "\<forall>spec \<in> set specs. cf_Properties spec \<noteq> None"
  shows "\<exists>M'. same_specs (fold (\<lambda>spec g. gl_updateGroupSpec spec handler g) specs g) M' \<and> groups_only M' \<and>
    dom M' = dom M \<union> keyFromGroupID ` cf_ID ` set specs"
  using assms
proof (induction specs arbitrary: g M)
  case (Cons spec specs)
  let ?k = "keyFromGroupID (cf_ID spec)"
  let ?M = "M(?k \<mapsto> group_record spec handler (M ?k))"
  have g: "groups_only ?M" using Cons.prems(2,3) by (auto simp: groups_only_def group_record_def keyFromGroupID_def Let_def)
  have p: "\<forall>spec \<in> set specs. cf_Properties spec \<noteq> None" using Cons.prems(3) by simp
  obtain M' where M': "same_specs (fold (\<lambda>spec g. gl_updateGroupSpec spec handler g) specs (gl_updateGroupSpec spec handler g)) M'" "groups_only M'"
    "dom M' = dom ?M \<union> keyFromGroupID ` cf_ID ` set specs" using Cons.IH [OF same_specs_update [OF Cons.prems(1)] g p] by blast
  have "dom ?M = insert ?k (dom M)" by auto
  then have "dom M' = dom M \<union> keyFromGroupID ` cf_ID ` set (spec # specs)" using M'(3) by simp
  then show ?case using M'(1,2) by (intro exI [of _ M']) simp
qed auto

abbreviation free_op :: "'a GroupConfig \<Rightarrow> ('a, 'p, ('a, 'p, 'x) group_world) backendOp" where
  "free_op \<equiv> Op_execFreeGroup group_backend"

lemma drain_frees:
  "mn_queue m = map free_op cfgs \<Longrightarrow> mn_alive m \<Longrightarrow> mn_world m = (p, x, eff) \<Longrightarrow> distinct (map cf_ID cfgs) \<Longrightarrow>
     \<forall>cfg \<in> set cfgs. gm_get (ct_groups p) (cf_ID cfg) \<noteq> None \<Longrightarrow>
   \<exists>G eff'. mgr_run env (replicate (length cfgs) Ev_Work) m = Ret (m\<lparr>mn_queue := [], mn_world := (with_groups G p, x, eff')\<rparr>) \<and>
     (\<forall>gid. gm_get G gid = (if gid \<in> cf_ID ` set cfgs then None else gm_get (ct_groups p) gid))"
proof (induction cfgs arbitrary: m p eff)
  case Nil
  then show ?case by (intro exI [of _ "ct_groups p"] exI [of _ eff]) simp
next
  case (Cons cfg cfgs)
  obtain ctx where c: "gm_get (ct_groups p) (cf_ID cfg) = Some ctx" using Cons.prems(5) by auto
  let ?p = "with_groups (gm_del (cf_ID cfg) (ct_groups p)) p"
  obtain e where free: "FreeGroup (cf_ID cfg) p = (None, ?p, e)" using c by (auto simp: FreeGroup_def doFree_def case_prod_unfold Let_def)
  let ?m = "m\<lparr>mn_queue := map free_op cfgs, mn_world := (?p, x, eff @ e)\<rparr>"
  have step: "mgr_step env Ev_Work m = Ret ?m" using Cons.prems(1-3) free by (simp add: work_step_def on_world_def reply_err_def)
  have "\<forall>c \<in> set cfgs. gm_get (ct_groups ?p) (cf_ID c) \<noteq> None" using Cons.prems(4,5) by (auto simp: image_iff)
  then obtain G eff' where run: "mgr_run env (replicate (length cfgs) Ev_Work) ?m = Ret (m\<lparr>mn_queue := [], mn_world := (with_groups G p, x, eff')\<rparr>)"
    "\<forall>gid. gm_get G gid = (if gid \<in> cf_ID ` set cfgs then None else gm_get (ct_groups ?p) gid)"
    using Cons.IH [of ?m ?p "eff @ e"] Cons.prems by auto
  then show ?case using step by (intro exI [of _ G] exI [of _ eff']) auto
qed

definition idle_leader :: "('a, 'p, 's, 'w) manager \<Rightarrow> bool" where
  "idle_leader m \<longleftrightarrow> mn_isLeader m \<and> mn_queue m = [] \<and> mn_notify m = None \<and> \<not> mn_stopping m \<and> mn_alive m"

lemma lost_queue:
  fixes env :: "('a, 'p, 's, ('a, 'p, 'x) group_world) mgr_env"
  assumes env: "group_manager sn p0 env" and p: "codec_ok p" "gm_ok (ct_groups p)" and m: "mn_world m = (p, x, eff)" "length (mn_queue m) + length (ct_groups p) \<le> backendCap"
  shows "\<exists>cfgs. onLostLeadership env m = Ret (None, m\<lparr>mn_queue := mn_queue m @ map free_op cfgs\<rparr>) \<and> distinct (map cf_ID cfgs) \<and>
    cf_ID ` set cfgs = fst ` set (ct_groups p) \<and> length cfgs = length (ct_groups p)"
proof -
  define specs where "specs = map (\<lambda>(gid, ctx). spec_of p gid ctx) (ct_groups p)"
  have ids: "map cf_ID specs = map fst (ct_groups p)" by (simp add: specs_def spec_of_def case_prod_unfold)
  have ps: "\<forall>spec \<in> set specs. cf_Properties spec \<noteq> None"
  proof
    fix spec assume "spec \<in> set specs"
    then obtain gid ctx where s: "spec = spec_of p gid ctx" by (auto simp: specs_def)
    obtain a where "ct_encode p (gset_config (gc_settings ctx)) = Inr a" using p(1) unfolding codec_ok_def by blast
    then show "cf_Properties spec \<noteq> None" by (simp add: s spec_of_def)
  qed
  let ?g = "fold (\<lambda>spec g. gl_updateGroupSpec spec (me_groupName env) g) specs new_global"
  have n: "same_specs (new_global :: 'a globalSpec) Map.empty" "groups_only (Map.empty :: mkey \<Rightarrow> 'a MRecord option)"
    by (simp_all add: same_specs_def new_global_def groups_only_def fun_eq_iff)
  obtain M where M: "same_specs ?g M" "groups_only M" "dom M = keyFromGroupID ` cf_ID ` set specs"
    using fold_update_groups [OF n ps, of "me_groupName env"] by auto
  let ?ks = "orderedKeys (me_keyOrder env) ?g"
  have ks: "distinct ?ks" "set ?ks = dom M" using ordered_dom [OF M(1)] by simp_all
  let ?f = "\<lambda>k. plugin_op env Op_execFree Op_execFreeGroup k (gm_get0 zero_record (gl_index ?g) k)"
  have f: "?f k = Some (free_op (cfg_of M k))" if "k \<in> set ?ks" for k using plugin_op_group(1) [OF env M(1,2), of k] that ks(2) by simp
  have q: "exec_ops ?f ?ks = map (free_op \<circ> cfg_of M) ?ks" unfolding exec_ops_def by (rule map_filter_all) (use f in simp)
  have inj: "inj keyFromGroupID" by (simp add: inj_def keyFromGroupID_def)
  have d: "distinct (map cf_ID specs)" using p(2) unfolding ids gm_ok_def .
  have names: "mk_Name ` dom M = fst ` set (ct_groups p)"
    unfolding M(3) image_image using ids by (simp add: keyFromGroupID_def flip: set_map)
  have "card (dom M) = length (ct_groups p)"
    unfolding M(3) card_image [OF inj_on_subset [OF inj subset_UNIV]] using distinct_card [OF d] ids by (simp flip: set_map)
  then have len: "length ?ks = length (ct_groups p)" using distinct_card [OF ks(1)] ks(2) by simp
  have "inj_on mk_Name (dom M)" unfolding M(3) by (auto simp: inj_on_def keyFromGroupID_def)
  then have dn: "distinct (map cf_ID (map (cfg_of M) ?ks))" using ks by (simp add: distinct_map cfg_of_def comp_def)
  have "getCurrentState env (mn_world m) = Inr ?g"
    using env InspectGroups_ok [OF p(1)] by (simp add: getCurrentState_def group_manager_def m(1) specs_def)
  moreover have "doFreeAll env ?g m = Ret (m\<lparr>mn_queue := mn_queue m @ map free_op (map (cfg_of M) ?ks)\<rparr>)"
    unfolding doFreeAll_def
    using execPlugins_eq [where m = m and env = env and cw = Op_execFree and gw = Op_execFreeGroup and config = ?g and requeue = False] m(2) q len
    by (simp add: exec_again_def)
  ultimately have "onLostLeadership env m = Ret (None, m\<lparr>mn_queue := mn_queue m @ map free_op (map (cfg_of M) ?ks)\<rparr>)" by (simp add: onLostLeadership_def)
  moreover have "cf_ID ` set (map (cfg_of M) ?ks) = fst ` set (ct_groups p)" using names ks(2) by (simp add: image_image cfg_of_def)
  ultimately show ?thesis using dn len by (intro exI [of _ "map (cfg_of M) ?ks"]) simp
qed

lemma lost_frees:
  assumes env: "group_manager sn p0 env" and p: "codec_ok p" "gm_ok (ct_groups p)" "length (ct_groups p) \<le> backendCap"
    and m: "idle_leader m" "mn_world m = (p, x, eff)" and st: "status \<noteq> Leader"
  shows "\<exists>m'. mgr_run env ([Ev_Leader status, Ev_Notify] @ replicate (length (ct_groups p)) Ev_Work) m = Ret m' \<and>
    \<not> mn_isLeader m' \<and> mn_queue m' = [] \<and> gm_get (watched_groups m') = Map.empty"
proof -
  have s: "mn_queue m = []" "mn_notify m = None" "\<not> mn_stopping m" "mn_alive m" "mn_isLeader m" using m(1) by (simp_all add: idle_leader_def)
  let ?m = "m\<lparr>mn_isLeader := False, mn_notify := None\<rparr>"
  obtain cfgs where c: "onLostLeadership env ?m = Ret (None, ?m\<lparr>mn_queue := map free_op cfgs\<rparr>)" "distinct (map cf_ID cfgs)"
    "cf_ID ` set cfgs = fst ` set (ct_groups p)" "length cfgs = length (ct_groups p)"
    using lost_queue [OF env p(1,2), of ?m x eff] m(2) s(1) p(3) by auto
  have ev: "mgr_run env [Ev_Leader status, Ev_Notify] m = Ret (?m\<lparr>mn_queue := map free_op cfgs\<rparr>)"
    using s st c(1) by (cases status) (simp_all add: leader_event_def notify_step_def Let_def)
  have "\<forall>cfg \<in> set cfgs. gm_get (ct_groups p) (cf_ID cfg) \<noteq> None" using c(3) by (auto simp: map_of_eq_None_iff)
  then obtain G eff' where r: "mgr_run env (replicate (length cfgs) Ev_Work) (?m\<lparr>mn_queue := map free_op cfgs\<rparr>) =
      Ret (?m\<lparr>mn_queue := [], mn_world := (with_groups G p, x, eff')\<rparr>)"
    "\<forall>gid. gm_get G gid = (if gid \<in> cf_ID ` set cfgs then None else gm_get (ct_groups p) gid)"
    using drain_frees [of "?m\<lparr>mn_queue := map free_op cfgs\<rparr>" cfgs p x eff env] m(2) s(4) c(2) by auto
  have "gm_get G = Map.empty" using r(2) unfolding c(3) fun_eq_iff by (auto simp: map_of_eq_None_iff)
  moreover have "mgr_run env ([Ev_Leader status, Ev_Notify] @ replicate (length (ct_groups p)) Ev_Work) m =
      Ret (?m\<lparr>mn_queue := [], mn_world := (with_groups G p, x, eff')\<rparr>)"
    unfolding mgr_run_append ev using r(1) c(4) by simp
  ultimately show ?thesis by (intro exI [of _ "?m\<lparr>mn_queue := [], mn_world := (with_groups G p, x, eff')\<rparr>"]) simp
qed

end
