(* ===== verification/Manager_Faults.thy ===== *)
theory Manager_Faults
  imports Manager_Takeover
begin

text \<open>What happens to commits that are refused, that come late, or that meet a store or a plugin that fails.\<close>

section \<open>Commits that are stored\<close>

context spec_store
begin

lemma commit_held:
  assumes "me_snapshot env = Some sn" "ok (mn_specs m)" "held (val (mn_specs m)) = M" "mn_isLeader m"
    "mgr_CommitGroup env cfg False m = Ret (err, reply, m')"
  shows "ok (mn_specs m')" "held (val (mn_specs m')) = M(keyFromGroupID (cf_ID cfg) \<mapsto> group_record cfg (me_groupName env) (M (keyFromGroupID (cf_ID cfg))))"
proof -
  obtain s' where s': "updateConfig env cfg m = Ret (None, m\<lparr>mn_specs := s'\<rparr>)" "ok s'"
    "held (val s') = M(keyFromGroupID (cf_ID cfg) \<mapsto> group_record cfg (me_groupName env) (M (keyFromGroupID (cf_ID cfg))))"
    using updateConfig_ok [OF assms(1-3) refl] by blast
  have "mn_specs m' = s'"
    using assms(4,5) s'(1) by (auto simp: mgr_CommitGroup_def mgr_call_def mgr_queue_def after_store_def on_world_def reply_text_def andthen_Ret_iff split: prod.splits)
  then show "ok (mn_specs m')" "held (val (mn_specs m')) = M(keyFromGroupID (cf_ID cfg) \<mapsto> group_record cfg (me_groupName env) (M (keyFromGroupID (cf_ID cfg))))"
    using s' by simp_all
qed

lemma commit_loads:
  assumes "me_snapshot env = Some sn" "ok (mn_specs m)" "mn_isLeader m" "mgr_CommitGroup env cfg False m = Ret (err, reply, m')"
  shows "loadGroupSpec env (cf_ID cfg) m' = Ret (Inr cfg)"
    "gid \<noteq> cf_ID cfg \<Longrightarrow> loadGroupSpec env gid m' = loadGroupSpec env gid m"
proof -
  note h = commit_held [OF assms(1,2) refl assms(3,4)]
  show "loadGroupSpec env (cf_ID cfg) m' = Ret (Inr cfg)"
    using loadGroupSpec_ok [OF assms(1) h(1), of "cf_ID cfg"] h(2) by (simp add: group_record_def Let_def)
  show "loadGroupSpec env gid m' = loadGroupSpec env gid m" if "gid \<noteq> cf_ID cfg"
    using loadGroupSpec_ok [OF assms(1) h(1), of gid] loadGroupSpec_ok [OF assms(1,2), of gid] h(2) that by (simp add: keyFromGroupID_def)
qed

end

section \<open>Sizes\<close>

definition sized :: "nat \<Rightarrow> 'p GroupSpec \<Rightarrow> 'p GroupSpec" where
  "sized n g = g\<lparr>gs_Allocation := (gs_Allocation g)\<lparr>al_Size := n\<rparr>\<rparr>"

context spec_store
begin

text \<open>A new size is stored and committed, whatever the integer.\<close>

lemma SetSize_commits:
  assumes env: "group_manager sn p env" and m: "ok (mn_specs m)" "mn_isLeader m" and r: "held (val (mn_specs m)) (keyFromGroupID gid) = Some r"
    "ts_Properties (mr_Spec r) = Some a" "ct_decode p a = Inr g" "al_LogicalIDs (gs_Allocation g) = []" and p: "codec_ok p"
  shows "\<exists>a'. ct_decode p a' = Inr (sized (nat (sz mod 2 ^ 64)) g) \<and>
    mgr_SetSize env gid sz m = andthen (mgr_CommitGroup env \<lparr>cf_ID = gid, cf_Properties = Some a'\<rparr> False m) (\<lambda>(err, _, m). Ret (err, m))"
proof -
  obtain a' where a': "ct_encode p (sized (nat (sz mod 2 ^ 64)) g) = Inr a'" "ct_decode p a' = Inr (sized (nat (sz mod 2 ^ 64)) g)"
    using p unfolding codec_ok_def by blast
  have e: "me_snapshot env = Some sn" "me_ParseProperties env = ParseProperties p" "me_encode env = ct_encode p" using env by (simp_all add: group_manager_def)
  have "loadGroupSpec env gid m = Ret (Inr \<lparr>cf_ID = gid, cf_Properties = Some a\<rparr>)" using loadGroupSpec_ok [OF e(1) m(1), of gid] r(1,2) by simp
  moreover have "ParseProperties p \<lparr>cf_ID = gid, cf_Properties = Some a\<rparr> = Inr g" using r(3) by (simp add: ParseProperties_def)
  ultimately have "mgr_SetSize env gid sz m = andthen (mgr_CommitGroup env \<lparr>cf_ID = gid, cf_Properties = Some a'\<rparr> False m) (\<lambda>(err, _, m). Ret (err, m))"
    using m(2) r(4) a'(1) e by (simp add: mgr_SetSize_def sized_def)
  then show ?thesis using a'(2) by blast
qed

end

section \<open>Commits that are refused\<close>

definition refused :: "('a, 'p, 'x) gController \<Rightarrow> 'a GroupConfig \<Rightarrow> bool" where
  "refused p cfg \<longleftrightarrow> (\<forall>x. isl (gvalidate p cfg x))"

lemma refused_groups [simp]: "refused (with_groups G p) = refused p"
  by (simp add: refused_def fun_eq_iff)

lemma empty_refused: "ParseProperties p cfg = Inr g \<Longrightarrow> al_Size (gs_Allocation g) = 0 \<Longrightarrow> al_LogicalIDs (gs_Allocation g) = [] \<Longrightarrow> cf_ID cfg \<noteq> [] \<Longrightarrow>
    gvalidate p cfg x = Inl ''Allocation must not be blank''"
  by (simp add: gvalidate_def)

lemma refused_commit:
  assumes "refused p cfg"
  shows "\<exists>err. CommitGroup cfg pretend p x = Ret (([], Some err), p, x, [])"
proof -
  have "isl (gvalidate p cfg x)" using assms by (simp add: refused_def)
  then show ?thesis by (cases "gvalidate p cfg x") (simp_all add: CommitGroup_def)
qed

text \<open>A commit leaves every other group alone.\<close>

definition only_changes :: "string \<Rightarrow> ('a, 'p, 'x) gController \<Rightarrow> ('a, 'p, 'x) gController \<Rightarrow> bool" where
  "only_changes gid p p' \<longleftrightarrow> (\<exists>G. p' = with_groups G p \<and> (\<forall>g. g \<noteq> gid \<longrightarrow> gm_get G g = gm_get (ct_groups p) g))"

lemma only_changes_same: "only_changes gid p p"
  unfolding only_changes_def by (intro exI [of _ "ct_groups p"]) simp

lemma only_changes_put: "only_changes gid p (with_groups (gm_put gid ctx (ct_groups p)) p)"
  unfolding only_changes_def by (intro exI [of _ "gm_put gid ctx (ct_groups p)"]) simp

lemma commit_update_only: "only_changes gid p (fst (snd (commit_update p gid settings pretend ctx x)))"
  unfolding commit_update_def Let_def by (auto simp: only_changes_put split: prod.splits sum.splits if_splits)

lemma commit_new_only: "commit_new p gid settings pretend x = Ret (r, p', x', e) \<Longrightarrow> only_changes gid p p'"
  by (auto simp: commit_new_def groups_put_def Let_def andthen_Ret_iff only_changes_put only_changes_same split: if_splits)

lemma commit_only:
  assumes "CommitGroup cfg pretend p x = Ret (r, p', x', e)"
  shows "only_changes (cf_ID cfg) p p'"
proof (cases "gvalidate p cfg x")
  case (Inl err)
  then show ?thesis using assms only_changes_same by (simp add: CommitGroup_def)
next
  case (Inr settings)
  show ?thesis
  proof (cases "gm_get (ct_groups p) (cf_ID cfg)")
    case None
    then show ?thesis using assms Inr by (simp add: CommitGroup_def Let_def commit_new_only)
  next
    case (Some ctx)
    then have "commit_update p (cf_ID cfg) (settings\<lparr>gset_self := ct_self p\<rparr>) pretend ctx x = (r, p', x', e)" using assms Inr by (simp add: CommitGroup_def Let_def)
    then show ?thesis using commit_update_only [of "cf_ID cfg" p "settings\<lparr>gset_self := ct_self p\<rparr>" pretend ctx x] by simp
  qed
qed

text \<open>
  While only commits are queued, and those of one group are refused, that group is never watched and one commit
  of it stays in the queue.
\<close>

definition starved :: "('a, 'p, 'x) gController \<Rightarrow> string \<Rightarrow> ('a, 'p, 's, ('a, 'p, 'x) group_world) manager \<Rightarrow> bool" where
  "starved p gid m \<longleftrightarrow> mn_alive m \<and> length (mn_queue m) \<le> backendCap \<and> (\<exists>cfgs. mn_queue m = map commit_op cfgs \<and>
     (\<exists>cfg \<in> set cfgs. cf_ID cfg = gid) \<and> (\<forall>cfg \<in> set cfgs. cf_ID cfg = gid \<longrightarrow> refused p cfg)) \<and>
     (\<exists>G x eff. mn_world m = (with_groups G p, x, eff) \<and> gm_get G gid = None)"

lemma starvedI: "mn_alive m \<Longrightarrow> mn_queue m = map commit_op cfgs \<Longrightarrow> length cfgs \<le> backendCap \<Longrightarrow> \<exists>cfg \<in> set cfgs. cf_ID cfg = gid \<Longrightarrow>
    \<forall>cfg \<in> set cfgs. cf_ID cfg = gid \<longrightarrow> refused p cfg \<Longrightarrow> mn_world m = (with_groups G p, x, eff) \<Longrightarrow> gm_get G gid = None \<Longrightarrow> starved p gid m"
  unfolding starved_def by auto

lemma starved_unwatched: "starved p gid m \<Longrightarrow> gm_get (watched_groups m) gid = None \<and> (\<exists>cfg. cf_ID cfg = gid \<and> commit_op cfg \<in> set (mn_queue m))"
  by (auto simp: starved_def)

lemma starved_step:
  assumes "starved p gid m"
  shows "\<exists>m'. mgr_step env Ev_Work m = Ret m' \<and> starved p gid m'"
proof -
  obtain cfgs G x eff where q: "mn_queue m = map commit_op cfgs" "\<exists>cfg \<in> set cfgs. cf_ID cfg = gid" "\<forall>cfg \<in> set cfgs. cf_ID cfg = gid \<longrightarrow> refused p cfg"
    and w: "mn_world m = (with_groups G p, x, eff)" "gm_get G gid = None" and a: "mn_alive m" "length (mn_queue m) \<le> backendCap"
    using assms unfolding starved_def by blast
  obtain c cs where c: "cfgs = c # cs" using q(2) by (cases cfgs) auto
  have room: "length cs < backendCap" using a(2) q(1) c by simp
  obtain r err p' x' e where run: "CommitGroup c False (with_groups G p) x = Ret ((r, err), p', x', e)"
    using CommitGroup_total [of c False "with_groups G p" x] by (metis prod.exhaust)
  obtain G' where G': "p' = with_groups G' p" "\<forall>g. g \<noteq> cf_ID c \<longrightarrow> gm_get G' g = gm_get G g"
    using commit_only [OF run] by (auto simp: only_changes_def)
  let ?m = "m\<lparr>mn_queue := (if err = None then map commit_op cs else map commit_op (cs @ [c])), mn_world := (p', x', eff @ e)\<rparr>"
  have step: "mgr_step env Ev_Work m = Ret ?m"
    using a q(1) c w(1) run room by (simp add: work_step_def on_world_def reply_text_def send_op_def)
  have "starved p gid ?m"
  proof (cases "cf_ID c = gid")
    case True
    then have "refused (with_groups G p) c" using q(3) c by simp
    then have e: "err \<noteq> None" "p' = with_groups G p" using refused_commit [of "with_groups G p" c False x] run by auto
    show ?thesis by (rule starvedI [where cfgs = "cs @ [c]" and G = G]) (use a(1) room e w(2) True q(3) c in auto)
  next
    case False
    have "gm_get G' gid = None" using G'(2) False w(2) by simp
    moreover have "\<exists>cfg \<in> set cs. cf_ID cfg = gid" using q(2) c False by auto
    ultimately show ?thesis
      by (intro starvedI [where cfgs = "if err = None then cs else cs @ [c]" and G = G']) (use a(1) room G'(1) False q(3) c in auto)
  qed
  then show ?thesis using step by blast
qed

lemma starved_runs: "starved p gid m \<Longrightarrow> \<exists>m'. mgr_run env (replicate n Ev_Work) m = Ret m' \<and> starved p gid m'"
proof (induction n arbitrary: m)
  case (Suc n)
  obtain m' where m': "mgr_step env Ev_Work m = Ret m'" "starved p gid m'" using starved_step [OF Suc.prems] by blast
  then show ?case using Suc.IH [OF m'(2)] by simp
qed simp

context spec_store
begin

lemma takeover_starves:
  assumes env: "group_manager sn p env" and m: "standby m" "ok (mn_specs m)" "mn_world m = (p, x, eff)" "ct_groups p = []"
    and M: "held (val (mn_specs m)) = M" "groups_only M" "2 * card (dom M) \<le> backendCap"
    and k: "keyFromGroupID gid \<in> dom M" "refused p (cfg_of M (keyFromGroupID gid))"
  shows "\<exists>m'. mgr_run env ([Ev_Leader Leader, Ev_Notify] @ replicate n Ev_Work) m = Ret m' \<and> gm_get (watched_groups m') gid = None \<and>
    (\<exists>cfg. cf_ID cfg = gid \<and> commit_op cfg \<in> set (mn_queue m'))"
proof -
  obtain ks where ks: "distinct ks" "set ks = dom M" "mgr_run env [Ev_Leader Leader, Ev_Notify] m = (if 2 * length ks \<le> backendCap
    then Ret (m\<lparr>mn_isLeader := True, mn_queue := map (commit_op \<circ> cfg_of M) ks @ map (commit_op \<circ> cfg_of M) ks\<rparr>) else Blocks)"
    using takeover_events [OF env m(1,2) M(1,2)] by blast
  let ?m = "m\<lparr>mn_isLeader := True, mn_queue := map (commit_op \<circ> cfg_of M) ks @ map (commit_op \<circ> cfg_of M) ks\<rparr>"
  have len: "2 * length ks \<le> backendCap" using distinct_card [OF ks(1)] ks(2) M(3) by simp
  have same: "k = keyFromGroupID gid" if "k \<in> set ks" "cf_ID (cfg_of M k) = gid" for k
    using that M(2) ks(2) by (auto simp: cfg_of_def groups_only_def keyFromGroupID_def)
  have "\<forall>cfg \<in> set (map (cfg_of M) (ks @ ks)). cf_ID cfg = gid \<longrightarrow> refused p cfg" using same k(2) by auto
  moreover have "\<exists>cfg \<in> set (map (cfg_of M) (ks @ ks)). cf_ID cfg = gid" using k(1) ks(2) by (force simp: cfg_of_def keyFromGroupID_def)
  moreover have "mn_world ?m = (with_groups [] p, x, eff)" using m(3,4) by (simp add: with_groups_def)
  moreover have "mn_queue ?m = map commit_op (map (cfg_of M) (ks @ ks))" by simp
  ultimately have "starved p gid ?m" using len m(1) by (intro starvedI [where cfgs = "map (cfg_of M) (ks @ ks)" and G = "[]"]) (simp_all add: standby_def)
  then obtain m' where m': "mgr_run env (replicate n Ev_Work) ?m = Ret m'" "starved p gid m'" using starved_runs by blast
  have "mgr_run env ([Ev_Leader Leader, Ev_Notify] @ replicate n Ev_Work) m = Ret m'" unfolding mgr_run_append using ks(3) len m'(1) by simp
  then show ?thesis using starved_unwatched [OF m'(2)] by blast
qed

end

lemma group_manager_groups [simp]: "group_manager sn (with_groups G p) env = group_manager sn p env"
  unfolding group_manager_def ParseProperties_groups ct_with_groups ..

lemma groups_only_update: "groups_only M \<Longrightarrow> cf_Properties cfg \<noteq> None \<Longrightarrow> groups_only (M(keyFromGroupID (cf_ID cfg) \<mapsto> group_record cfg handler r))"
  by (auto simp: groups_only_def group_record_def keyFromGroupID_def Let_def)

context spec_store
begin

lemma refused_stored:
  assumes env: "group_manager sn p env" and m: "ok (mn_specs m)" "mn_isLeader m" "mn_world m = (p, x, eff)" and c: "refused p cfg"
  shows "\<exists>err s'. mgr_CommitGroup env cfg False m = Ret (Some err, Rp_Text [], m\<lparr>mn_specs := s'\<rparr>) \<and> ok s' \<and>
    held (val s') = (held (val (mn_specs m)))(keyFromGroupID (cf_ID cfg) \<mapsto> group_record cfg (me_groupName env) (held (val (mn_specs m)) (keyFromGroupID (cf_ID cfg))))"
proof -
  have e: "me_snapshot env = Some sn" "me_plugin env = group_backend" using env by (simp_all add: group_manager_def)
  obtain s' where s': "updateConfig env cfg m = Ret (None, m\<lparr>mn_specs := s'\<rparr>)" "ok s'"
    "held (val s') = (held (val (mn_specs m)))(keyFromGroupID (cf_ID cfg) \<mapsto> group_record cfg (me_groupName env) (held (val (mn_specs m)) (keyFromGroupID (cf_ID cfg))))"
    using updateConfig_ok [OF e(1) m(1) refl refl] by blast
  obtain err where err: "CommitGroup cfg False p x = Ret (([], Some err), p, x, [])" using refused_commit [OF c] by blast
  have same: "m\<lparr>mn_specs := s', mn_world := (p, x, eff)\<rparr> = m\<lparr>mn_specs := s'\<rparr>" unfolding m(3) [symmetric] by simp
  have "mgr_CommitGroup env cfg False m = Ret (Some err, Rp_Text [], m\<lparr>mn_specs := s'\<rparr>)"
    using m(2,3) s'(1) err e(2) same by (simp add: mgr_CommitGroup_def mgr_call_def mgr_queue_def after_store_def on_world_def reply_text_def)
  then show ?thesis using s'(2,3) by blast
qed

lemma zero_size_starves:
  assumes env: "group_manager sn p env" "codec_ok p" and m: "ok (mn_specs m)" "mn_isLeader m" "mn_world m = (p, x, eff)" and gid: "gid \<noteq> []"
    and M: "held (val (mn_specs m)) = M" "groups_only M" "2 * card (dom M) \<le> backendCap"
    and r: "M (keyFromGroupID gid) = Some r" "ts_Properties (mr_Spec r) = Some a" "ct_decode p a = Inr g" "al_LogicalIDs (gs_Allocation g) = []"
  shows "\<exists>err s'. mgr_SetSize env gid 0 m = Ret (Some err, m\<lparr>mn_specs := s'\<rparr>) \<and>
    (\<forall>m2 n. standby m2 \<and> mn_specs m2 = s' \<and> mn_world m2 = (with_groups [] p, x, []) \<longrightarrow>
      (\<exists>m'. mgr_run env ([Ev_Leader Leader, Ev_Notify] @ replicate n Ev_Work) m2 = Ret m' \<and> gm_get (watched_groups m') gid = None \<and>
        (\<exists>cfg. cf_ID cfg = gid \<and> commit_op cfg \<in> set (mn_queue m'))))"
proof -
  let ?k = "keyFromGroupID gid"
  obtain a' where a': "ct_decode p a' = Inr (sized 0 g)"
    "mgr_SetSize env gid 0 m = andthen (mgr_CommitGroup env \<lparr>cf_ID = gid, cf_Properties = Some a'\<rparr> False m) (\<lambda>(err, _, m). Ret (err, m))"
    using SetSize_commits [OF env(1) m(1,2) _ r(2-4) env(2), of gid 0] r(1) M(1) by auto
  let ?cfg = "\<lparr>cf_ID = gid, cf_Properties = Some a'\<rparr>"
  have ref: "refused p ?cfg" unfolding refused_def
    by (simp add: empty_refused [where g = "sized 0 g"] ParseProperties_def a'(1) sized_def r(4) gid)
  obtain err s' where s': "mgr_CommitGroup env ?cfg False m = Ret (Some err, Rp_Text [], m\<lparr>mn_specs := s'\<rparr>)" "ok s'"
    "held (val s') = M(?k \<mapsto> group_record ?cfg (me_groupName env) (M ?k))" using refused_stored [OF env(1) m(1-3) ref] M(1) by auto
  let ?M = "M(?k \<mapsto> group_record ?cfg (me_groupName env) (M ?k))"
  have d: "dom ?M = dom M" using r(1) by auto
  have only: "groups_only ?M" using groups_only_update [OF M(2), of ?cfg "me_groupName env" "M ?k"] by simp
  have k: "?k \<in> dom ?M" "refused p (cfg_of ?M ?k)" using ref by (simp_all add: cfg_of_def group_record_def keyFromGroupID_def Let_def)
  have "\<exists>m'. mgr_run env ([Ev_Leader Leader, Ev_Notify] @ replicate n Ev_Work) m2 = Ret m' \<and> gm_get (watched_groups m') gid = None \<and>
      (\<exists>cfg. cf_ID cfg = gid \<and> commit_op cfg \<in> set (mn_queue m'))"
    if m2: "standby m2" "mn_specs m2 = s'" "mn_world m2 = (with_groups [] p, x, [])" for m2 n
    by (rule takeover_starves [where M = ?M and p = "with_groups [] p"]) (use env(1) m2 s'(2,3) only d M(3) k in simp_all)
  then show ?thesis using a'(2) s'(1) by (intro exI [of _ err] exI [of _ s']) simp
qed

end

section \<open>Commits that come late\<close>

context spec_store
begin

lemma late_commit:
  assumes env: "group_manager sn p env" and p: "codec_ok p" "gm_ok (ct_groups p)" "length (ct_groups p) < backendCap"
    and m: "idle_leader m" "ok (mn_specs m)" "mn_world m = (p, x, eff)" and c: "accepted p cfg" "gm_get (ct_groups p) (cf_ID cfg) = None"
  shows "\<exists>m'. mgr_run env ([Ev_Call (Op_CommitGroup cfg False), Ev_Leader NotLeader, Ev_Notify] @ replicate (Suc (length (ct_groups p))) Ev_Work) m = Ret m' \<and>
    \<not> mn_isLeader m' \<and> mn_queue m' = [] \<and> manages (fst (mn_world m')) cfg"
proof -
  have s: "mn_queue m = []" "mn_notify m = None" "\<not> mn_stopping m" "mn_alive m" "mn_isLeader m" using m(1) by (simp_all add: idle_leader_def)
  have e: "me_snapshot env = Some sn" "me_plugin env = group_backend" using env by (simp_all add: group_manager_def)
  let ?m = "m\<lparr>mn_queue := [Op_CommitGroup cfg False], mn_isLeader := False, mn_notify := None\<rparr>"
  obtain cfgs where f: "onLostLeadership env ?m = Ret (None, ?m\<lparr>mn_queue := Op_CommitGroup cfg False # map free_op cfgs\<rparr>)" "distinct (map cf_ID cfgs)"
    "cf_ID ` set cfgs = fst ` set (ct_groups p)" "length cfgs = length (ct_groups p)"
    using lost_queue [OF env p(1,2), of ?m x eff] m(3) p(3) by auto
  have cap: "0 < backendCap" by (simp add: backendCap_def)
  have ev: "mgr_run env [Ev_Call (Op_CommitGroup cfg False), Ev_Leader NotLeader, Ev_Notify] m = Ret (?m\<lparr>mn_queue := Op_CommitGroup cfg False # map free_op cfgs\<rparr>)"
    using s f(1) cap by (simp add: leader_event_def notify_step_def Let_def)
  let ?m1 = "?m\<lparr>mn_queue := map free_op cfgs\<rparr>"
  obtain s' where s': "updateConfig env cfg ?m1 = Ret (None, ?m1\<lparr>mn_specs := s'\<rparr>)" using updateConfig_ok [OF e(1), of ?m1] m(2) by fastforce
  obtain reply ctx e' where r: "CommitGroup cfg False p x = Ret ((reply, None), with_groups (gm_put (cf_ID cfg) ctx (ct_groups p)) p, x, e')"
    "ParseProperties p cfg = Inr (gset_config (gc_settings ctx))" using commit_first [OF c, of x] by blast
  let ?p = "with_groups (gm_put (cf_ID cfg) ctx (ct_groups p)) p"
  let ?m2 = "?m1\<lparr>mn_specs := s', mn_world := (?p, x, eff @ e')\<rparr>"
  have step: "mgr_step env Ev_Work (?m\<lparr>mn_queue := Op_CommitGroup cfg False # map free_op cfgs\<rparr>) = Ret ?m2"
    using s(4) s' r(1) m(3) e(2) by (simp add: work_step_def after_store_def on_world_def reply_text_def)
  have "\<forall>g \<in> set cfgs. gm_get (ct_groups p) (cf_ID g) \<noteq> None" using f(3) by (auto simp: map_of_eq_None_iff)
  then have "\<forall>g \<in> set cfgs. gm_get (ct_groups ?p) (cf_ID g) \<noteq> None" by simp
  then obtain G eff' where run: "mgr_run env (replicate (length cfgs) Ev_Work) ?m2 = Ret (?m2\<lparr>mn_queue := [], mn_world := (with_groups G ?p, x, eff')\<rparr>)"
    "\<forall>gid. gm_get G gid = (if gid \<in> cf_ID ` set cfgs then None else gm_get (ct_groups ?p) gid)"
    using drain_frees [of ?m2 cfgs ?p x "eff @ e'" env] s(4) f(2) by auto
  have "cf_ID cfg \<notin> cf_ID ` set cfgs" using c(2) unfolding f(3) by (simp add: map_of_eq_None_iff)
  then have "manages (with_groups G ?p) cfg" using run(2) r(2) by (simp add: manages_def)
  moreover have "mgr_run env ([Ev_Call (Op_CommitGroup cfg False), Ev_Leader NotLeader, Ev_Notify] @ replicate (Suc (length (ct_groups p))) Ev_Work) m =
      Ret (?m2\<lparr>mn_queue := [], mn_world := (with_groups G ?p, x, eff')\<rparr>)"
    unfolding mgr_run_append ev replicate_Suc f(4) [symmetric] by (simp only: andthen.simps mgr_run.simps step run(1))
  ultimately show ?thesis by (intro exI [of _ "?m2\<lparr>mn_queue := [], mn_world := (with_groups G ?p, x, eff')\<rparr>"]) simp
qed

end

section \<open>Plugins that cannot be reached\<close>

context spec_store
begin

lemma unreachable_skipped:
  assumes env: "me_snapshot env = Some sn" "\<forall>n. isl (me_Group env n)" "\<forall>n. isl (me_Controller env n)" and m: "ok (mn_specs m)" "length (mn_queue m) \<le> backendCap"
  shows "onAssumeLeadership env m = Ret (None, m\<lparr>mn_world := me_loadMetadata env (mn_world m)\<rparr>)"
proof -
  let ?m = "m\<lparr>mn_world := me_loadMetadata env (mn_world m)\<rparr>"
  obtain g where g: "gl_load sn (mn_specs m) = Inr g" using load_held [OF m(1)] by blast
  have "plugin_op env cw gw k r = None" for cw gw k r
    using env(2) [rule_format, of "mr_Handler r"] env(3) [rule_format, of "mr_Handler r"] by (auto simp: plugin_op_def split: sum.splits)
  then have "exec_ops (\<lambda>k. plugin_op env cw gw k (gm_get0 zero_record (gl_index g) k)) ks = []" for cw gw ks
    by (induction ks) (simp_all add: exec_ops_def List.map_filter_simps)
  then have "doCommitAll env g ?m = Ret ?m"
    unfolding doCommitAll_def
    using execPlugins_eq [where m = ?m and env = env and cw = Op_execCommit and gw = Op_execCommitGroup and config = g and requeue = True] m(2)
    by (simp add: exec_again_def exec_ops_def)
  then show ?thesis using env(1) g by (simp add: onAssumeLeadership_def loadAndCommitSpecs_def)
qed

end

section \<open>Stopping\<close>

lemma ended_stays: "\<not> mn_alive m \<Longrightarrow> \<not> mn_done m \<Longrightarrow> \<exists>m'. mgr_run env evs m = Ret m' \<and> \<not> mn_done m'"
proof (induction evs arbitrary: m)
  case (Cons ev evs)
  have "\<exists>m'. mgr_step env ev m = Ret m' \<and> \<not> mn_alive m' \<and> \<not> mn_done m'"
    using Cons.prems by (cases ev) (auto simp: leader_event_def Let_def)
  then obtain m' where "mgr_step env ev m = Ret m'" "\<not> mn_alive m'" "\<not> mn_done m'" by blast
  then show ?case using Cons.IH by simp
qed simp

end
