(* ===== verification/Manager_Theorems.thy ===== *)
theory Manager_Theorems
  imports Manager_Faults Group_Theorems
begin

text \<open>
  The properties of the manager, with its specs in a file (\<open>pkg/store/file\<close>) and the group controller as its
  plugin. The JSON codec is a parameter; what is used of it is that decoding undoes encoding.
\<close>

lemma json_specs:
  assumes "\<And>v. \<exists>b. marshal v = Inr b \<and> unmarshal b = Inr v"
  shows "spec_store (NewSnapshot marshal unmarshal) (file_ok unmarshal) (file_val unmarshal)"
  by (intro file_spec_store json_codec.intro) (rule assms)

section \<open>A manager to look at\<close>

type_synonym demo_specs = "unit GroupSpec mentry list snap_file"
type_synonym demo_groups = "(unit GroupSpec, unit, unit Description Mem sim_world) group_world"

definition demo_mgr_env :: "(unit GroupSpec, unit, demo_specs, demo_groups) mgr_env" where
  "demo_mgr_env = \<lparr>me_snapshot = Some (NewSnapshot Inr Inr), me_dataOrder = rev, me_keyOrder = rev, me_groupName = ''group'', me_plugin = group_backend,
     me_Group = \<lambda>_. Inr group_backend, me_Controller = \<lambda>_. Inl ''no such plugin'', me_ParseProperties = ParseProperties (demo_controller []),
     me_encode = Inr, me_loadMetadata = \<lambda>w. w, me_retries = 3\<rparr>"

definition demo_entry :: "string \<Rightarrow> unit GroupSpec mentry" where
  "demo_entry gid = (keyFromGroupID gid, group_record (demo_config\<lparr>cf_ID := gid\<rparr>) ''group'' None)"

definition demo_file :: "string list \<Rightarrow> demo_specs" where
  "demo_file gids = \<lparr>sf_content = Some (map demo_entry gids), sf_fault = None\<rparr>"

definition demo_manager :: "string list \<Rightarrow> (string, (unit, unit Description Mem sim_world) groupContext) gomap \<Rightarrow> (unit GroupSpec, unit, demo_specs, demo_groups) manager" where
  "demo_manager gids g = started_manager (demo_file gids) (demo_controller g, demo_world, [])"

definition demo_leader :: "string list \<Rightarrow> (string, (unit, unit Description Mem sim_world) groupContext) gomap \<Rightarrow> (unit GroupSpec, unit, demo_specs, demo_groups) manager" where
  "demo_leader gids g = (demo_manager gids g)\<lparr>mn_isLeader := True\<rparr>"

lemma demo_parse: "ParseProperties (demo_controller g) = ParseProperties (demo_controller [])"
proof -
  have "demo_controller g = with_groups g (demo_controller [])" by (simp add: demo_controller_def with_groups_def)
  then show ?thesis by simp
qed

lemma demo_mgr_ok [simp]:
  "group_manager (NewSnapshot Inr Inr) (demo_controller g) demo_mgr_env" "standby (demo_manager gids g)" "idle_leader (demo_leader gids g)"
  "mn_isLeader (demo_leader gids g)" "me_snapshot demo_mgr_env = Some (NewSnapshot Inr Inr)" "ct_groups (demo_controller g) = g"
  "mn_specs (demo_manager gids g) = demo_file gids" "mn_specs (demo_leader gids g) = demo_file gids" "file_ok Inr (demo_file gids)"
  "mn_world (demo_manager gids g) = (demo_controller g, demo_world, [])" "mn_world (demo_leader gids g) = (demo_controller g, demo_world, [])"
  by (simp_all add: group_manager_def demo_mgr_env_def demo_parse [of g], simp_all add: demo_controller_def standby_def idle_leader_def demo_manager_def
      demo_leader_def started_manager_def demo_file_def file_ok_def)

lemma demo_held: "held (file_val Inr (demo_file gids)) = (\<lambda>k. if mk_Kind k = ''group'' \<and> mk_Name k \<in> set gids then Some (snd (demo_entry (mk_Name k))) else None)"
proof -
  have "gm_get (map demo_entry xs) k = (if mk_Kind k = ''group'' \<and> mk_Name k \<in> set xs then Some (snd (demo_entry (mk_Name k))) else None)" for xs k
    by (induction xs) (auto simp: demo_entry_def keyFromGroupID_def)
  then show ?thesis by (simp add: held_def file_val_def demo_file_def rev_map fun_eq_iff)
qed

lemma demo_groups: "groups_only (held (file_val Inr (demo_file gids)))" "dom (held (file_val Inr (demo_file gids))) = keyFromGroupID ` set gids"
proof -
  show "groups_only (held (file_val Inr (demo_file gids)))"
    by (auto simp: groups_only_def demo_held demo_entry_def group_record_def demo_config_def Let_def split: if_splits)
  have "k \<in> dom (held (file_val Inr (demo_file gids))) \<longleftrightarrow> k \<in> keyFromGroupID ` set gids" for k
    by (cases k) (auto simp: demo_held keyFromGroupID_def split: if_splits)
  then show "dom (held (file_val Inr (demo_file gids))) = keyFromGroupID ` set gids" by blast
qed


lemma demo_accepted: "gid \<noteq> [] \<Longrightarrow> accepted (demo_controller g) (demo_config\<lparr>cf_ID := gid\<rparr>)"
  by (simp add: accepted_def gvalidate_def ParseProperties_def demo_controller_def demo_config_def demo_group_def sim_instance_plugin_def
      vanilla_flavor_plugin_def sim_Validate_def vanilla_Validate_def demo_vanilla_def demo_env_def Let_def)

section \<open>Leadership\<close>







section \<open>Where the manager fails\<close>

text \<open>
  (C36) Each group is committed twice on winning leadership, and the goroutine that queues the commits is the one that
  works the queue off: with more than 50 groups in the store it waits for itself, for ever.
\<close>

theorem takeover_deadlocks:
  assumes json: "\<And>v. \<exists>b. marshal v = Inr b \<and> unmarshal b = Inr v"
    and env: "group_manager (NewSnapshot marshal unmarshal) p env" and m: "standby m" "file_ok unmarshal (mn_specs m)"
    and M: "held (file_val unmarshal (mn_specs m)) = M" "groups_only M" "50 < card (dom M)"
  shows "mgr_run env ([Ev_Leader Leader, Ev_Notify] @ evs) m = Blocks"
proof -
  obtain ks where ks: "distinct ks" "set ks = dom M" "mgr_run env [Ev_Leader Leader, Ev_Notify] m = (if 2 * length ks \<le> backendCap
      then Ret (m\<lparr>mn_isLeader := True, mn_queue := map (commit_op \<circ> cfg_of M) ks @ map (commit_op \<circ> cfg_of M) ks\<rparr>) else Blocks)"
    using spec_store.takeover_events [OF json_specs [OF json] env m M(1,2)] by blast
  have "50 < length ks" using M(3) ks(1,2) by (metis distinct_card)
  then show ?thesis unfolding mgr_run_append ks(3) by (simp add: backendCap_def)
qed

definition demo_names :: "string list" where
  "demo_names = map (\<lambda>n. replicate n CHR ''g'') [0..<51]"

theorem takeover_deadlocks_witness: "mgr_run demo_mgr_env [Ev_Leader Leader, Ev_Notify, Ev_Work] (demo_manager demo_names []) = Blocks"
proof -
  have len: "length demo_names = 51" by (simp add: demo_names_def)
  have "inj (\<lambda>n. replicate n CHR ''g'')" by (auto simp: inj_def dest: arg_cong [where f = length])
  then have "distinct demo_names" unfolding demo_names_def distinct_map by (simp add: inj_on_subset [OF _ subset_UNIV])
  then have "card (set demo_names) = 51" using len by (simp only: distinct_card)
  then have "card (dom (held (file_val Inr (demo_file demo_names)))) = 51"
    unfolding demo_groups(2) by (subst card_image) (simp_all add: inj_on_def keyFromGroupID_def)
  then show ?thesis
    using takeover_deadlocks [of Inr Inr "demo_controller []" demo_mgr_env "demo_manager demo_names []" "held (file_val Inr (demo_file demo_names))" "[Ev_Work]"]
    by (simp add: demo_groups(1) del: mgr_run.simps)
qed

text \<open>
  (C37) A size of 0 is refused by the group controller, but it is stored. After the next failover the group is not
  watched any more, however long the new leader works: its commit is refused and queued again.
\<close>

theorem zero_size_loses_group:
  assumes json: "\<And>v. \<exists>b. marshal v = Inr b \<and> unmarshal b = Inr v"
    and env: "group_manager (NewSnapshot marshal unmarshal) p env" "codec_ok p"
    and m: "file_ok unmarshal (mn_specs m)" "mn_isLeader m" "mn_world m = (p, x, eff)" and gid: "gid \<noteq> []"
    and M: "held (file_val unmarshal (mn_specs m)) = M" "groups_only M" "2 * card (dom M) \<le> backendCap"
    and r: "M (keyFromGroupID gid) = Some r" "ts_Properties (mr_Spec r) = Some a" "ct_decode p a = Inr g" "al_LogicalIDs (gs_Allocation g) = []"
  shows "\<exists>err s'. mgr_SetSize env gid 0 m = Ret (Some err, m\<lparr>mn_specs := s'\<rparr>) \<and>
    (\<forall>m2 n. standby m2 \<and> mn_specs m2 = s' \<and> mn_world m2 = (with_groups [] p, x, []) \<longrightarrow>
      (\<exists>m'. mgr_run env ([Ev_Leader Leader, Ev_Notify] @ replicate n Ev_Work) m2 = Ret m' \<and> gm_get (watched_groups m') gid = None \<and>
        (\<exists>cfg. cf_ID cfg = gid \<and> commit_op cfg \<in> set (mn_queue m'))))"
  by (rule spec_store.zero_size_starves [OF json_specs [OF json] env m gid M r])

theorem zero_size_loses_group_witness:
  "\<exists>err s' m'. mgr_SetSize demo_mgr_env ''g'' 0 (demo_leader [''g''] [(''g'', demo_context)]) = Ret (Some err, (demo_leader [''g''] [(''g'', demo_context)])\<lparr>mn_specs := s'\<rparr>) \<and>
     mgr_run demo_mgr_env ([Ev_Leader Leader, Ev_Notify] @ replicate 1000 Ev_Work) ((demo_manager [''g''] [])\<lparr>mn_specs := s'\<rparr>) = Ret m' \<and>
     gm_get (watched_groups m') ''g'' = None"
proof -
  let ?m = "demo_leader [''g''] [(''g'', demo_context)]" and ?M = "held (file_val Inr (demo_file [''g'']))" and ?p = "demo_controller [(''g'', demo_context)]"
  have r: "?M (keyFromGroupID ''g'') = Some (snd (demo_entry ''g''))" "ts_Properties (mr_Spec (snd (demo_entry ''g''))) = Some (gset_config (sg_settings (demo_group ''g'')))"
    "ct_decode ?p (gset_config (sg_settings (demo_group ''g''))) = Inr (gset_config (sg_settings (demo_group ''g'')))"
    "al_LogicalIDs (gs_Allocation (gset_config (sg_settings (demo_group ''g'')))) = []"
    by (simp_all add: demo_held keyFromGroupID_def demo_entry_def group_record_def demo_config_def Let_def demo_controller_def demo_group_def)
  have M: "groups_only ?M" "2 * card (dom ?M) \<le> backendCap" by (simp_all add: demo_groups backendCap_def)
  obtain err s' where s': "mgr_SetSize demo_mgr_env ''g'' 0 ?m = Ret (Some err, ?m\<lparr>mn_specs := s'\<rparr>)"
    "\<forall>m2 n. standby m2 \<and> mn_specs m2 = s' \<and> mn_world m2 = (with_groups [] ?p, demo_world, []) \<longrightarrow>
      (\<exists>m'. mgr_run demo_mgr_env ([Ev_Leader Leader, Ev_Notify] @ replicate n Ev_Work) m2 = Ret m' \<and> gm_get (watched_groups m') ''g'' = None \<and>
        (\<exists>cfg. cf_ID cfg = ''g'' \<and> commit_op cfg \<in> set (mn_queue m')))"
    using zero_size_loses_group [of Inr Inr ?p demo_mgr_env ?m demo_world "[]" "''g''" ?M, OF _ _ demo_codec _ _ _ _ _ M r] by auto
  have "standby ((demo_manager [''g''] [])\<lparr>mn_specs := s'\<rparr>)" by (simp add: demo_manager_def standby_def started_manager_def)
  moreover have "with_groups [] ?p = demo_controller []" by (simp add: with_groups_def demo_controller_def)
  ultimately show ?thesis using s'(1) s'(2) [rule_format, of "(demo_manager [''g''] [])\<lparr>mn_specs := s'\<rparr>" 1000] by auto
qed

text \<open>
  (C38) Leadership is checked when an operation is queued, not when it is run: a commit that is queued just before leadership
  is lost is run before the groups are freed, and leaves a manager that is not the leader watching its group.
\<close>

theorem late_commit_watches:
  assumes json: "\<And>v. \<exists>b. marshal v = Inr b \<and> unmarshal b = Inr v"
    and env: "group_manager (NewSnapshot marshal unmarshal) p env" and p: "codec_ok p" "gm_ok (ct_groups p)" "length (ct_groups p) < backendCap"
    and m: "idle_leader m" "file_ok unmarshal (mn_specs m)" "mn_world m = (p, x, eff)" and c: "accepted p cfg" "gm_get (ct_groups p) (cf_ID cfg) = None"
  shows "\<exists>m'. mgr_run env ([Ev_Call (Op_CommitGroup cfg False), Ev_Leader NotLeader, Ev_Notify] @ replicate (Suc (length (ct_groups p))) Ev_Work) m = Ret m' \<and>
    \<not> mn_isLeader m' \<and> mn_queue m' = [] \<and> manages (fst (mn_world m')) cfg"
  by (rule spec_store.late_commit [OF json_specs [OF json] env p m c])

theorem late_commit_watches_witness:
  "\<exists>m'. mgr_run demo_mgr_env [Ev_Call (Op_CommitGroup demo_config False), Ev_Leader NotLeader, Ev_Notify, Ev_Work] (demo_leader [] []) = Ret m' \<and>
     \<not> mn_isLeader m' \<and> mn_queue m' = [] \<and> manages (fst (mn_world m')) demo_config"
proof -
  have "accepted (demo_controller []) demo_config" using demo_accepted [of "''g''"] by (simp add: demo_config_def)
  then show ?thesis
    using late_commit_watches [of Inr Inr "demo_controller []" demo_mgr_env "demo_leader [] []" demo_world "[]" demo_config]
    by (simp add: demo_codec gm_ok_def backendCap_def del: mgr_run.simps mgr_step.simps)
qed

lemma in_order_single [simp]: "in_order order [x] = [x]"
proof -
  have "mset (in_order order [x]) = {#x#}" unfolding mset_in_order by simp
  then show ?thesis by (simp only: mset_single_iff)
qed




text \<open>
  A negative size is not refused, as the group controller does: it is stored, converted to 64 bits without a sign, and passed on.
\<close>

theorem negative_size_stored:
  assumes json: "\<And>v. \<exists>b. marshal v = Inr b \<and> unmarshal b = Inr v"
    and env: "group_manager (NewSnapshot marshal unmarshal) p env" "codec_ok p" and m: "file_ok unmarshal (mn_specs m)" "mn_isLeader m"
    and r: "held (file_val unmarshal (mn_specs m)) (keyFromGroupID gid) = Some r" "ts_Properties (mr_Spec r) = Some a" "ct_decode p a = Inr g"
      "al_LogicalIDs (gs_Allocation g) = []"
    and sz: "- (2 ^ 63) \<le> sz" "sz < 0" and run: "mgr_SetSize env gid sz m = Ret (err, m')"
  shows "\<exists>a'. loadGroupSpec env gid m' = Ret (Inr \<lparr>cf_ID = gid, cf_Properties = Some a'\<rparr>) \<and> ct_decode p a' = Inr (sized (nat (2 ^ 64 + sz)) g)"
proof -
  have "(2 ^ 64 + sz) mod 2 ^ 64 = 2 ^ 64 + sz" using sz by (intro mod_pos_pos_trivial) simp_all
  then have "sz mod 2 ^ 64 = 2 ^ 64 + sz" by (simp only: mod_add_self1)
  then obtain a' where a': "ct_decode p a' = Inr (sized (nat (2 ^ 64 + sz)) g)"
    "mgr_SetSize env gid sz m = andthen (mgr_CommitGroup env \<lparr>cf_ID = gid, cf_Properties = Some a'\<rparr> False m) (\<lambda>(err, _, m). Ret (err, m))"
    using spec_store.SetSize_commits [OF json_specs [OF json] env(1) m r env(2), of sz] by auto
  obtain reply where c: "mgr_CommitGroup env \<lparr>cf_ID = gid, cf_Properties = Some a'\<rparr> False m = Ret (err, reply, m')"
    using run unfolding a'(2) by (auto simp: andthen_Ret_iff)
  have "me_snapshot env = Some (NewSnapshot marshal unmarshal)" using env(1) by (simp add: group_manager_def)
  then show ?thesis using spec_store.commit_loads(1) [OF json_specs [OF json] _ m c] a'(1) by auto
qed

text \<open>Specs whose plugins cannot be reached are left out on winning leadership, without an error and so without the retries that are configured.\<close>

theorem unreachable_plugins_skipped:
  assumes json: "\<And>v. \<exists>b. marshal v = Inr b \<and> unmarshal b = Inr v"
    and env: "me_snapshot env = Some (NewSnapshot marshal unmarshal)" "\<forall>n. isl (me_Group env n)" "\<forall>n. isl (me_Controller env n)"
    and m: "file_ok unmarshal (mn_specs m)" "length (mn_queue m) \<le> backendCap"
  shows "onAssumeLeadership env m = Ret (None, m\<lparr>mn_world := me_loadMetadata env (mn_world m)\<rparr>)"
  by (rule spec_store.unreachable_skipped [OF json_specs [OF json] env m])

text \<open>
  Stopping closes two channels that the goroutine of the queue waits for. When it sees the second one first it returns without closing
  \<open>running\<close>, and whoever waits for the manager to stop waits for ever.
\<close>

theorem stop_not_reported:
  assumes "mn_notify m = None" "mn_alive m" "\<not> mn_done m"
  shows "\<exists>m'. mgr_run env ([Ev_Stop, Ev_Closed] @ evs) m = Ret m' \<and> \<not> mn_done m'"
  using ended_stays [of "m\<lparr>mn_stopping := True, mn_alive := False\<rparr>" env evs] assms by simp

end
