(* ===== verification/Go_Strings.thy ===== *)
theory Go_Strings
  imports Prelude
begin

text \<open>
  What is used of Go's package \<open>strings\<close>: splitting and joining, at a separator of one character.
\<close>

fun str_Split :: "char \<Rightarrow> string \<Rightarrow> string list" where
  "str_Split sep [] = [[]]"
| "str_Split sep (c # cs) = (if c = sep then [] # str_Split sep cs
     else (case str_Split sep cs of p # ps \<Rightarrow> (c # p) # ps | [] \<Rightarrow> [[c]]))"

fun str_Join :: "char \<Rightarrow> string list \<Rightarrow> string" where
  "str_Join sep [] = []"
| "str_Join sep [p] = p"
| "str_Join sep (p # q # ps) = p @ sep # str_Join sep (q # ps)"

lemma Split_nonempty [simp]: "str_Split sep s \<noteq> []" "[] \<noteq> str_Split sep s"
  by (induction s) (auto split: list.splits)

lemma Join_Cons: "ps \<noteq> [] \<Longrightarrow> str_Join sep (p # ps) = p @ sep # str_Join sep ps"
  by (cases ps) simp_all

lemma Join_Split [simp]: "str_Join sep (str_Split sep s) = s"
proof (induction s)
  case (Cons c cs)
  obtain p ps where p: "str_Split sep cs = p # ps" by (cases "str_Split sep cs") auto
  show ?case
  proof (cases "c = sep")
    case True
    then show ?thesis using Cons.IH by (simp add: Join_Cons)
  next
    case False
    then show ?thesis using Cons.IH p by (cases ps) auto
  qed
qed simp

lemma Split_parts: "p \<in> set (str_Split sep s) \<Longrightarrow> sep \<notin> set p"
proof (induction s arbitrary: p)
  case (Cons c cs)
  obtain q ps where "str_Split sep cs = q # ps" by (cases "str_Split sep cs") auto
  then show ?case using Cons by (auto split: if_splits)
qed simp

lemma Split_plain: "sep \<notin> set p \<Longrightarrow> str_Split sep p = [p]"
  by (induction p) auto

lemma Split_sep: "sep \<notin> set p \<Longrightarrow> str_Split sep (p @ sep # s) = p # str_Split sep s"
  by (induction p) auto

lemma Split_Join: "ps \<noteq> [] \<Longrightarrow> \<forall>p \<in> set ps. sep \<notin> set p \<Longrightarrow> str_Split sep (str_Join sep ps) = ps"
  by (induction sep ps rule: str_Join.induct) (auto simp: Split_plain Split_sep)

end
