(* ===== verification/Selector.thy ===== *)
theory Selector
  imports Descriptions Plugin_Name Go_Strings
begin

text \<open>
  Instance plugins that choose between other instance plugins, one per zone for example:
  \<open>pkg/plugin/instance/selector\<close> with its base (\<open>internal/base.go\<close>) and the three ways to choose, \<open>spread\<close>, \<open>weighted\<close> and
  \<open>tiered\<close>. How a name leads to a plugin (\<open>PluginClientFunc\<close>), the decoders and the source of random numbers are parameters.
\<close>

section \<open>Choices\<close>

record 'p Choice =
  ch_Name :: Name
  ch_Instances :: "LogicalID list"
  ch_Affinity :: "'p option"

definition zero_choice :: "'p Choice" where
  "zero_choice = \<lparr>ch_Name = [], ch_Instances = [], ch_Affinity = None\<rparr>"

definition HasLogicalID :: "LogicalID \<Rightarrow> 'p Choice \<Rightarrow> bool" where
  "HasLogicalID i c = list_ex (\<lambda>logicalID. logicalID = i) (ch_Instances c)"

definition Options_Less :: "'p Choice \<Rightarrow> 'p Choice \<Rightarrow> bool" where
  "Options_Less i j \<longleftrightarrow> ch_Name i < ch_Name j"

interpretation by_choice: less_by_key Options_Less ch_Name
  by unfold_locales (simp add: Options_Less_def)

section \<open>The base\<close>

text \<open>
  \<open>sb_select\<close> is \<open>SelectFunc\<close>; it may reorder the choices, which it shares with the base, so it returns them. \<open>sb_client\<close> is
  \<open>PluginClientFunc\<close>, where \<open>None\<close> is a nil plugin. \<open>sb_decode\<close> decodes properties into a map of properties; \<open>sb_nil\<close> is a nil \<open>*types.Any\<close>.
\<close>

type_synonym ('p, 'w) select_func = "'p InstanceSpec \<Rightarrow> 'p Choice list \<Rightarrow> ('p Choice \<Rightarrow> ('p, 'w) instance_plugin option) \<Rightarrow> 'w \<Rightarrow>
  ((string + 'p Choice) \<times> 'p Choice list \<times> 'w) outcome"

record ('p, 'w) selector_base =
  sb_Choices :: "'p Choice list"
  sb_select :: "('p, 'w) select_func"
  sb_client :: "Name \<Rightarrow> string + ('p, 'w) instance_plugin option"
  sb_decode :: "'p \<Rightarrow> string + (string, 'p) gomap"
  sb_nil :: 'p

fun base_visit :: "(Name \<Rightarrow> string + ('p, 'w) instance_plugin option) \<Rightarrow> ('p Choice \<Rightarrow> ('p, 'w) instance_plugin \<Rightarrow> 's \<Rightarrow> string option \<times> 's) \<Rightarrow>
    'p Choice list \<Rightarrow> 's \<Rightarrow> string option \<times> 's" where
  "base_visit client f [] s = (None, s)"
| "base_visit client f (choice # choices) s = (case client (ch_Name choice) of
     Inl err \<Rightarrow> (Some err, s)
   | Inr None \<Rightarrow> base_visit client f choices s
   | Inr (Some p) \<Rightarrow> (case f choice p s of
       (Some err, s) \<Rightarrow> (Some err, s)
     | (None, s) \<Rightarrow> base_visit client f choices s))"

text \<open>The visit of \<open>VisitChoices\<close> goes on while its function says so.\<close>

fun VisitChoices :: "(Name \<Rightarrow> string + ('p, 'w) instance_plugin option) \<Rightarrow> ('p Choice \<Rightarrow> ('p, 'w) instance_plugin \<Rightarrow> 's \<Rightarrow> (string + bool) \<times> 's) \<Rightarrow>
    'p Choice list \<Rightarrow> 's \<Rightarrow> string option \<times> 's" where
  "VisitChoices client visit [] s = (None, s)"
| "VisitChoices client visit (choice # choices) s = (case client (ch_Name choice) of
     Inl err \<Rightarrow> (Some err, s)
   | Inr None \<Rightarrow> VisitChoices client visit choices s
   | Inr (Some p) \<Rightarrow> (case visit choice p s of
       (Inl err, s) \<Rightarrow> (Some err, s)
     | (Inr continueRun, s) \<Rightarrow> if \<not> continueRun then (None, s) else VisitChoices client visit choices s))"

text \<open>The error of this visit is dropped. The last choice that is bound to the logical id wins.\<close>

definition selectOne :: "('p, 'w) selector_base \<Rightarrow> 'p InstanceSpec \<Rightarrow> 'w \<Rightarrow>
    ((string + 'p Choice \<times> ('p, 'w) instance_plugin option) \<times> 'p Choice list \<times> 'w) outcome" where
  "selectOne b spec w = (case base_visit (sb_client b) (\<lambda>c p (all, m). (None, gm_put (ch_Name c) p all,
       case is_LogicalID spec of Some i \<Rightarrow> if HasLogicalID i c then Some c else m | None \<Rightarrow> m)) (sb_Choices b) ([], None) of
     (_, all, Some match) \<Rightarrow> Ret (Inr (match, gm_get all (ch_Name match)), sb_Choices b, w)
   | (_, all, None) \<Rightarrow> andthen (sb_select b spec (sb_Choices b) (\<lambda>c. gm_get all (ch_Name c)) w) (\<lambda>(r, choices, w). case r of
       Inl err \<Rightarrow> Ret (Inl err, choices, w)
     | Inr match \<Rightarrow> Ret (Inr (match, gm_get all (ch_Name match)), choices, w)))"

text \<open>
  The name under which the properties are looked up is left empty when only those for \<open>default\<close> are there. A plugin that
  is nil panics.
\<close>

definition base_Provision :: "('p, 'w) selector_base \<Rightarrow> 'p InstanceSpec \<Rightarrow> 'w \<Rightarrow> ((string + InstanceID) \<times> 'p Choice list \<times> 'w) outcome" where
  "base_Provision b spec w = (case sb_decode b (is_Properties spec) of
     Inl err \<Rightarrow> Ret (Inl err, sb_Choices b, w)
   | Inr cprops \<Rightarrow> andthen (selectOne b spec w) (\<lambda>(r, choices, w). case r of
       Inl err \<Rightarrow> Ret (Inl err, choices, w)
     | Inr (match, selected) \<Rightarrow>
         if \<not> gm_has cprops (ch_Name match) \<and> \<not> gm_has cprops ''default''
         then Ret (Inl (''There is no Properties for choice '' @ ch_Name match), choices, w)
         else (let matchedname = (if gm_has cprops (ch_Name match) then ch_Name match else []) in
           case selected of
             None \<Rightarrow> Panics
           | Some p \<Rightarrow> (case ip_Provision p (spec\<lparr>is_Properties := gm_get0 (sb_nil b) cprops matchedname\<rparr>) w of
               (r, w) \<Rightarrow> Ret (r, choices, w)))))"

definition base_Validate :: "('p, 'w) selector_base \<Rightarrow> 'p \<Rightarrow> string option" where
  "base_Validate b req = (case sb_decode b req of Inl err \<Rightarrow> Some err | Inr _ \<Rightarrow> None)"

text \<open>The ids of all zones in order, each with the description that came last under it.\<close>

definition described_into :: "'p Description list \<Rightarrow> string list \<times> (string, 'p Description) gomap \<Rightarrow> string list \<times> (string, 'p Description) gomap" where
  "described_into = fold (\<lambda>d (keys, uniques). (keys @ [de_ID d], gm_put (de_ID d) d uniques))"

definition base_DescribeInstances :: "('p, 'w) selector_base \<Rightarrow> tags \<Rightarrow> bool \<Rightarrow> 'w \<Rightarrow> (string + 'p Description list) \<times> 'w" where
  "base_DescribeInstances b tags properties w =
     (case base_visit (sb_client b) (\<lambda>c p (found, w). case ip_DescribeInstances p tags properties w of
         (Inl err, w) \<Rightarrow> (Some err, found, w)
       | (Inr instances, w) \<Rightarrow> (None, described_into instances found, w)) (sb_Choices b) (([], []), w) of
        (Some err, _, w) \<Rightarrow> (Inl err, w)
      | (None, (keys, uniques), w) \<Rightarrow> (Inr (map (gm_get0 zero_description uniques) (go_sort (<) keys)), w))"

text \<open>
  \<open>doAll\<close> starts a goroutine for every plugin that it can contact; \<open>sched\<close> is the order in which they run. Then it waits for as many results
  as there are choices. An \<open>errorGroup\<close> is an error even when there is nothing in it.
\<close>

fun run_all :: "(('p, 'w) instance_plugin \<Rightarrow> 'w \<Rightarrow> string option \<times> 'w) \<Rightarrow> ('p, 'w) instance_plugin list \<Rightarrow> 'w \<Rightarrow> string option list \<times> 'w" where
  "run_all work [] w = ([], w)"
| "run_all work (p # ps) w = (case work p w of (e, w) \<Rightarrow> (case run_all work ps w of (es, w) \<Rightarrow> (e # es, w)))"

definition contacted :: "('p, 'w) selector_base \<Rightarrow> string option \<times> ('p, 'w) instance_plugin list" where
  "contacted b = base_visit (sb_client b) (\<lambda>c p ps. (None, ps @ [p])) (sb_Choices b) []"

definition errorGroup_Error :: "string list \<Rightarrow> string" where
  "errorGroup_Error g = str_Join (CHR '','') g"

definition doAll :: "(nat list \<Rightarrow> nat list) \<Rightarrow> nat \<Rightarrow> (('p, 'w) instance_plugin \<Rightarrow> 'w \<Rightarrow> string option \<times> 'w) \<Rightarrow> ('p, 'w) selector_base \<Rightarrow> 'w \<Rightarrow>
    (string option \<times> 'w) outcome" where
  "doAll sched expected work b w = (case contacted b of (err, ps) \<Rightarrow>
     (case run_all work (map ((!) ps) (in_order sched [0..<length ps])) w of (results, w) \<Rightarrow>
       (case err of
          Some e \<Rightarrow> Ret (Some e, w)
        | None \<Rightarrow>
            if length ps < length (sb_Choices b) then Blocks
            else if length (filter (\<lambda>e. e = None) results) \<noteq> expected
            then Ret (Some (errorGroup_Error (List.map_filter (\<lambda>e. e) results)), w)
            else Ret (None, w))))"

definition base_Label :: "(nat list \<Rightarrow> nat list) \<Rightarrow> InstanceID \<Rightarrow> tags \<Rightarrow> ('p, 'w) selector_base \<Rightarrow> 'w \<Rightarrow> (string option \<times> 'w) outcome" where
  "base_Label sched inst labels = doAll sched 1 (\<lambda>p. ip_Label p inst labels)"

definition base_Destroy :: "(nat list \<Rightarrow> nat list) \<Rightarrow> InstanceID \<Rightarrow> Context \<Rightarrow> ('p, 'w) selector_base \<Rightarrow> 'w \<Rightarrow> (string option \<times> 'w) outcome" where
  "base_Destroy sched inst ctx = doAll sched 1 (\<lambda>p. ip_Destroy p inst ctx)"

section \<open>Spread\<close>

text \<open>\<open>decode\<close> reads the labels of an affinity.\<close>

definition getLabels :: "('p \<Rightarrow> string + tags) \<Rightarrow> 'p Choice \<Rightarrow> tags" where
  "getLabels decode choice = (case ch_Affinity choice of
     None \<Rightarrow> []
   | Some a \<Rightarrow> (case decode a of Inl _ \<Rightarrow> [] | Inr labels \<Rightarrow> labels))"

fun spread_loop :: "('p \<Rightarrow> string + tags) \<Rightarrow> ('p Choice \<Rightarrow> ('p, 'w) instance_plugin option) \<Rightarrow> 'p Choice list \<Rightarrow> 'p Choice \<Rightarrow> int \<Rightarrow> 'w \<Rightarrow> 'p Choice \<times> 'w" where
  "spread_loop decode lookup [] match least w = (match, w)"
| "spread_loop decode lookup (choice # choices) match least w = (case lookup choice of
     None \<Rightarrow> spread_loop decode lookup choices match least w
   | Some p \<Rightarrow> (case ip_DescribeInstances p (getLabels decode choice) False w of
       (Inl _, w) \<Rightarrow> spread_loop decode lookup choices match least w
     | (Inr found, w) \<Rightarrow>
         if int (length found) < least then spread_loop decode lookup choices choice (int (length found)) w
         else spread_loop decode lookup choices match least w))"

definition spread_SelectOne :: "('p \<Rightarrow> string + tags) \<Rightarrow> ('p, 'w) select_func" where
  "spread_SelectOne decode spec choices lookup w = (case spread_loop decode lookup choices zero_choice (2 ^ 63 - 1) w of
     (match, w) \<Rightarrow> Ret (Inr match, choices, w))"

section \<open>Weighted\<close>

text \<open>\<open>decode\<close> reads the weight of an affinity, a \<open>uint\<close>; \<open>rnd n\<close> is what \<open>rand.Intn(n)\<close> returns, which panics unless \<open>n\<close> is positive.\<close>

definition choice_bias :: "('p \<Rightarrow> string + nat) \<Rightarrow> 'p Choice \<Rightarrow> int" where
  "choice_bias decode c = (case ch_Affinity c of
     None \<Rightarrow> 0
   | Some a \<Rightarrow> (case decode a of Inl _ \<Rightarrow> 0 | Inr weight \<Rightarrow> wrap64 (int weight)))"

text \<open>The choices are sorted in place, so they are returned with the distribution.\<close>

definition biasesFrom :: "('p \<Rightarrow> string + nat) \<Rightarrow> 'p Choice list \<Rightarrow> 'p Choice list \<times> int list" where
  "biasesFrom decode choices = (let options = go_sort Options_Less choices in (options, map (choice_bias decode) options))"

definition weighted_roll :: "(int \<Rightarrow> int) \<Rightarrow> int list \<Rightarrow> int outcome" where
  "weighted_roll rnd biases = (let total = fold (\<lambda>mass sum. wrap64 (sum + mass)) biases 0 in if total \<le> 0 then Panics else Ret (rnd total))"

fun bin_loop :: "int list \<Rightarrow> int \<Rightarrow> nat \<Rightarrow> int \<Rightarrow> nat option" where
  "bin_loop [] pick i reached = None"
| "bin_loop (mass # biases) pick i reached = (let reached = wrap64 (reached + mass) in if pick < reached then Some i else bin_loop biases pick (Suc i) reached)"

text \<open>\<open>None\<close> is the index -1.\<close>

definition weighted_bin :: "int list \<Rightarrow> int \<Rightarrow> nat option" where
  "weighted_bin biases pick = bin_loop biases pick 0 0"

text \<open>The error of a bad roll prints the distribution too, which is left out.\<close>

definition weighted_SelectOne :: "('p \<Rightarrow> string + nat) \<Rightarrow> (int \<Rightarrow> int) \<Rightarrow> ('p, 'w) select_func" where
  "weighted_SelectOne decode rnd spec choices lookup w = (case biasesFrom decode choices of (choices, distribution) \<Rightarrow>
     andthen (weighted_roll rnd distribution) (\<lambda>pick. case weighted_bin distribution pick of
       None \<Rightarrow> Ret (Inl ''bad roll with distribution'', choices, w)
     | Some index \<Rightarrow> Ret (Inr (choices ! index), choices, w)))"

section \<open>Tiered\<close>

text \<open>One choice after the other is tried. A choice without a configuration ends the visit, with the same error in the end.\<close>

definition tiered_try :: "('p, 'w) selector_base \<Rightarrow> (string, 'p) gomap \<Rightarrow> 'p InstanceSpec \<Rightarrow> 'p Choice \<Rightarrow> ('p, 'w) instance_plugin \<Rightarrow> InstanceID option \<times> 'w \<Rightarrow>
    (string + bool) \<times> InstanceID option \<times> 'w" where
  "tiered_try b cprops spec c p s = (case s of (provisioned, w) \<Rightarrow>
     (case gm_get cprops (ch_Name c) of
        None \<Rightarrow> (Inl (''no config for '' @ ch_Name c), provisioned, w)
      | Some properties \<Rightarrow>
          if properties = sb_nil b then (Inl (''no config for '' @ ch_Name c), provisioned, w)
          else (case ip_Provision p (spec\<lparr>is_Properties := properties\<rparr>) w of
            (Inr iid, w) \<Rightarrow> (Inr False, Some iid, w)
          | (Inl _, w) \<Rightarrow> (Inr True, provisioned, w))))"

definition tiered_Provision :: "('p, 'w) selector_base \<Rightarrow> 'p InstanceSpec \<Rightarrow> 'w \<Rightarrow> (string + InstanceID) \<times> 'w" where
  "tiered_Provision b spec w = (case sb_decode b (is_Properties spec) of
     Inl err \<Rightarrow> (Inl err, w)
   | Inr cprops \<Rightarrow> (case VisitChoices (sb_client b) (tiered_try b cprops spec) (sb_Choices b) (None, w) of
       (_, None, w) \<Rightarrow> (Inl ''cannot provision instance'', w)
     | (_, Some iid, w) \<Rightarrow> (Inr iid, w)))"

end
