(* ===== verification/Selector_Zones.thy ===== *)
theory Selector_Zones
  imports Selector
begin

text \<open>
  Zones that can be counted: what the selectors establish when each choice is an instance plugin for a zone of its own.
\<close>

section \<open>Visits\<close>

text \<open>When every choice can be contacted, all of them are visited.\<close>

lemma visit_reached:
  assumes "\<forall>c \<in> set cs. client (ch_Name c) = Inr (Some (plug (ch_Name c)))"
  shows "base_visit client (\<lambda>c p s. (None, f c p s)) cs s = (None, fold (\<lambda>c. f c (plug (ch_Name c))) cs s)"
  using assms by (induction cs arbitrary: s) auto

lemma fold_put_lookup:
  assumes "n \<in> ch_Name ` set cs"
  shows "gm_get (fold (\<lambda>c all. gm_put (ch_Name c) (plug (ch_Name c)) all) cs all) n = Some (plug n)"
proof -
  have "gm_get (fold (\<lambda>c all. gm_put (ch_Name c) (plug (ch_Name c)) all) cs all) n = (if n \<in> ch_Name ` set cs then Some (plug n) else gm_get all n)"
    by (induction cs arbitrary: all) auto
  then show ?thesis using assms by simp
qed

text \<open>A choice that is bound to the logical id of the spec.\<close>

definition bound_to :: "'p InstanceSpec \<Rightarrow> 'p Choice \<Rightarrow> bool" where
  "bound_to spec c = (case is_LogicalID spec of Some i \<Rightarrow> HasLogicalID i c | None \<Rightarrow> False)"

lemma match_fold: "fold (\<lambda>c m. if P c then Some c else m) cs m = (case filter P (rev cs) of [] \<Rightarrow> m | c # _ \<Rightarrow> Some c)"
  by (induction cs arbitrary: m rule: rev_induct) auto

lemma selectOne_eq:
  assumes "\<forall>c \<in> set (sb_Choices b). sb_client b (ch_Name c) = Inr (Some (plug (ch_Name c)))"
  shows "selectOne b spec w = (case filter (bound_to spec) (rev (sb_Choices b)) of
     c # _ \<Rightarrow> Ret (Inr (c, Some (plug (ch_Name c))), sb_Choices b, w)
   | [] \<Rightarrow> andthen (sb_select b spec (sb_Choices b) (gm_get (fold (\<lambda>c all. gm_put (ch_Name c) (plug (ch_Name c)) all) (sb_Choices b) []) \<circ> ch_Name) w) (\<lambda>(r, choices, w). case r of
       Inl err \<Rightarrow> Ret (Inl err, choices, w)
     | Inr match \<Rightarrow> Ret (Inr (match, gm_get (fold (\<lambda>c all. gm_put (ch_Name c) (plug (ch_Name c)) all) (sb_Choices b) []) (ch_Name match)), choices, w)))"
proof -
  let ?cs = "sb_Choices b" and ?put = "\<lambda>c all. gm_put (ch_Name c) (plug (ch_Name c)) all"
  have m: "(case is_LogicalID spec of Some i \<Rightarrow> if HasLogicalID i c then Some c else m | None \<Rightarrow> m) = (if bound_to spec c then Some c else m)" for c :: "'a Choice" and m
    by (simp add: bound_to_def split: option.splits)
  have "fold (\<lambda>c (all, m). (?put c all, if bound_to spec c then Some c else m)) cs (all, m) = (fold ?put cs all, fold (\<lambda>c m. if bound_to spec c then Some c else m) cs m)"
    for cs all m by (induction cs arbitrary: all m) auto
  then have v: "base_visit (sb_client b) (\<lambda>c p (all, m). (None, gm_put (ch_Name c) p all, if bound_to spec c then Some c else m)) ?cs ([], None) =
      (None, fold ?put ?cs [], case filter (bound_to spec) (rev ?cs) of [] \<Rightarrow> None | c # _ \<Rightarrow> Some c)"
    using visit_reached [OF assms, where f = "\<lambda>c p (all, m). (gm_put (ch_Name c) p all, if bound_to spec c then Some c else m)" and s = "([], None)"]
    by (simp add: case_prod_unfold match_fold)
  show ?thesis
  proof (cases "filter (bound_to spec) (rev ?cs)")
    case Nil
    then show ?thesis using v by (simp add: selectOne_def m comp_def)
  next
    case (Cons c rest)
    then have "c \<in> set (filter (bound_to spec) (rev ?cs))" by simp
    then have "c \<in> set ?cs" by simp
    then show ?thesis using v Cons fold_put_lookup [of "ch_Name c" ?cs plug "[]"] by (simp add: selectOne_def m)
  qed
qed

section \<open>Spreading\<close>

text \<open>A selector that spreads over zones, and specs that are bound to none of its choices.\<close>

definition spreads :: "(Name \<Rightarrow> ('p, 'w) instance_plugin) \<Rightarrow> Name set \<Rightarrow> ('p, 'w) selector_base \<Rightarrow> ('p \<Rightarrow> string + tags) \<Rightarrow> bool" where
  "spreads plug zns b decode \<longleftrightarrow> sb_select b = spread_SelectOne decode \<and> sb_Choices b \<noteq> [] \<and> distinct (map ch_Name (sb_Choices b)) \<and>
     (\<forall>c \<in> set (sb_Choices b). sb_client b (ch_Name c) = Inr (Some (plug (ch_Name c))) \<and> ch_Name c \<in> zns \<and> getLabels decode c = [])"

definition configured :: "('p, 'w) selector_base \<Rightarrow> 'p InstanceSpec \<Rightarrow> bool" where
  "configured b spec \<longleftrightarrow> (\<exists>cprops. sb_decode b (is_Properties spec) = Inr cprops \<and> (\<forall>c \<in> set (sb_Choices b). gm_has cprops (ch_Name c))) \<and>
     (\<forall>c \<in> set (sb_Choices b). \<not> bound_to spec c)"

text \<open>One spec after the other.\<close>

fun provision_all :: "('p, 'w) selector_base \<Rightarrow> 'p InstanceSpec list \<Rightarrow> 'w \<Rightarrow> 'w outcome" where
  "provision_all b [] w = Ret w"
| "provision_all b (spec # specs) w = andthen (base_Provision b spec w) (\<lambda>(_, choices, w). provision_all (b\<lparr>sb_Choices := choices\<rparr>) specs w)"

text \<open>The numbers of instances of two zones differ by one at most.\<close>

definition balanced :: "Name list \<Rightarrow> (Name \<Rightarrow> nat) \<Rightarrow> bool" where
  "balanced ns n \<longleftrightarrow> (\<forall>i \<in> set ns. \<forall>j \<in> set ns. n i \<le> Suc (n j))"

lemma balanced_step:
  assumes "balanced ns n" "m \<in> set ns" "\<forall>i \<in> set ns. n m \<le> n i" "distinct ns"
  shows "balanced ns (n(m := Suc (n m)))" "sum_list (map (n(m := Suc (n m))) ns) = Suc (sum_list (map n ns))"
proof -
  show "balanced ns (n(m := Suc (n m)))" using assms(1-3) by (auto simp: balanced_def le_SucI)
  show "sum_list (map (n(m := Suc (n m))) ns) = Suc (sum_list (map n ns))"
    using assms(2,4)
  proof (induction ns)
    case (Cons i ns)
    show ?case
    proof (cases "i = m")
      case True
      then have "map (n(m := Suc (n m))) ns = map n ns" using Cons.prems(2) by (intro map_cong) auto
      then show ?thesis using True by (simp only: list.map sum_list.Cons fun_upd_same add_Suc)
    next
      case False
      then show ?thesis using Cons by simp
    qed
  qed simp
qed

text \<open>Balanced zones have the even share each, rounded down or up.\<close>

lemma balanced_share:
  assumes "balanced ns n" "i \<in> set ns"
  shows "n i = sum_list (map n ns) div length ns \<or> n i = Suc (sum_list (map n ns) div length ns)"
proof -
  obtain l where l: "l \<in> n ` set ns" "\<forall>j \<in> set ns. l \<le> n j" using assms(2) by (metis (full_types) List.finite_set Min_in Min_le empty_iff finite_imageI image_eqI image_is_empty)
  have u: "\<forall>j \<in> set ns. n j \<le> Suc l" using assms(1) l(1) by (auto simp: balanced_def)
  have pos: "0 < length ns" using assms(2) by (cases ns) auto
  have lo: "length xs * l \<le> sum_list (map n xs)" if "set xs \<subseteq> set ns" for xs using that l(2) by (induction xs) (auto intro: add_mono)
  have up: "sum_list (map n xs) \<le> length xs * Suc l" if "set xs \<subseteq> set ns" for xs using that u by (induction xs) (auto intro: add_mono)
  obtain j where j: "j \<in> set ns" "n j = l" using l(1) by auto
  obtain ys zs where ns: "ns = ys @ j # zs" using j(1) by (auto simp: in_set_conv_decomp)
  have "sum_list (map n (ys @ zs)) \<le> length (ys @ zs) * Suc l" by (rule up) (auto simp: ns)
  then have "sum_list (map n ns) < length ns * Suc l" using j(2) by (simp add: ns)
  moreover have "length ns * l \<le> sum_list (map n ns)" by (rule lo) simp
  ultimately have "sum_list (map n ns) div length ns = l" using pos by (intro div_nat_eqI) (simp_all add: mult.commute)
  then show ?thesis using l(2) u assms(2) by (metis le_Suc_eq le_antisym)
qed

section \<open>The contract of a zone\<close>

text \<open>
  The plugin of a zone lists its instances and makes new ones, and nothing else changes their number.
\<close>

locale zones =
  fixes plug :: "Name \<Rightarrow> ('p, 'w) instance_plugin" and zns :: "Name set" and cnt :: "'w \<Rightarrow> Name \<Rightarrow> nat" and wf :: "'w \<Rightarrow> bool"
  assumes zone_describe: "wf w \<Longrightarrow> n \<in> zns \<Longrightarrow> \<exists>ds. ip_DescribeInstances (plug n) [] False w = (Inr ds, w) \<and> length ds = cnt w n"
    and zone_provision: "wf w \<Longrightarrow> n \<in> zns \<Longrightarrow> \<exists>iid w'. ip_Provision (plug n) spec w = (Inr iid, w') \<and> wf w' \<and> cnt w' = (cnt w)(n := Suc (cnt w n))"
begin

lemma spread_loop_least:
  assumes "wf w" "\<forall>c \<in> set cs. lookup c = Some (plug (ch_Name c)) \<and> ch_Name c \<in> zns \<and> getLabels decode c = []"
  shows "\<exists>m. spread_loop decode lookup cs match least w = (m, w) \<and>
    (if \<exists>c \<in> set cs. int (cnt w (ch_Name c)) < least
     then m \<in> set cs \<and> int (cnt w (ch_Name m)) < least \<and> (\<forall>c \<in> set cs. cnt w (ch_Name m) \<le> cnt w (ch_Name c)) else m = match)"
  using assms(2)
proof (induction cs arbitrary: match least)
  case (Cons c cs)
  obtain ds where ds: "ip_DescribeInstances (plug (ch_Name c)) [] False w = (Inr ds, w)" "length ds = cnt w (ch_Name c)"
    using zone_describe [OF assms(1), of "ch_Name c"] Cons.prems by auto
  have all: "\<forall>c \<in> set cs. lookup c = Some (plug (ch_Name c)) \<and> ch_Name c \<in> zns \<and> getLabels decode c = []" using Cons.prems by simp
  show ?case
  proof (cases "int (cnt w (ch_Name c)) < least")
    case True
    obtain m where "spread_loop decode lookup cs c (int (cnt w (ch_Name c))) w = (m, w)"
      "if \<exists>d \<in> set cs. int (cnt w (ch_Name d)) < int (cnt w (ch_Name c))
       then m \<in> set cs \<and> int (cnt w (ch_Name m)) < int (cnt w (ch_Name c)) \<and> (\<forall>d \<in> set cs. cnt w (ch_Name m) \<le> cnt w (ch_Name d)) else m = c"
      using Cons.IH [OF all, of c "int (cnt w (ch_Name c))"] by blast
    then show ?thesis using True Cons.prems ds by (intro exI [of _ m]) (auto simp: not_less split: if_splits)
  next
    case False
    then show ?thesis using Cons.IH [OF all, of match least] Cons.prems ds by (auto split: if_splits)
  qed
qed simp

lemma spread_provision:
  assumes b: "spreads plug zns b decode" "configured b spec" and w: "wf w" "\<forall>c \<in> set (sb_Choices b). cnt w (ch_Name c) < 2 ^ 63 - 1"
  shows "\<exists>iid m w'. base_Provision b spec w = Ret (Inr iid, sb_Choices b, w') \<and> wf w' \<and> m \<in> set (sb_Choices b) \<and>
    (\<forall>c \<in> set (sb_Choices b). cnt w (ch_Name m) \<le> cnt w (ch_Name c)) \<and> cnt w' = (cnt w)(ch_Name m := Suc (cnt w (ch_Name m)))"
proof -
  let ?cs = "sb_Choices b"
  let ?all = "fold (\<lambda>c all. gm_put (ch_Name c) (plug (ch_Name c)) all) ?cs []"
  have cl: "\<forall>c \<in> set ?cs. sb_client b (ch_Name c) = Inr (Some (plug (ch_Name c)))" using b(1) by (simp add: spreads_def)
  have no: "filter (bound_to spec) (rev ?cs) = []" using b(2) by (simp add: configured_def filter_empty_conv)
  have look: "gm_get ?all (ch_Name c) = Some (plug (ch_Name c))" if "c \<in> set ?cs" for c using that by (intro fold_put_lookup) simp
  obtain cprops where p: "sb_decode b (is_Properties spec) = Inr cprops" "\<forall>c \<in> set ?cs. gm_has cprops (ch_Name c)"
    using b(2) unfolding configured_def by blast
  obtain m where m: "spread_loop decode (gm_get ?all \<circ> ch_Name) ?cs zero_choice (2 ^ 63 - 1) w = (m, w)" "m \<in> set ?cs"
    "\<forall>c \<in> set ?cs. cnt w (ch_Name m) \<le> cnt w (ch_Name c)"
  proof -
    obtain c where "c \<in> set ?cs" using b(1) by (cases ?cs) (auto simp: spreads_def)
    then have "\<exists>c \<in> set ?cs. int (cnt w (ch_Name c)) < 2 ^ 63 - 1" using w(2) by (intro bexI [of _ c]) auto
    moreover have "\<forall>c \<in> set ?cs. (gm_get ?all \<circ> ch_Name) c = Some (plug (ch_Name c)) \<and> ch_Name c \<in> zns \<and> getLabels decode c = []"
      using look b(1) by (simp add: spreads_def)
    ultimately show thesis using spread_loop_least [OF w(1), of ?cs "gm_get ?all \<circ> ch_Name" decode zero_choice "2 ^ 63 - 1"] that by auto
  qed
  have "ch_Name m \<in> zns" using m(2) b(1) by (simp add: spreads_def)
  then obtain iid w' where pr: "ip_Provision (plug (ch_Name m)) (spec\<lparr>is_Properties := gm_get0 (sb_nil b) cprops (ch_Name m)\<rparr>) w = (Inr iid, w')"
    "wf w'" "cnt w' = (cnt w)(ch_Name m := Suc (cnt w (ch_Name m)))" using zone_provision [OF w(1)] by blast
  have sel: "sb_select b = spread_SelectOne decode" using b(1) by (simp add: spreads_def)
  have "selectOne b spec w = Ret (Inr (m, Some (plug (ch_Name m))), ?cs, w)"
    unfolding selectOne_eq [OF cl] no sel spread_SelectOne_def m(1) by (simp add: look [OF m(2)])
  then have "base_Provision b spec w = Ret (Inr iid, ?cs, w')"
    using p m(2) pr(1) by (simp add: base_Provision_def Let_def)
  then show ?thesis using m pr by blast
qed

lemma spread_all:
  assumes b: "spreads plug zns b decode" "\<forall>spec \<in> set specs. configured b spec" and w: "wf w" "balanced (map ch_Name (sb_Choices b)) (cnt w)"
    "\<forall>c \<in> set (sb_Choices b). cnt w (ch_Name c) + length specs < 2 ^ 63"
  shows "\<exists>w'. provision_all b specs w = Ret w' \<and> wf w' \<and> balanced (map ch_Name (sb_Choices b)) (cnt w') \<and>
    sum_list (map (cnt w') (map ch_Name (sb_Choices b))) = sum_list (map (cnt w) (map ch_Name (sb_Choices b))) + length specs"
  using b(2) w
proof (induction specs arbitrary: w)
  case (Cons spec specs)
  let ?ns = "map ch_Name (sb_Choices b)"
  obtain iid m w1 where p: "base_Provision b spec w = Ret (Inr iid, sb_Choices b, w1)" "wf w1" "m \<in> set (sb_Choices b)"
    "\<forall>c \<in> set (sb_Choices b). cnt w (ch_Name m) \<le> cnt w (ch_Name c)" "cnt w1 = (cnt w)(ch_Name m := Suc (cnt w (ch_Name m)))"
  proof -
    have "\<forall>c \<in> set (sb_Choices b). cnt w (ch_Name c) < 2 ^ 63 - 1" using Cons.prems(4) by auto
    moreover have "configured b spec" using Cons.prems(1) by simp
    ultimately show thesis using spread_provision [OF b(1) _ Cons.prems(2)] that by blast
  qed
  have d: "distinct ?ns" using b(1) by (simp add: spreads_def)
  have least: "ch_Name m \<in> set ?ns" "\<forall>i \<in> set ?ns. cnt w (ch_Name m) \<le> cnt w i" using p(3,4) by simp_all
  have bal: "balanced ?ns (cnt w1)" "sum_list (map (cnt w1) ?ns) = Suc (sum_list (map (cnt w) ?ns))"
    unfolding p(5) by (rule balanced_step [OF Cons.prems(3) least d])+
  have "\<forall>c \<in> set (sb_Choices b). cnt w1 (ch_Name c) + length specs < 2 ^ 63" using Cons.prems(4) by (auto simp: p(5))
  then obtain w' where "provision_all b specs w1 = Ret w'" "wf w'" "balanced ?ns (cnt w')" "sum_list (map (cnt w') ?ns) = sum_list (map (cnt w1) ?ns) + length specs"
    using Cons.IH [OF _ p(2) bal(1)] Cons.prems(1) by auto
  then show ?case using p(1) bal(2) by (intro exI [of _ w']) simp
qed simp

end

end
