(* ===== verification/Selector_Weights.thy ===== *)
theory Selector_Weights
  imports Selector
begin

text \<open>The weighted choice: how many rolls lead to each of the choices.\<close>

definition weight_of :: "('p \<Rightarrow> string + nat) \<Rightarrow> 'p Choice \<Rightarrow> nat" where
  "weight_of decode c = (case ch_Affinity c of None \<Rightarrow> 0 | Some a \<Rightarrow> (case decode a of Inl _ \<Rightarrow> 0 | Inr n \<Rightarrow> n))"

lemma biases_exact:
  assumes "\<forall>c \<in> set cs. weight_of decode c < 2 ^ 63"
  shows "map (choice_bias decode) cs = map (\<lambda>c. int (weight_of decode c)) cs"
  using assms by (auto simp: choice_bias_def weight_of_def wrap64_id split: option.splits sum.splits)

lemma total_exact:
  "0 \<le> s \<Longrightarrow> \<forall>m \<in> set ms. 0 \<le> m \<Longrightarrow> s + sum_list ms < 2 ^ 63 \<Longrightarrow> fold (\<lambda>m s. wrap64 (s + m)) ms s = s + sum_list ms"
proof (induction ms arbitrary: s)
  case (Cons m ms)
  have nn: "0 \<le> sum_list ms" using Cons.prems(2) by (simp add: sum_list_nonneg)
  then have "wrap64 (s + m) = s + m" using Cons.prems by (intro wrap64_id) auto
  then show ?case using Cons.IH [of "s + m"] Cons.prems by (simp add: add.assoc)
qed simp

lemma bin_iff:
  "0 \<le> s \<Longrightarrow> \<forall>m \<in> set ms. 0 \<le> m \<Longrightarrow> s + sum_list ms < 2 ^ 63 \<Longrightarrow> s \<le> pick \<Longrightarrow>
   bin_loop ms pick k s = Some (k + i) \<longleftrightarrow> i < length ms \<and> s + sum_list (take i ms) \<le> pick \<and> pick < s + sum_list (take (Suc i) ms)"
proof (induction ms arbitrary: s k i)
  case (Cons m ms)
  have nn: "0 \<le> sum_list ms" "0 \<le> m" using Cons.prems(2) by (simp_all add: sum_list_nonneg)
  then have w: "wrap64 (s + m) = s + m" using Cons.prems by (intro wrap64_id) auto
  show ?case
  proof (cases i)
    case 0
    have "bin_loop ms pick (Suc k) s' \<noteq> Some k" for s'
    proof -
      have "bin_loop ms pick k1 s' = Some j \<Longrightarrow> k1 \<le> j" for k1 j s' by (induction ms arbitrary: k1 s') (auto simp: Let_def split: if_splits dest: Suc_leD)
      then show ?thesis by fastforce
    qed
    then show ?thesis using 0 w Cons.prems(4) by (simp add: Let_def)
  next
    case (Suc j)
    have "0 \<le> sum_list (take j ms)" using Cons.prems(2) by (intro sum_list_nonneg) (auto dest: in_set_takeD)
    then show ?thesis using Suc w Cons.IH [of "s + m" "Suc k" j] Cons.prems nn by (auto simp: Let_def add.assoc)
  qed
qed simp

lemma picks_of:
  assumes "\<forall>m \<in> set ms. 0 \<le> m" "sum_list ms < 2 ^ 63" "i < length ms"
  shows "{pick. 0 \<le> pick \<and> pick < sum_list ms \<and> weighted_bin ms pick = Some i} = {sum_list (take i ms) ..< sum_list (take i ms) + ms ! i}"
proof -
  have le: "sum_list (take n ms) \<le> sum_list ms" for n
  proof -
    have "0 \<le> sum_list (drop n ms)" using assms(1) by (intro sum_list_nonneg) (auto dest: in_set_dropD)
    then show ?thesis by (metis append_take_drop_id le_add_same_cancel1 sum_list_append)
  qed
  have nn: "0 \<le> sum_list (take i ms)" using assms(1) by (intro sum_list_nonneg) (auto dest: in_set_takeD)
  have s: "sum_list (take (Suc i) ms) = sum_list (take i ms) + ms ! i" using assms(3) by (simp add: take_Suc_conv_app_nth)
  have "weighted_bin ms pick = Some i \<longleftrightarrow> sum_list (take i ms) \<le> pick \<and> pick < sum_list (take (Suc i) ms)" if "0 \<le> pick" for pick
    using bin_iff [of 0 ms pick 0 i] assms that by (simp add: weighted_bin_def)
  then show ?thesis using nn s le [of "Suc i"] by auto
qed

lemma bin_some:
  assumes "\<forall>m \<in> set ms. 0 \<le> m" "sum_list ms < 2 ^ 63" "0 \<le> pick" "pick < sum_list ms"
  shows "\<exists>i < length ms. weighted_bin ms pick = Some i"
proof -
  have "\<forall>m \<in> set ms. 0 \<le> m \<Longrightarrow> 0 \<le> s \<Longrightarrow> s + sum_list ms < 2 ^ 63 \<Longrightarrow> pick < s + sum_list ms \<Longrightarrow> s \<le> pick \<Longrightarrow> \<exists>i < length ms. bin_loop ms pick k s = Some (k + i)" for s k
  proof (induction ms arbitrary: s k)
    case (Cons m ms)
    have "0 \<le> sum_list ms" using Cons.prems(1) by (simp add: sum_list_nonneg)
    then have w: "wrap64 (s + m) = s + m" using Cons.prems by (intro wrap64_id) auto
    show ?case
    proof (cases "pick < s + m")
      case False
      then obtain i where "i < length ms" "bin_loop ms pick (Suc k) (s + m) = Some (Suc k + i)"
        using Cons.IH [of "s + m" "Suc k"] Cons.prems by (auto simp: add.assoc)
      then show ?thesis using False w by (intro exI [of _ "Suc i"]) simp
    qed (use w in \<open>auto simp: Let_def\<close>)
  qed simp
  from this [of 0 0] show ?thesis using assms by (simp add: weighted_bin_def)
qed

lemma select_by_bin:
  assumes "sum_list (map (weight_of decode) cs) < 2 ^ 63" "0 \<le> pick" "pick < int (sum_list (map (weight_of decode) cs))"
  defines "cs' \<equiv> go_sort Options_Less cs"
  defines "ms \<equiv> map (\<lambda>c. int (weight_of decode c)) cs'"
  shows "\<forall>m \<in> set ms. 0 \<le> m" "sum_list ms = int (sum_list (map (weight_of decode) cs))"
    "weighted_SelectOne decode (\<lambda>_. pick) spec cs lookup w = Ret (Inr (cs' ! the (weighted_bin ms pick)), cs', w)"
proof -
  have m: "mset (map (weight_of decode) cs') = mset (map (weight_of decode) cs)" by (simp add: cs'_def)
  have le: "weight_of decode c \<le> sum_list (map (weight_of decode) cs)" if "c \<in> set cs" for c using that by (simp add: member_le_sum_list)
  show nn: "\<forall>m \<in> set ms. 0 \<le> m" by (auto simp: ms_def)
  have "sum_list ms = int (sum_list (map (weight_of decode) cs'))" unfolding ms_def by (induction cs') simp_all
  also have "sum_list (map (weight_of decode) cs') = sum_list (map (weight_of decode) cs)" using m by (metis sum_mset_sum_list)
  finally show s: "sum_list ms = int (sum_list (map (weight_of decode) cs))" .
  have "\<forall>c \<in> set cs'. weight_of decode c < 2 ^ 63" using le assms(1) by (fastforce simp: cs'_def)
  then have b: "biasesFrom decode cs = (cs', ms)" by (simp add: biasesFrom_def Let_def ms_def biases_exact flip: cs'_def)
  have b63: "sum_list ms < 2 ^ 63" using s assms(1) by simp
  then have "fold (\<lambda>m s. wrap64 (s + m)) ms 0 = sum_list ms" using total_exact [of 0 ms] nn by simp
  moreover have "0 < sum_list ms" using s assms(2,3) by linarith
  ultimately have "weighted_roll (\<lambda>_. pick) ms = Ret pick" by (simp add: weighted_roll_def)
  moreover obtain i where "weighted_bin ms pick = Some i" using bin_some [OF nn b63 assms(2)] s assms(3) by auto
  ultimately show "weighted_SelectOne decode (\<lambda>_. pick) spec cs lookup w = Ret (Inr (cs' ! the (weighted_bin ms pick)), cs', w)"
    by (simp add: weighted_SelectOne_def b)
qed

lemma weighted_shares:
  assumes cs: "distinct (map ch_Name cs)" "c \<in> set cs" and b: "sum_list (map (weight_of decode) cs) < 2 ^ 63"
  shows "card {pick. 0 \<le> pick \<and> pick < int (sum_list (map (weight_of decode) cs)) \<and>
    weighted_SelectOne decode (\<lambda>_. pick) spec cs lookup w = Ret (Inr c, go_sort Options_Less cs, w)} = weight_of decode c"
proof -
  define cs' where "cs' = go_sort Options_Less cs"
  define ms where "ms = map (\<lambda>c. int (weight_of decode c)) cs'"
  have d: "distinct cs'" using cs(1) distinct_map_go_sort [of ch_Name Options_Less cs] by (simp add: cs'_def distinct_map)
  obtain j where j: "j < length cs'" "cs' ! j = c" using cs(2) by (metis cs'_def in_set_conv_nth set_go_sort)
  have nn: "\<forall>m \<in> set ms. 0 \<le> m" by (auto simp: ms_def)
  have "mset (map (weight_of decode) cs') = mset (map (weight_of decode) cs)" by (simp add: cs'_def)
  then have "sum_list (map (weight_of decode) cs') = sum_list (map (weight_of decode) cs)" by (metis sum_mset_sum_list)
  moreover have "sum_list ms = int (sum_list (map (weight_of decode) cs'))" unfolding ms_def by (induction cs') simp_all
  ultimately have s: "sum_list ms = int (sum_list (map (weight_of decode) cs))" by simp
  have b63: "sum_list ms < 2 ^ 63" using b s by simp
  have "weighted_SelectOne decode (\<lambda>_. pick) spec cs lookup w = Ret (Inr c, cs', w) \<longleftrightarrow> weighted_bin ms pick = Some j"
    if p: "0 \<le> pick" "pick < sum_list ms" for pick
  proof -
    obtain i where i: "i < length ms" "weighted_bin ms pick = Some i" using bin_some [OF nn b63 p] by blast
    have "weighted_SelectOne decode (\<lambda>_. pick) spec cs lookup w = Ret (Inr (cs' ! i), cs', w)"
      using select_by_bin(3) [OF b p(1) p(2) [unfolded s], of spec lookup w] i(2) by (simp add: cs'_def ms_def)
    moreover have "cs' ! i = c \<longleftrightarrow> i = j" using i(1) j d by (auto simp: ms_def nth_eq_iff_index_eq)
    ultimately show ?thesis using i(2) by auto
  qed
  then have "{pick. 0 \<le> pick \<and> pick < sum_list ms \<and> weighted_SelectOne decode (\<lambda>_. pick) spec cs lookup w = Ret (Inr c, cs', w)} =
      {pick. 0 \<le> pick \<and> pick < sum_list ms \<and> weighted_bin ms pick = Some j}" by blast
  also have "\<dots> = {sum_list (take j ms) ..< sum_list (take j ms) + ms ! j}" by (rule picks_of [OF nn b63]) (simp add: ms_def j)
  finally have "card {pick. 0 \<le> pick \<and> pick < sum_list ms \<and> weighted_SelectOne decode (\<lambda>_. pick) spec cs lookup w = Ret (Inr c, cs', w)} = weight_of decode c"
    using j by (simp add: ms_def)
  then show ?thesis unfolding s cs'_def .
qed

end
