(* ===== verification/Selector_Theorems.thy ===== *)
theory Selector_Theorems
  imports Selector_Zones Selector_Weights Enrollment_Theorems
begin

text \<open>
  The selectors over zones that are simulators, each with a store of its own: what they promise, and where the code does
  not do what it means to.
\<close>

section \<open>Simulators as zones\<close>

text \<open>A plugin that acts on one of several worlds.\<close>

definition at_zone :: "('p, 'w) instance_plugin \<Rightarrow> Name \<Rightarrow> ('p, Name \<Rightarrow> 'w) instance_plugin" where
  "at_zone ip n = \<lparr>ip_Validate = \<lambda>req ws. ip_Validate ip req (ws n),
     ip_Provision = \<lambda>spec ws. (case ip_Provision ip spec (ws n) of (r, w) \<Rightarrow> (r, ws(n := w))),
     ip_Label = \<lambda>i labels ws. (case ip_Label ip i labels (ws n) of (r, w) \<Rightarrow> (r, ws(n := w))),
     ip_Destroy = \<lambda>i ctx ws. (case ip_Destroy ip i ctx (ws n) of (r, w) \<Rightarrow> (r, ws(n := w))),
     ip_DescribeInstances = \<lambda>tags props ws. (case ip_DescribeInstances ip tags props (ws n) of (r, w) \<Rightarrow> (r, ws(n := w)))\<rparr>"

sublocale sink_contract \<subseteq> zoned: zones "at_zone ip" UNIV "\<lambda>ws n. card (dom (recs (ws n)))" "\<lambda>ws. \<forall>n. wf (ws n)"
proof
  fix ws :: "Name \<Rightarrow> 'w" and n :: Name and spec :: "'p InstanceSpec"
  assume ws: "\<forall>n. wf (ws n)"
  obtain ds where ds: "ip_DescribeInstances ip [] False (ws n) = (Inr ds, ws n)" "distinct (map de_ID ds)" "de_ID ` set ds = dom (recs (ws n))"
    using describe ws by blast
  have "length ds = card (dom (recs (ws n)))" using distinct_card [OF ds(2)] ds(3) by simp
  then show "\<exists>ds. ip_DescribeInstances (at_zone ip n) [] False ws = (Inr ds, ws) \<and> length ds = card (dom (recs (ws n)))"
    using ds(1) by (intro exI [of _ ds]) (simp add: at_zone_def)
  obtain iid w' t where p: "ip_Provision ip spec (ws n) = (Inr iid, w')" "wf w'" "recs (ws n) iid = None" "recs w' = (recs (ws n))(iid \<mapsto> t)"
    using provision ws by blast
  have "finite (dom (recs (ws n)))" unfolding ds(3) [symmetric] by simp
  then have "card (dom (recs w')) = Suc (card (dom (recs (ws n))))" using p(3,4) by (simp add: domIff)
  then show "\<exists>iid ws'. ip_Provision (at_zone ip n) spec ws = (Inr iid, ws') \<and> (\<forall>n. wf (ws' n)) \<and>
      (\<lambda>k. card (dom (recs (ws' k)))) = (\<lambda>k. card (dom (recs (ws k))))(n := Suc (card (dom (recs (ws n)))))"
    using p(1,2) ws by (intro exI [of _ iid] exI [of _ "ws(n := w')"]) (auto simp: at_zone_def)
qed

abbreviation zone_size :: "('s, 'b, 'p) sim_env \<Rightarrow> ('s \<Rightarrow> string \<Rightarrow> 'b option) \<Rightarrow> (Name \<Rightarrow> 's sim_world) \<Rightarrow> Name \<Rightarrow> nat" where
  "zone_size env get ws n \<equiv> card (dom (sink_recs env get (ws n)))"

context sim_sink
begin

lemmas sim_spread = sink.zoned.spread_all

end

section \<open>A selector to look at\<close>

definition demo_choice :: "Name \<Rightarrow> unit Choice" where
  "demo_choice n = \<lparr>ch_Name = n, ch_Instances = [], ch_Affinity = None\<rparr>"

definition demo_base :: "Name list \<Rightarrow> (unit, Name \<Rightarrow> unit Description Mem sim_world) selector_base" where
  "demo_base ns = \<lparr>sb_Choices = map demo_choice ns, sb_select = spread_SelectOne (\<lambda>_. Inr []),
     sb_client = \<lambda>n. if n = ''down'' then Inr None else Inr (Some (at_zone (sim_instance_plugin demo_env demo_sim) n)),
     sb_decode = \<lambda>_. Inr (map (\<lambda>n. (n, ())) ns), sb_nil = ()\<rparr>"

definition demo_instance :: "'p \<Rightarrow> 'p InstanceSpec" where
  "demo_instance p = \<lparr>is_Properties = p, is_Tags = [], is_Init = [], is_LogicalID = None, is_Attachments = []\<rparr>"

lemma demo_spreads:
  assumes "distinct ns" "ns \<noteq> []" "''down'' \<notin> set ns"
  shows "spreads (at_zone (sim_instance_plugin demo_env demo_sim)) UNIV (demo_base ns) (\<lambda>_. Inr [])" "configured (demo_base ns) (demo_instance ())"
proof -
  have "map ch_Name (map demo_choice ns) = ns" by (simp add: demo_choice_def comp_def)
  then show "spreads (at_zone (sim_instance_plugin demo_env demo_sim)) UNIV (demo_base ns) (\<lambda>_. Inr [])"
    using assms by (auto simp: spreads_def demo_base_def demo_choice_def getLabels_def)
  show "configured (demo_base ns) (demo_instance ())"
    by (auto simp: configured_def demo_base_def demo_choice_def bound_to_def demo_instance_def gm_has_def map_of_eq_None_iff image_iff)
qed

section \<open>Choosing\<close>

text \<open>
  (C28) Spreading keeps the zones even: from zones whose sizes differ by one at most, after any number of instances each zone has
  the average number of them, rounded down or up, and none was refused.
\<close>

theorem spread_even:
  assumes env: "sink_setup env order" and b: "spreads (at_zone (sim_instance_plugin env sim)) UNIV b decode" "\<forall>spec \<in> set specs. configured b spec"
    and ws: "\<forall>n. sink_ok env sim (ws n)" "balanced (map ch_Name (sb_Choices b)) (zone_size env mem_get ws)"
      "\<forall>c \<in> set (sb_Choices b). zone_size env mem_get ws (ch_Name c) + length specs < 2 ^ 63" and c: "c \<in> set (sb_Choices b)"
  shows "\<exists>ws'. provision_all b specs ws = Ret ws' \<and> (let share = (sum_list (map (zone_size env mem_get ws) (map ch_Name (sb_Choices b))) + length specs) div length (sb_Choices b)
    in zone_size env mem_get ws' (ch_Name c) \<in> {share, Suc share})"
proof -
  obtain ws' where w: "provision_all b specs ws = Ret ws'" "balanced (map ch_Name (sb_Choices b)) (zone_size env mem_get ws')"
    "sum_list (map (zone_size env mem_get ws') (map ch_Name (sb_Choices b))) = sum_list (map (zone_size env mem_get ws) (map ch_Name (sb_Choices b))) + length specs"
    using sim_sink.sim_spread [OF sink_setup_sim [OF env] b ws] by blast
  have "ch_Name c \<in> set (map ch_Name (sb_Choices b))" using c by simp
  from balanced_share [OF w(2) this] show ?thesis using w(1) unfolding w(3) by (auto simp: Let_def)
qed

theorem spread_even_witness:
  "\<exists>ws'. provision_all (demo_base [''east'', ''west'']) [demo_instance (), demo_instance (), demo_instance ()] (\<lambda>_. demo_world) = Ret ws' \<and>
     zone_size demo_env mem_get ws' ''west'' \<in> {1, Suc 1}"
proof -
  let ?b = "demo_base [''east'', ''west'']" and ?ws = "\<lambda>_ :: Name. demo_world"
  have z: "sink_recs demo_env mem_get demo_world = Map.empty" by (rule demo_sink(3))
  have names: "map ch_Name (sb_Choices ?b) = [''east'', ''west'']" by (simp add: demo_base_def demo_choice_def)
  have "demo_choice ''west'' \<in> set (sb_Choices ?b)" by (simp add: demo_base_def)
  moreover have "length (sb_Choices ?b) = 2" by (simp add: demo_base_def)
  ultimately show ?thesis
    using spread_even [of demo_env "\<lambda>xs. xs" demo_sim ?b "\<lambda>_. Inr []" "[demo_instance (), demo_instance (), demo_instance ()]" ?ws "demo_choice ''west''"]
      demo_spreads [of "[''east'', ''west'']"] demo_sink(1,2) names
    by (simp add: z balanced_def demo_choice_def Let_def del: provision_all.simps)
qed

text \<open>
  (C29) The weighted choice gives each choice its share: of the equally likely rolls, as many lead to a choice as its weight says.
\<close>

theorem weighted_choice_shares:
  assumes "distinct (map ch_Name cs)" "c \<in> set cs" "sum_list (map (weight_of decode) cs) < 2 ^ 63"
  shows "card {pick. 0 \<le> pick \<and> pick < int (sum_list (map (weight_of decode) cs)) \<and>
    weighted_SelectOne decode (\<lambda>_. pick) spec cs lookup w = Ret (Inr c, go_sort Options_Less cs, w)} = weight_of decode c"
  by (rule weighted_shares [OF assms])

definition demo_weighted :: "Name \<Rightarrow> nat \<Rightarrow> nat Choice" where
  "demo_weighted n k = \<lparr>ch_Name = n, ch_Instances = [], ch_Affinity = Some k\<rparr>"

theorem weighted_choice_shares_witness:
  "card {pick. 0 \<le> pick \<and> pick < 100 \<and> weighted_SelectOne Inr (\<lambda>_. pick) (demo_instance (0 :: nat))
     [demo_weighted ''west'' 80, demo_weighted ''east'' 20] (\<lambda>_. None) () =
     Ret (Inr (demo_weighted ''west'' 80), go_sort Options_Less [demo_weighted ''west'' 80, demo_weighted ''east'' 20], ())} = 80"
  using weighted_choice_shares [of "[demo_weighted ''west'' 80, demo_weighted ''east'' 20]" "demo_weighted ''west'' 80" Inr
      "demo_instance (0 :: nat)" "\<lambda>_. None" "()"]
  by (simp add: demo_weighted_def weight_of_def)

section \<open>Where the selectors fail\<close>

lemma contacted_less:
  assumes "\<forall>c \<in> set cs. \<not> isl (client (ch_Name c))" "\<exists>c \<in> set cs. client (ch_Name c) = Inr None"
  shows "\<exists>qs. base_visit client (\<lambda>c p ps. (None, ps @ [p])) cs ps = (None, ps @ qs) \<and> length qs < length cs"
proof -
  have le: "\<forall>c \<in> set cs. \<not> isl (client (ch_Name c)) \<Longrightarrow> \<exists>qs. base_visit client (\<lambda>c p ps. (None, ps @ [p])) cs ps = (None, ps @ qs) \<and> length qs \<le> length cs" for cs ps
  proof (induction cs arbitrary: ps)
    case (Cons c cs)
    show ?case
    proof (cases "client (ch_Name c)")
      case (Inr r)
      then show ?thesis using Cons.IH [of ps] Cons.IH [of "ps @ [the r]"] Cons.prems by (cases r) (auto simp: le_SucI)
    qed (use Cons.prems in auto)
  qed simp
  show ?thesis
    using assms
  proof (induction cs arbitrary: ps)
    case (Cons c cs)
    show ?case
    proof (cases "client (ch_Name c)")
      case (Inr r)
      show ?thesis
      proof (cases r)
        case None
        then show ?thesis using Inr le [of cs ps] Cons.prems by (auto simp: less_Suc_eq_le)
      next
        case (Some p)
        then show ?thesis using Inr Cons.IH [of "ps @ [p]"] Cons.prems by auto
      qed
    qed (use Cons.prems in auto)
  qed simp
qed

text \<open>
  (C40) \<open>Label\<close> and \<open>Destroy\<close> wait for as many results as there are choices, but ask only the plugins that they can contact: one
  zone that cannot be contacted, and both block for ever.
\<close>

theorem unreachable_zone_blocks:
  assumes "\<forall>c \<in> set (sb_Choices b). \<not> isl (sb_client b (ch_Name c))" "\<exists>c \<in> set (sb_Choices b). sb_client b (ch_Name c) = Inr None"
  shows "base_Destroy sched i ctx b w = Blocks \<and> base_Label sched i labels b w = Blocks"
proof -
  obtain qs where "contacted b = (None, qs)" "length qs < length (sb_Choices b)" using contacted_less [OF assms, of "[]"] by (auto simp: contacted_def)
  then show ?thesis by (simp add: base_Destroy_def base_Label_def doAll_def case_prod_unfold)
qed

theorem unreachable_zone_blocks_witness:
  "base_Destroy rev ''0'' Termination (demo_base [''east'', ''down'']) (\<lambda>_. demo_world) = Blocks"
  using unreachable_zone_blocks [of "demo_base [''east'', ''down'']"] by (simp add: demo_base_def demo_choice_def)

text \<open>
  The properties for \<open>default\<close> are never used: when a choice has none of its own, its plugin is called with nil properties.
\<close>

theorem default_properties_unused:
  assumes "sb_decode b (is_Properties spec) = Inr cprops" "selectOne b spec w = Ret (Inr (match, Some p), choices, w')"
    "\<not> gm_has cprops (ch_Name match)" "gm_has cprops ''default''" "\<not> gm_has cprops []"
  shows "base_Provision b spec w = (case ip_Provision p (spec\<lparr>is_Properties := sb_nil b\<rparr>) w' of (r, w) \<Rightarrow> Ret (r, choices, w))"
  using assms by (simp add: base_Provision_def gm_has_def gm_get0_def)

text \<open>
  \<open>Destroy\<close> asks every zone. When two of them have an instance of that id, both instances are destroyed, and an error without any
  text is returned.
\<close>

theorem destroyed_in_both_zones:
  assumes "\<forall>n \<in> {m, n}. sb_client b n = Inr (Some (at_zone ip n))" "sb_Choices b = [c, d]" "ch_Name c = m" "ch_Name d = n" "m \<noteq> n"
    "ip_Destroy ip i ctx (ws m) = (None, v)" "ip_Destroy ip i ctx (ws n) = (None, v')"
  shows "base_Destroy sched i ctx b ws = Ret (Some '''', ws(m := v, n := v'))"
proof -
  have c: "contacted b = (None, [at_zone ip m, at_zone ip n])" using assms(1-4) by (simp add: contacted_def)
  have "mset (in_order sched [0, 1]) = {#0, 1#}" by simp
  then have "in_order sched [0, 1] = [0, 1] \<or> in_order sched [0, 1] = [1, 0]"
  proof -
    have l: "length (in_order sched [0, 1]) = 2" "set (in_order sched [0, 1]) = {0, 1}" by simp_all
    then obtain x y where "in_order sched [0, 1] = [x, y]" by (metis One_nat_def Suc_1 length_0_conv length_Suc_conv)
    then show ?thesis using l(2) by (auto simp: doubleton_eq_iff)
  qed
  then show ?thesis
    using c assms(2,5-7) by (auto simp: base_Destroy_def doAll_def at_zone_def errorGroup_Error_def List.map_filter_simps numeral_2_eq_2 fun_upd_twist)
qed

text \<open>When no choice has a weight the weighted choice panics.\<close>

theorem no_weights_panic:
  assumes "\<forall>c \<in> set cs. weight_of decode c = 0"
  shows "weighted_SelectOne decode rnd spec cs lookup w = Panics"
proof -
  have "map (choice_bias decode) (go_sort Options_Less cs) = map (\<lambda>_. 0) (go_sort Options_Less cs)"
    using assms by (subst biases_exact) auto
  moreover have "fold (\<lambda>mass sum. wrap64 (sum + mass)) (map (\<lambda>_. 0) xs) 0 = 0" for xs :: "'a Choice list" by (induction xs) (simp_all add: wrap64_id)
  ultimately have "weighted_roll rnd (map (choice_bias decode) (go_sort Options_Less cs)) = Panics" by (simp only: weighted_roll_def Let_def order_refl if_True)
  then show ?thesis by (simp add: weighted_SelectOne_def biasesFrom_def Let_def)
qed

section \<open>Tiers\<close>

text \<open>The choices before the one that is taken: each was asked, and refused.\<close>

fun refused_by :: "('p, 'w) selector_base \<Rightarrow> (string, 'p) gomap \<Rightarrow> 'p InstanceSpec \<Rightarrow> 'p Choice list \<Rightarrow> 'w \<Rightarrow> 'w option" where
  "refused_by b cprops spec [] w = Some w"
| "refused_by b cprops spec (c # cs) w = (case sb_client b (ch_Name c) of
     Inr (Some p) \<Rightarrow> (case ip_Provision p (spec\<lparr>is_Properties := gm_get0 (sb_nil b) cprops (ch_Name c)\<rparr>) w of
       (Inl _, w) \<Rightarrow> refused_by b cprops spec cs w
     | (Inr _, _) \<Rightarrow> None)
   | Inr None \<Rightarrow> refused_by b cprops spec cs w
   | Inl _ \<Rightarrow> None)"

text \<open>
  With a configuration for every choice, an instance comes from the first tier that does not refuse it, and no
  later tier is asked.
\<close>

theorem tiered_first:
  assumes "sb_decode b (is_Properties spec) = Inr cprops" "sb_Choices b = pre @ c # post"
    "\<forall>c \<in> set (sb_Choices b). \<exists>a. gm_get cprops (ch_Name c) = Some a \<and> a \<noteq> sb_nil b" "refused_by b cprops spec pre w = Some w1"
    "sb_client b (ch_Name c) = Inr (Some p)" "ip_Provision p (spec\<lparr>is_Properties := gm_get0 (sb_nil b) cprops (ch_Name c)\<rparr>) w1 = (Inr i, w')"
  shows "tiered_Provision b spec w = (Inr i, w')"
proof -
  have "VisitChoices (sb_client b) (tiered_try b cprops spec) (pre @ c # post) (None, w) = (None, Some i, w')"
    if "\<forall>c \<in> set (pre @ c # post). \<exists>a. gm_get cprops (ch_Name c) = Some a \<and> a \<noteq> sb_nil b" "refused_by b cprops spec pre w = Some w1" for pre w
    using that
  proof (induction pre arbitrary: w)
    case Nil
    then show ?case using assms(5,6) by (auto simp: tiered_try_def gm_get0_def)
  next
    case (Cons x pre)
    obtain a where "gm_get cprops (ch_Name x) = Some a" "a \<noteq> sb_nil b" using Cons.prems(1) by auto
    then show ?case using Cons by (auto simp: tiered_try_def gm_get0_def split: sum.splits option.splits prod.splits)
  qed
  then show ?thesis using assms(1-4) by (simp add: tiered_Provision_def)
qed

end
