(* ===== verification/Spec2Isabelle.thy ===== *)
theory Spec2Isabelle
  imports Fsm_Correct Fsm_Fifo Ingress_Theorems Enrollment_Theorems Manager_Theorems Selector_Theorems
begin

text \<open>
  A model of InfraKit, which keeps groups of machines, load balancers and other parts of an
  infrastructure in the state that their specs ask for, and of the properties that make it correct.

  \<^bold>\<open>The parts and how they interact.\<close> A user commits specs to the \<^emph>\<open>manager\<close> (\<open>src/pkg/manager\<close>). While its node is
  the leader it stores them in a \<^emph>\<open>snapshot\<close> (\<open>src/pkg/store\<close>) and passes them on: specs of groups to the \<^emph>\<open>group controller\<close>
  (\<open>src/pkg/controller/group\<close>), others to the controllers of their kind, of which the \<^emph>\<open>ingress controller\<close>
  (\<open>src/pkg/controller/ingress\<close>) and the \<^emph>\<open>enrollment controller\<close> (\<open>src/pkg/controller/enrollment\<close>) are modelled. When it loses
  leadership it frees what it had committed. The group controller runs a supervisor for each group, which calls
  an \<^emph>\<open>instance plugin\<close> and a \<^emph>\<open>flavor plugin\<close> (\<open>src/pkg/spi\<close>) to create and destroy machines. The ingress controller brings
  the routes and backends of load balancers in line with the groups; it runs a \<^emph>\<open>state machine\<close> of the library
  \<open>src/pkg/fsm\<close>. The enrollment controller keeps the records of an instance plugin, the sink, in step with
  the members of a group. Both are driven by a \<^emph>\<open>poller\<close> and managed as a collection of objects
  (\<open>src/pkg/controller/internal\<close>). The \<^emph>\<open>simulator\<close> (\<open>src/pkg/run/v0/simulator\<close>) implements instances and load balancers over a
  \<^emph>\<open>key-value store\<close>; the properties are proved over it, through contracts that it meets.

  \<^bold>\<open>Conventions.\<close> A Go map is an association list without duplicate keys (\<open>gomap\<close> in \<open>Prelude\<close>); where the runtime chooses the
  order of a map, that order is a parameter (\<open>in_order\<close>). A call that may panic or block has a result of type \<open>outcome\<close>.
  Errors are values, mostly \<open>string + 'a\<close> with the text of the source. Signed and unsigned integers are kept to 64 bits where
  they can overflow (\<open>wrap64\<close>, \<open>wrapu64\<close>). What plugins act on is a world that calls pass along. Goroutines interleave as lists of
  events or as the steps of a relation. JSON, templates, hashes and the clock are parameters.

  \<^bold>\<open>The theories.\<close>

  \<^item> \<open>Prelude\<close>: the model of Go's maps, integers, loops and calls. \<open>Go_Heap\<close> and \<open>Go_Sort\<close>: the parts of \<open>container/heap\<close> and \<open>sort\<close>
    that are used, with the locales \<open>heap_client\<close> and \<open>less_by_key\<close>. \<open>Go_Strings\<close>: splitting and joining. \<open>Mapset\<close>: the vendored sets.

  \<^item> \<open>Fsm_Spec\<close> (\<open>fsm.go\<close>, \<open>types.go\<close>, \<open>flap.go\<close>, \<open>errors.go\<close>), \<open>Fsm_Queue\<close> (\<open>instance.go\<close>, \<open>queue.go\<close>), \<open>Fsm_Set\<close> and \<open>Fsm_Run\<close> (\<open>set.go\<close>), \<open>Fsm_Fifo\<close> (\<open>fifo.go\<close>), with their theorems in
    \<open>Fsm_Correct\<close>: specs are accepted exactly when they are well formed; the deadline queue is a priority queue; under every
    interleaving of the goroutines the set of instances keeps its invariant and refines a map from ids to states; ticks fire
    exactly the expired deadlines, on a heap; events and additions do what the spec says; a transaction panics exactly on an
    unknown state or instance. Two theorems show how a deadline can be missed or raised on the wrong instance.

  \<^item> \<open>Group_Scaled\<close> (\<open>scaled.go\<close>), \<open>Group_Supervise\<close> (\<open>scaler.go\<close>, \<open>quorum.go\<close>), \<open>Group_Update\<close> (\<open>rollingupdate.go\<close>), \<open>Group_Controller\<close> (\<open>group.go\<close>, \<open>state.go\<close>). \<open>Group_Env\<close> states the
    contract of the plugins as the locale \<open>group_env\<close>, \<open>Group_Quorum\<close> extends it to plugins that do not fail, and \<open>Group_Sim\<close> shows that
    the simulator (\<open>Simulator\<close>, over \<open>Kv_Store\<close>) meets both. Shown: the supervisors reach the size or the logical ids they are asked for
    and touch no other instance; a rolling update destroys only what it may and has finished when it says so; the number of
    operations in flight is bounded; what is committed is what is inspected; destroying a group destroys exactly its instances.

  \<^item> \<open>Load_Balancer\<close> (\<open>src/pkg/spi/loadbalancer\<close>, \<open>l4.go\<close> of the simulator), \<open>Plugin_Name\<close> (\<open>src/pkg/plugin/name.go\<close>), \<open>Descriptions\<close> (\<open>src/pkg/spi/instance/description.go\<close>),
    \<open>Ingress_Routes\<close>, \<open>Ingress\<close>, \<open>Ingress_Sync\<close>, \<open>Ingress_Fsm\<close>, \<open>Ingress_Theorems\<close>: a synchronisation leaves every load balancer with exactly the
    desired routes and backends, and happens once for each poll that finds the controller leading. Four theorems
    show where routes are not put in place, are overwritten, or belong to another object.

  \<^item> \<open>Poller\<close> (\<open>poll.go\<close>), \<open>Managed_Controller\<close> (\<open>controller.go\<close>), \<open>Enrollment\<close>, \<open>Enrollment_Sync\<close>, \<open>Enrollment_Sim\<close>, \<open>Enrollment_Theorems\<close>: from the first round on the records of
    the sink are the enrollments of the sources; the difference of the lists equals a reference; what is committed
    is what is described. Theorems show a lock that is kept, a panic on resuming, and records that are made again.

  \<^item> \<open>Snapshot\<close> (\<open>src/pkg/store/file/file.go\<close>), \<open>Stored_Specs\<close> (\<open>stored.go\<close>), \<open>Manager\<close> (\<open>manager.go\<close>, \<open>group_proxy.go\<close>, \<open>controller_proxy.go\<close>), \<open>Manager_Takeover\<close>, \<open>Manager_Faults\<close>,
    \<open>Manager_Theorems\<close>: after winning leadership the manager watches exactly the groups that are stored, after losing it none; a
    commit is stored whatever the plugin replies. Theorems show a deadlock with many groups, a group that is
    lost by a refused size, a commit that outlives leadership, and a store that is overwritten when it cannot be read.

  \<^item> \<open>Selector\<close> (\<open>src/pkg/plugin/instance/selector\<close>), \<open>Selector_Weights\<close>, \<open>Selector_Zones\<close>, \<open>Selector_Theorems\<close>: instance plugins that choose between the
    plugins of several zones. Spreading keeps the zones even, over the contract \<open>zones\<close> that simulators meet; the weighted choice gives
    each choice its share of the rolls; the tiered one takes the first that does not refuse. Theorems show
    calls that block when a zone cannot be contacted and properties that are not used.

  \<^bold>\<open>Fuel.\<close> \<open>tick_loop\<close> of \<open>Fsm_Set\<close> counts down from the length of the queue, and each turn of the source's loop takes one
  element off it. \<open>heap_up\<close> and \<open>heap_down\<close> terminate by the index. The loops of goroutines are functions of the finite list of events that
  they receive; a property about every moment is stated for every such list. \<open>Error\<close> of \<open>Fsm_Spec\<close> is partial, since for three
  types of errors the source does not return.

  \<^bold>\<open>Not modelled.\<close> The providers of clouds and hypervisors, which call services; the command line, the RPC layer and
  the discovery of plugins, which move data between processes; the template engine; the controllers for
  pools, resources, inventories and garbage collection; the metadata and events that controllers publish; locks,
  where every access is serialised by one goroutine anyway.
\<close>

end
